(* ===== verification/Kernel_Prelude.thy ===== *)
theory Kernel_Prelude
  imports Main "HOL-Library.Word"
begin

unbundle bit_operations_syntax

text \<open>
  What every component of the kernel model shares.

  \<^item> The machine integers of the source: \<open>u8\<close>, \<open>u16\<close>, \<open>u32\<close> and \<open>u64\<close> are words of
    their width. A \<open>usize\<close> of the 64-bit target is a \<open>nat\<close>; where the source adds
    or multiplies two of them the model checks the result against \<open>2 ^ 64\<close>.
  \<^item> A panic is a value: a computation that may panic has a type \<open>'a run\<close>, that is
    \<open>panic + 'a\<close>, with \<open>Inl\<close> the reason. The kernel is built with \<open>panic = "abort"\<close>, so
    nothing runs after a panic and no state is returned with it.
  \<^item> Arithmetic is that of the default (development) build, where an overflow panics. A
    theorem that concludes \<open>Inr\<close> therefore also says that nothing overflowed, and the
    wrapping arithmetic of the optimised builds computes the same value.
\<close>

section \<open>Machine integers and panics\<close>

type_synonym u8 = "8 word"
type_synonym u16 = "16 word"
type_synonym u32 = "32 word"
type_synonym u64 = "64 word"

datatype panic =
    Overflow
  | DivisionByZero
  | AssertFailed
  | UnwrapNone
  | IndexOutOfBounds
  | Explicit string
  | NotImplemented

type_synonym 'a run = "panic + 'a"

named_theorems run_simps \<open>evaluation of computations that may panic\<close>

definition bnd :: "'a run \<Rightarrow> ('a \<Rightarrow> 'b run) \<Rightarrow> 'b run" where
  "bnd m f = (case m of Inl e \<Rightarrow> Inl e | Inr x \<Rightarrow> f x)"

lemma bnd_Inr [simp]: "bnd (Inr x) f = f x"
  by (simp add: bnd_def)

lemma bnd_Inl [simp]: "bnd (Inl e) f = Inl e"
  by (simp add: bnd_def)

lemma bnd_Inr_right [simp]: "bnd m Inr = m"
  by (simp add: bnd_def split: sum.splits)

lemma bnd_assoc: "bnd (bnd m f) g = bnd m (\<lambda>x. bnd (f x) g)"
  by (simp add: bnd_def split: sum.splits)

lemma bnd_eq_Inr_iff: "bnd m f = Inr y \<longleftrightarrow> (\<exists>x. m = Inr x \<and> f x = Inr y)"
  by (simp add: bnd_def split: sum.splits)

lemma bnd_eq_Inl_iff:
  "bnd m f = Inl e \<longleftrightarrow> m = Inl e \<or> (\<exists>x. m = Inr x \<and> f x = Inl e)"
  by (simp add: bnd_def split: sum.splits)

lemma bnd_InrE:
  assumes "bnd m f = Inr y"
  obtains x where "m = Inr x" and "f x = Inr y"
  using assms by (auto simp: bnd_eq_Inr_iff)

lemma bnd_cong [fundef_cong]:
  assumes "m = m'" and "\<And>x. m' = Inr x \<Longrightarrow> f x = g x"
  shows "bnd m f = bnd m' g"
  using assms by (auto simp: bnd_def split: sum.splits)

definition assert_that :: "bool \<Rightarrow> unit run" where
  "assert_that b = (if b then Inr () else Inl AssertFailed)"

definition unwrap :: "'a option \<Rightarrow> 'a run" where
  "unwrap x = (case x of None \<Rightarrow> Inl UnwrapNone | Some y \<Rightarrow> Inr y)"

lemma assert_that_simps [simp]:
  "assert_that True = Inr ()"
  "assert_that False = Inl AssertFailed"
  "assert_that b = Inr u \<longleftrightarrow> b"
  by (simp_all add: assert_that_def)

lemma unwrap_simps [simp]:
  "unwrap (Some y) = Inr y"
  "unwrap None = Inl UnwrapNone"
  "unwrap x = Inr y \<longleftrightarrow> x = Some y"
  by (simp_all add: unwrap_def split: option.splits)

text \<open>A loop over the elements of a list, threading a state.\<close>

fun for_list :: "('a \<Rightarrow> 's \<Rightarrow> 's run) \<Rightarrow> 'a list \<Rightarrow> 's \<Rightarrow> 's run" where
  "for_list body [] s = Inr s"
| "for_list body (x # xs) s = bnd (body x s) (\<lambda>s'. for_list body xs s')"

lemma for_list_append: "for_list body (xs @ ys) s = bnd (for_list body xs s) (for_list body ys)"
  by (induction xs arbitrary: s) (auto simp: bnd_def split: sum.splits)

text \<open>
  The contract of an output that text is written to (\<open>fmt::Write\<close>): text that is written in pieces, as the
  formatting macros do, arrives as the whole text does. So a formatted line can be modelled as one write.
\<close>

locale text_writer =
  fixes put_text :: "nat list \<Rightarrow> 's \<Rightarrow> 's run"
  assumes put_empty: "put_text [] s = Inr s"
    and put_append: "put_text (xs @ ys) s = bnd (put_text xs s) (put_text ys)"
begin

lemma put_pieces: "for_list put_text pieces s = put_text (concat pieces) s"
proof (induction pieces arbitrary: s)
  case Nil
  then show ?case by (simp add: put_empty)
next
  case (Cons p pieces)
  then have "for_list put_text pieces = put_text (concat pieces)" by (simp add: fun_eq_iff)
  then show ?case by (simp add: put_append)
qed

lemma put_twice: "put_text xs s = Inr s' \<Longrightarrow> put_text (xs @ ys) s = put_text ys s'"
  by (simp add: put_append)

end

text \<open>An invariant of a loop over a range that never panics.\<close>

lemma for_upt_inv:
  assumes "I 0 s" and "\<And>i s. i < n \<Longrightarrow> I i s \<Longrightarrow> \<exists>s'. body i s = Inr s' \<and> I (Suc i) s'"
  shows "\<exists>s'. for_list body [0..<n] s = Inr s' \<and> I n s'"
  using assms(2)
proof (induction n)
  case 0
  then show ?case using assms(1) by simp
next
  case (Suc n)
  then obtain s1 where "for_list body [0..<n] s = Inr s1" "I n s1" by fastforce
  then show ?case using Suc.prems [of n s1] by (auto simp: for_list_append)
qed

section \<open>Words as natural numbers\<close>

lemma of_nat_unat_word [simp]: "of_nat (unat w) = w" for w :: "'a::len word"
  by simp

lemma unat_of_nat_less [simp]: "n < 2 ^ LENGTH('a) \<Longrightarrow> unat (of_nat n :: 'a::len word) = n"
  by (simp add: unat_of_nat)

lemma unat_u64_less [simp]: "unat a < 18446744073709551616" for a :: u64
  using unsigned_less [of a, where ?'a = nat] by simp

lemma word_eq_of_natI: "unat w = n \<Longrightarrow> w = of_nat n" for w :: "'a::len word"
  by (metis of_nat_unat_word)

section \<open>Checked arithmetic\<close>

definition chk_add :: "'a::len word \<Rightarrow> 'a word \<Rightarrow> 'a word run" where
  "chk_add a b = (if unat a + unat b < 2 ^ LENGTH('a) then Inr (a + b) else Inl Overflow)"

definition chk_sub :: "'a::len word \<Rightarrow> 'a word \<Rightarrow> 'a word run" where
  "chk_sub a b = (if b \<le> a then Inr (a - b) else Inl Overflow)"

definition chk_mul :: "'a::len word \<Rightarrow> 'a word \<Rightarrow> 'a word run" where
  "chk_mul a b = (if unat a * unat b < 2 ^ LENGTH('a) then Inr (a * b) else Inl Overflow)"

definition chk_div :: "'a::len word \<Rightarrow> 'a word \<Rightarrow> 'a word run" where
  "chk_div a b = (if b = 0 then Inl DivisionByZero else Inr (a div b))"

definition chk_rem :: "'a::len word \<Rightarrow> 'a word \<Rightarrow> 'a word run" where
  "chk_rem a b = (if b = 0 then Inl DivisionByZero else Inr (a mod b))"

text \<open>Shifts panic in the development build when the amount reaches the width.\<close>

definition chk_shl :: "'a::len word \<Rightarrow> nat \<Rightarrow> 'a word run" where
  "chk_shl a n = (if n < LENGTH('a) then Inr (push_bit n a) else Inl Overflow)"

definition usize_add :: "nat \<Rightarrow> nat \<Rightarrow> nat run" where
  "usize_add a b = (if a + b < 2 ^ 64 then Inr (a + b) else Inl Overflow)"

definition usize_sub :: "nat \<Rightarrow> nat \<Rightarrow> nat run" where
  "usize_sub a b = (if b \<le> a then Inr (a - b) else Inl Overflow)"

definition usize_mul :: "nat \<Rightarrow> nat \<Rightarrow> nat run" where
  "usize_mul a b = (if a * b < 2 ^ 64 then Inr (a * b) else Inl Overflow)"

lemma chk_add_eq_Inr_iff:
  fixes a b c :: "'a::len word"
  shows "chk_add a b = Inr c \<longleftrightarrow> unat a + unat b < 2 ^ LENGTH('a) \<and> c = a + b"
  by (auto simp: chk_add_def)

lemma chk_add_0 [simp]: "chk_add a 0 = Inr a"
  by (simp add: chk_add_def)

lemma unat_chk_add: "chk_add a b = Inr c \<Longrightarrow> unat c = unat a + unat b"
  by (auto simp: chk_add_eq_Inr_iff unat_word_ariths)

lemma chk_sub_eq_Inr_iff: "chk_sub a b = Inr c \<longleftrightarrow> b \<le> a \<and> c = a - b"
  by (auto simp: chk_sub_def)

lemma unat_chk_sub: "chk_sub a b = Inr c \<Longrightarrow> unat c = unat a - unat b"
  by (auto simp: chk_sub_eq_Inr_iff unat_sub)

lemma chk_mul_eq_Inr_iff:
  fixes a b c :: "'a::len word"
  shows "chk_mul a b = Inr c \<longleftrightarrow> unat a * unat b < 2 ^ LENGTH('a) \<and> c = a * b"
  by (auto simp: chk_mul_def)

lemma unat_chk_mul: "chk_mul a b = Inr c \<Longrightarrow> unat c = unat a * unat b"
  by (auto simp: chk_mul_eq_Inr_iff unat_word_ariths)

lemmas chk_iffs = chk_add_eq_Inr_iff chk_sub_eq_Inr_iff chk_mul_eq_Inr_iff

lemma usize_add_eq_Inr_iff [simp]: "usize_add a b = Inr c \<longleftrightarrow> a + b < 2 ^ 64 \<and> c = a + b"
  by (auto simp: usize_add_def)

lemma usize_sub_eq_Inr_iff [simp]: "usize_sub a b = Inr c \<longleftrightarrow> b \<le> a \<and> c = a - b"
  by (auto simp: usize_sub_def)

lemma usize_mul_eq_Inr_iff [simp]: "usize_mul a b = Inr c \<longleftrightarrow> a * b < 2 ^ 64 \<and> c = a * b"
  by (auto simp: usize_mul_def)

lemmas [run_simps] =
  chk_add_def chk_sub_def chk_mul_def chk_div_def chk_rem_def chk_shl_def
  usize_add_def usize_sub_def usize_mul_def

end
