(* ===== verification/Phys_Memory.thy ===== *)
theory Phys_Memory
  imports Kernel_Prelude
begin

text \<open>
  Physical memory: \<open>src/memory/physical.rs\<close>.

  \<^item> \<open>phy_addr\<close>, \<open>virt_addr\<close>: the address newtypes, with \<open>align_up\<close>, \<open>align_down\<close> and
    the direct-map translation \<open>as_virtual\<close>.
  \<^item> \<open>basic_physical_allocator\<close>: the bitmap allocator. The array \<open>[bool; BITMAP_SIZE]\<close> is a
    function from indices; every access of the source checks the index, and so does the
    model.
  \<^item> The locale \<open>frame_allocator\<close> states what the trait \<open>PhysicalAllocator\<close> promises to its
    clients, in terms of the set of frames in use; the bitmap allocator is an
    interpretation of it.
\<close>

section \<open>Addresses\<close>

datatype phy_addr = PhyAddr (phy_u64: u64)

datatype virt_addr = VirtAddr (virt_u64: u64)

text \<open>\<open>hhdm\<close> is the offset of the boot loader's higher-half direct map.\<close>

definition as_virtual :: "u64 \<Rightarrow> phy_addr \<Rightarrow> virt_addr run" where
  "as_virtual hhdm a = bnd (chk_add (phy_u64 a) hhdm) (\<lambda>v. Inr (VirtAddr v))"

definition align_up :: "phy_addr \<Rightarrow> nat \<Rightarrow> phy_addr run" where
  "align_up a alignment =
     bnd (chk_rem (phy_u64 a) (of_nat alignment)) (\<lambda>ok.
     if ok = 0 then Inr a
     else bnd (chk_sub (phy_u64 a) ok) (\<lambda>d.
          bnd (chk_add d (of_nat alignment)) (\<lambda>u. Inr (PhyAddr u))))"

definition align_down :: "phy_addr \<Rightarrow> nat \<Rightarrow> phy_addr run" where
  "align_down a alignment =
     bnd (chk_rem (phy_u64 a) (of_nat alignment)) (\<lambda>ok.
     bnd (chk_sub (phy_u64 a) ok) (\<lambda>d. Inr (PhyAddr d)))"

section \<open>The bitmap allocator\<close>

abbreviation frame_size :: u64 where
  "frame_size \<equiv> 4096"

definition BITMAP_SIZE :: nat where
  "BITMAP_SIZE = 8388608"

record basic_physical_allocator =
  bitmap :: "nat \<Rightarrow> bool"
  offset :: phy_addr
  limit :: u64

definition init_phys :: "phy_addr \<Rightarrow> basic_physical_allocator" where
  "init_phys off = \<lparr>bitmap = (\<lambda>_. False), offset = off, limit = 0\<rparr>"

definition set_offset :: "basic_physical_allocator \<Rightarrow> phy_addr \<Rightarrow> basic_physical_allocator run" where
  "set_offset s off =
     bnd (assert_that (phy_u64 off mod frame_size = 0)) (\<lambda>_. Inr (s\<lparr>offset := off\<rparr>))"

definition set_limit :: "basic_physical_allocator \<Rightarrow> u64 \<Rightarrow> basic_physical_allocator" where
  "set_limit s l = s\<lparr>limit := l\<rparr>"

text \<open>\<open>bitmap.iter().enumerate().find(\<dots>)\<close>: the first clear index from \<open>i\<close> on.\<close>

function find_clear :: "(nat \<Rightarrow> bool) \<Rightarrow> nat \<Rightarrow> nat option" where
  "find_clear b i =
     (if i < BITMAP_SIZE then (if b i = False then Some i else find_clear b (i + 1)) else None)"
  by pat_completeness auto
termination
  by (relation "measure (\<lambda>(b, i). BITMAP_SIZE - i)") auto

declare find_clear.simps [simp del]

definition allocate_frame ::
  "basic_physical_allocator \<Rightarrow> (phy_addr \<times> basic_physical_allocator) run" where
  "allocate_frame s =
     (case find_clear (bitmap s) 0 of
        Some index \<Rightarrow>
          bnd (chk_mul (of_nat index) frame_size) (\<lambda>d.
          bnd (chk_add d (phy_u64 (offset s))) (\<lambda>a.
          Inr (PhyAddr a, s\<lparr>bitmap := (bitmap s)(index := True)\<rparr>)))
      | None \<Rightarrow> Inr (PhyAddr 0, s))"

definition get_bit :: "(nat \<Rightarrow> bool) \<Rightarrow> nat \<Rightarrow> bool run" where
  "get_bit b i = (if i < BITMAP_SIZE then Inr (b i) else Inl IndexOutOfBounds)"

definition set_bit_at :: "(nat \<Rightarrow> bool) \<Rightarrow> nat \<Rightarrow> bool \<Rightarrow> (nat \<Rightarrow> bool) run" where
  "set_bit_at b i v = (if i < BITMAP_SIZE then Inr (b(i := v)) else Inl IndexOutOfBounds)"

definition frame_index :: "basic_physical_allocator \<Rightarrow> phy_addr \<Rightarrow> nat run" where
  "frame_index s a =
     bnd (chk_sub (phy_u64 a) (phy_u64 (offset s))) (\<lambda>d. Inr (unat (d div frame_size)))"

definition free_frame ::
  "basic_physical_allocator \<Rightarrow> phy_addr \<Rightarrow> basic_physical_allocator run" where
  "free_frame s frame =
     (if phy_u64 frame mod frame_size \<noteq> 0 then Inl (Explicit ''WHAT IS THIS ALIGNMENT?!'')
      else bnd (frame_index s frame) (\<lambda>index.
           bnd (get_bit (bitmap s) index) (\<lambda>b.
           if b = False
           then Inl (Explicit ''DBG: ATTEMPTING TO DEALLOCATE ALLOCATED MEMORY???'')
           else bnd (set_bit_at (bitmap s) index False) (\<lambda>bm. Inr (s\<lparr>bitmap := bm\<rparr>)))))"

text \<open>The two loops of \<open>alloc_phy_addr\<close>: \<open>bitmap[index + i]\<close> for \<open>i\<close> in \<open>0..frame_count\<close>.\<close>

fun any_set :: "(nat \<Rightarrow> bool) \<Rightarrow> nat \<Rightarrow> nat list \<Rightarrow> bool run" where
  "any_set b index [] = Inr False"
| "any_set b index (i # is) =
     bnd (usize_add index i) (\<lambda>j.
     bnd (get_bit b j) (\<lambda>v. if v = True then Inr True else any_set b index is))"

fun set_all :: "(nat \<Rightarrow> bool) \<Rightarrow> nat \<Rightarrow> nat list \<Rightarrow> (nat \<Rightarrow> bool) run" where
  "set_all b index [] = Inr b"
| "set_all b index (i # is) =
     bnd (usize_add index i) (\<lambda>j.
     bnd (set_bit_at b j True) (\<lambda>b'. set_all b' index is))"

definition alloc_phy_addr ::
  "basic_physical_allocator \<Rightarrow> phy_addr \<Rightarrow> nat
     \<Rightarrow> (phy_addr option \<times> basic_physical_allocator) run" where
  "alloc_phy_addr s a frame_count =
     (if phy_u64 a mod frame_size \<noteq> 0 then Inl (Explicit ''bad alignment'')
      else bnd (frame_index s a) (\<lambda>index.
           bnd (any_set (bitmap s) index [0..<frame_count]) (\<lambda>taken.
           if taken then Inr (None, s)
           else bnd (set_all (bitmap s) index [0..<frame_count]) (\<lambda>bm.
                Inr (Some a, s\<lparr>bitmap := bm\<rparr>)))))"

section \<open>Alignment\<close>

lemma unat_mod_frame: "unat (a mod frame_size) = unat a mod 4096" for a :: u64
  by (simp add: unat_mod)

lemma unat_div_frame: "unat (a div frame_size) = unat a div 4096" for a :: u64
  by (simp add: unat_div)

lemma frame_aligned_iff: "a mod frame_size = 0 \<longleftrightarrow> 4096 dvd unat a" for a :: u64
  using unat_mod_frame [of a] by (metis mod_0_imp_dvd dvd_imp_mod_0 unat_eq_zero)

lemma align_down_eq:
  assumes "0 < n" and "n < 2 ^ 64"
  shows "align_down (PhyAddr a) n = Inr (PhyAddr (of_nat (unat a - unat a mod n)))"
proof -
  have n: "unat (of_nat n :: u64) = n" using assms by simp
  then have nz: "(of_nat n :: u64) \<noteq> 0" using assms(1) by (metis less_irrefl unat_0)
  have m: "unat (a mod of_nat n) = unat a mod n" by (simp add: unat_mod n)
  have le: "a mod of_nat n \<le> a" by (simp add: word_le_nat_alt m)
  have "a - a mod of_nat n = of_nat (unat a - unat a mod n)"
    by (rule word_eq_of_natI) (simp add: unat_sub le m)
  then show ?thesis using nz le by (simp add: align_down_def run_simps)
qed

lemma round_up_div:
  fixes x n :: nat
  assumes "0 < n"
  shows "(x + (n - 1)) div n * n = (if x mod n = 0 then x else x - x mod n + n)"
proof -
  have x: "x = n * (x div n) + x mod n" by simp
  show ?thesis
  proof (cases "x mod n = 0")
    case True
    with x have "x + (n - 1) = (n - 1) + n * (x div n)" by simp
    then have "(x + (n - 1)) div n = x div n" using assms
      by (simp only: div_mult_self2) simp
    with True show ?thesis by auto
  next
    case False
    have lt: "x mod n - 1 < n" using assms by (simp add: less_imp_diff_less)
    have "x + (n - 1) = (x mod n - 1) + n * (x div n + 1)" using x False assms by simp
    then have "(x + (n - 1)) div n = x div n + 1"
      using lt assms by (simp only: div_mult_self2) simp
    with False show ?thesis by (simp add: minus_mod_eq_div_mult)
  qed
qed

lemma align_up_eq:
  assumes n: "0 < n" "n < 2 ^ 64" and fits: "unat a + n \<le> 2 ^ 64"
  shows "align_up (PhyAddr a) n = Inr (PhyAddr (of_nat ((unat a + (n - 1)) div n * n)))"
proof -
  have un: "unat (of_nat n :: u64) = n" using n by simp
  then have nz: "(of_nat n :: u64) \<noteq> 0" using n(1) by (metis less_irrefl unat_0)
  have m: "unat (a mod of_nat n) = unat a mod n" by (simp add: unat_mod un)
  show ?thesis
  proof (cases "unat a mod n = 0")
    case True
    then have "a mod of_nat n = 0" using m by (simp add: unat_eq_zero [symmetric])
    then show ?thesis unfolding round_up_div [OF n(1)] using nz True
      by (simp add: align_up_def run_simps)
  next
    case False
    have le: "a mod of_nat n \<le> a" by (simp add: word_le_nat_alt m)
    then have d: "unat (a - a mod of_nat n) = unat a - unat a mod n" by (simp add: unat_sub m)
    have "unat a mod n \<le> unat a" by simp
    with False fits have lt: "unat a - unat a mod n + n < 2 ^ 64" by linarith
    have "(a - a mod of_nat n) + of_nat n = of_nat (unat a - unat a mod n + n)"
      using lt by (intro word_eq_of_natI) (simp add: unat_word_ariths(1) d un)
    moreover have "a mod of_nat n \<noteq> 0" using False m by (metis unat_0)
    ultimately show ?thesis unfolding round_up_div [OF n(1)] using nz le lt False d un
      by (simp add: align_up_def run_simps)
  qed
qed

section \<open>The frames of the bitmap\<close>

text \<open>
  The invariant: the area the bitmap describes starts at a frame boundary and lies in
  the \<open>2 ^ 47\<close> bytes that the direct map of the boot loader makes visible.
\<close>

definition phys_inv :: "basic_physical_allocator \<Rightarrow> bool" where
  "phys_inv s \<longleftrightarrow> 4096 dvd unat (phy_u64 (offset s)) \<and>
     unat (phy_u64 (offset s)) + BITMAP_SIZE * 4096 \<le> 2 ^ 47"

definition frame_of :: "basic_physical_allocator \<Rightarrow> nat \<Rightarrow> phy_addr" where
  "frame_of s i = PhyAddr (of_nat i * frame_size + phy_u64 (offset s))"

definition frames_of :: "basic_physical_allocator \<Rightarrow> phy_addr set" where
  "frames_of s = frame_of s ` {..<BITMAP_SIZE}"

definition used_frames :: "basic_physical_allocator \<Rightarrow> phy_addr set" where
  "used_frames s = frame_of s ` {i. i < BITMAP_SIZE \<and> bitmap s i}"

text \<open>
  The frames of the usable area, from which \<open>allocate_frame\<close> is meant to give, and how many of them are free.
  The bitmap also describes the frames behind the area, where devices and the boot loader's tables may lie.
\<close>

definition usable_index :: "basic_physical_allocator \<Rightarrow> nat \<Rightarrow> bool" where
  "usable_index s i \<longleftrightarrow> i < BITMAP_SIZE \<and> (i + 1) * 4096 \<le> unat (limit s)"

definition usable_frames :: "basic_physical_allocator \<Rightarrow> phy_addr set" where
  "usable_frames s = frame_of s ` {i. usable_index s i}"

definition free_count :: "basic_physical_allocator \<Rightarrow> nat" where
  "free_count s = card {i. usable_index s i \<and> \<not> bitmap s i}"

definition frame_ok :: "phy_addr \<Rightarrow> bool" where
  "frame_ok f \<longleftrightarrow> 4096 dvd unat (phy_u64 f) \<and> unat (phy_u64 f) < 2 ^ 52"

lemma find_clear_Some:
  "find_clear b i = Some k \<longleftrightarrow> i \<le> k \<and> k < BITMAP_SIZE \<and> \<not> b k \<and> (\<forall>j. i \<le> j \<and> j < k \<longrightarrow> b j)"
proof (induction b i rule: find_clear.induct)
  case (1 b i)
  show ?case
  proof (cases "i < BITMAP_SIZE \<and> b i")
    case True
    then have "find_clear b i = find_clear b (i + 1)" by (subst find_clear.simps) simp
    with 1 True show ?thesis
      by (auto simp: Suc_le_eq) (metis Suc_leI le_neq_implies_less)
  next
    case False
    then show ?thesis
      by (subst find_clear.simps) (auto simp: le_less)
  qed
qed

lemma find_clear_None: "find_clear b i = None \<longleftrightarrow> (\<forall>j. i \<le> j \<and> j < BITMAP_SIZE \<longrightarrow> b j)"
proof (induction b i rule: find_clear.induct)
  case (1 b i)
  show ?case
  proof (cases "i < BITMAP_SIZE \<and> b i")
    case True
    then have "find_clear b i = find_clear b (i + 1)" by (subst find_clear.simps) simp
    with 1 True show ?thesis
      by (auto simp: Suc_le_eq) (metis le_neq_implies_less)
  next
    case False
    then show ?thesis by (subst find_clear.simps) auto
  qed
qed

lemma unat_frame_of:
  assumes "phys_inv s" and "i < BITMAP_SIZE"
  shows "unat (phy_u64 (frame_of s i)) = 4096 * i + unat (phy_u64 (offset s))"
proof -
  have i: "unat (of_nat i :: u64) = i" using assms(2) by (simp add: BITMAP_SIZE_def)
  have "i * 4096 + unat (phy_u64 (offset s)) < 2 ^ 64"
    using assms by (simp add: phys_inv_def BITMAP_SIZE_def)
  then show ?thesis by (simp add: frame_of_def unat_word_ariths i mult.commute)
qed

lemma frame_of_inj:
  assumes "phys_inv s" "i < BITMAP_SIZE" "j < BITMAP_SIZE"
  shows "frame_of s i = frame_of s j \<longleftrightarrow> i = j"
proof
  assume "frame_of s i = frame_of s j"
  then have "4096 * i + unat (phy_u64 (offset s)) = 4096 * j + unat (phy_u64 (offset s))"
    by (simp only: unat_frame_of [OF assms(1,2), symmetric] unat_frame_of [OF assms(1,3), symmetric])
  then show "i = j" by simp
qed simp

lemma frame_ok_frame_of: "phys_inv s \<Longrightarrow> i < BITMAP_SIZE \<Longrightarrow> frame_ok (frame_of s i)"
  by (auto simp: frame_ok_def unat_frame_of phys_inv_def)

lemma frame_index_frame_of:
  assumes "phys_inv s" "i < BITMAP_SIZE"
  shows "frame_index s (frame_of s i) = Inr i"
proof -
  let ?a = "phy_u64 (frame_of s i)" and ?o = "phy_u64 (offset s)"
  have u: "unat ?a = 4096 * i + unat ?o" by (rule unat_frame_of [OF assms])
  then have le: "?o \<le> ?a" by (simp add: word_le_nat_alt)
  then have "unat (?a - ?o) = 4096 * i" by (simp add: unat_sub u)
  then show ?thesis using le by (simp add: frame_index_def run_simps unat_div_frame)
qed

lemma frame_aligned_frame_of:
  "phys_inv s \<Longrightarrow> i < BITMAP_SIZE \<Longrightarrow> phy_u64 (frame_of s i) mod frame_size = 0"
  using frame_ok_frame_of by (simp add: frame_aligned_iff frame_ok_def)

lemma used_frames_iff:
  "phys_inv s \<Longrightarrow> i < BITMAP_SIZE \<Longrightarrow> frame_of s i \<in> used_frames s \<longleftrightarrow> bitmap s i"
  by (auto simp: used_frames_def frame_of_inj)

lemma bitmap_upd_simps [simp]:
  "frame_of (s\<lparr>bitmap := b\<rparr>) = frame_of s"
  "frames_of (s\<lparr>bitmap := b\<rparr>) = frames_of s"
  "phys_inv (s\<lparr>bitmap := b\<rparr>) = phys_inv s"
  "usable_index (s\<lparr>bitmap := b\<rparr>) = usable_index s"
  "usable_frames (s\<lparr>bitmap := b\<rparr>) = usable_frames s"
  by (simp_all add: frame_of_def frames_of_def phys_inv_def usable_index_def usable_frames_def fun_eq_iff)

lemma usable_index_less: "usable_index s i \<Longrightarrow> i < BITMAP_SIZE"
  by (simp add: usable_index_def)

lemma usable_index_mono: "usable_index s i \<Longrightarrow> j \<le> i \<Longrightarrow> usable_index s j"
  by (simp add: usable_index_def)

lemma finite_usable [simp]: "finite {i. usable_index s i \<and> P i}"
  by (rule finite_subset [of _ "{..<BITMAP_SIZE}"]) (auto simp: usable_index_def)

lemma usable_frames_iff:
  "phys_inv s \<Longrightarrow> i < BITMAP_SIZE \<Longrightarrow> frame_of s i \<in> usable_frames s \<longleftrightarrow> usable_index s i"
  unfolding usable_frames_def using frame_of_inj usable_index_less by blast

lemma used_frames_set:
  assumes "i < BITMAP_SIZE"
  shows "used_frames (s\<lparr>bitmap := (bitmap s)(i := True)\<rparr>) = insert (frame_of s i) (used_frames s)"
  using assms by (auto simp: used_frames_def)

lemma used_frames_clear:
  assumes "phys_inv s" "i < BITMAP_SIZE"
  shows "used_frames (s\<lparr>bitmap := (bitmap s)(i := False)\<rparr>) = used_frames s - {frame_of s i}"
  using assms by (auto simp: used_frames_def frame_of_inj)

lemma free_count_set:
  assumes "usable_index s i" "\<not> bitmap s i"
  shows "free_count (s\<lparr>bitmap := (bitmap s)(i := True)\<rparr>) = free_count s - 1"
proof -
  have "{k. usable_index s k \<and> \<not> ((bitmap s)(i := True)) k} = {k. usable_index s k \<and> \<not> bitmap s k} - {i}"
    by auto
  then show ?thesis using assms by (simp add: free_count_def)
qed

lemma free_count_clear:
  assumes "bitmap s i"
  shows "free_count (s\<lparr>bitmap := (bitmap s)(i := False)\<rparr>) = free_count s + (if usable_index s i then 1 else 0)"
proof -
  have "{k. usable_index s k \<and> \<not> ((bitmap s)(i := False)) k} =
      (if usable_index s i then insert i else id) {k. usable_index s k \<and> \<not> bitmap s k}"
    by auto
  then show ?thesis using assms by (simp add: free_count_def)
qed

lemma free_count_all: "bitmap s = (\<lambda>_. False) \<Longrightarrow> free_count s = min BITMAP_SIZE (unat (limit s) div 4096)"
proof -
  assume "bitmap s = (\<lambda>_. False)"
  moreover have "usable_index s i \<longleftrightarrow> i < min BITMAP_SIZE (unat (limit s) div 4096)" for i
    by (auto simp: usable_index_def less_eq_div_iff_mult_less_eq Suc_le_eq [symmetric])
  ultimately have "free_count s = card {..<min BITMAP_SIZE (unat (limit s) div 4096)}" by (simp add: free_count_def lessThan_def)
  then show ?thesis by simp
qed

section \<open>The operations on the set of frames in use\<close>

definition frame_plus :: "phy_addr \<Rightarrow> nat \<Rightarrow> phy_addr" where
  "frame_plus a k = PhyAddr (phy_u64 a + of_nat k * frame_size)"

lemma frame_plus_0 [simp]: "frame_plus a 0 = a"
  by (simp add: frame_plus_def)

lemma frame_plus_frame_of: "frame_plus (frame_of s i) k = frame_of s (i + k)"
  by (simp add: frame_plus_def frame_of_def algebra_simps)

lemma frame_plus_in_frames:
  assumes inv: "phys_inv s" and i: "i < BITMAP_SIZE"
    and all: "\<forall>k<n. frame_plus (frame_of s i) k \<in> frames_of s"
  shows "i + n \<le> BITMAP_SIZE"
proof (rule ccontr)
  assume "\<not> i + n \<le> BITMAP_SIZE"
  with i have "BITMAP_SIZE - i < n" by linarith
  with all have "frame_of s (i + (BITMAP_SIZE - i)) \<in> frames_of s"
    by (simp only: frame_plus_frame_of [symmetric])
  with i have "frame_of s BITMAP_SIZE \<in> frames_of s" by simp
  then obtain j where j: "j < BITMAP_SIZE" "frame_of s BITMAP_SIZE = frame_of s j"
    by (auto simp: frames_of_def)
  have "BITMAP_SIZE * 4096 + unat (phy_u64 (offset s)) < 2 ^ 64"
    using inv by (simp add: phys_inv_def)
  moreover have "unat (of_nat BITMAP_SIZE :: u64) = BITMAP_SIZE" by (simp add: BITMAP_SIZE_def)
  ultimately have "unat (phy_u64 (frame_of s BITMAP_SIZE))
      = BITMAP_SIZE * 4096 + unat (phy_u64 (offset s))"
    by (simp add: frame_of_def unat_word_ariths)
  with unat_frame_of [OF inv j(1)] j show False by simp
qed

lemma allocate_frame_eq:
  assumes "phys_inv s" and "find_clear (bitmap s) 0 = Some i"
  shows "allocate_frame s = Inr (frame_of s i, s\<lparr>bitmap := (bitmap s)(i := True)\<rparr>)"
proof -
  have i: "i < BITMAP_SIZE" using assms(2) by (simp add: find_clear_Some)
  then have "unat (of_nat i :: u64) = i" by (simp add: BITMAP_SIZE_def)
  moreover have "i * 4096 + unat (phy_u64 (offset s)) < 2 ^ 64"
    using i assms(1) by (simp add: phys_inv_def BITMAP_SIZE_def)
  ultimately show ?thesis
    using assms(2) by (simp add: allocate_frame_def run_simps frame_of_def unat_word_ariths)
qed

lemma free_count_pos:
  assumes "0 < free_count s"
  obtains i where "find_clear (bitmap s) 0 = Some i" and "usable_index s i" and "\<not> bitmap s i"
proof -
  obtain k where k: "usable_index s k" "\<not> bitmap s k" using assms by (auto simp: free_count_def card_gt_0_iff)
  then have "find_clear (bitmap s) 0 \<noteq> None" by (auto simp: find_clear_None usable_index_def)
  then obtain i where i: "find_clear (bitmap s) 0 = Some i" by auto
  then have "i \<le> k" using k by (auto simp: find_clear_Some not_less [symmetric])
  then show thesis using that i usable_index_mono [OF k(1)] by (simp add: find_clear_Some)
qed

lemma free_frame_frame_of:
  assumes "phys_inv s" "i < BITMAP_SIZE"
  shows "free_frame s (frame_of s i) =
    (if bitmap s i then Inr (s\<lparr>bitmap := (bitmap s)(i := False)\<rparr>)
     else Inl (Explicit ''DBG: ATTEMPTING TO DEALLOCATE ALLOCATED MEMORY???''))"
  using assms
  by (simp add: free_frame_def frame_aligned_frame_of frame_index_frame_of get_bit_def set_bit_at_def)

lemma any_set_eq:
  "\<forall>k\<in>set ks. i + k < BITMAP_SIZE \<Longrightarrow> any_set b i ks = Inr (\<exists>k\<in>set ks. b (i + k))"
  by (induction ks) (auto simp: get_bit_def usize_add_def BITMAP_SIZE_def)

lemma set_all_eq:
  "\<forall>k\<in>set ks. i + k < BITMAP_SIZE \<Longrightarrow>
     set_all b i ks = Inr (\<lambda>j. b j \<or> (\<exists>k\<in>set ks. j = i + k))"
proof (induction ks arbitrary: b)
  case (Cons k ks)
  then have "i + k < BITMAP_SIZE" by simp
  then show ?case using Cons
    by (simp add: set_bit_at_def usize_add_def BITMAP_SIZE_def) (auto simp: fun_eq_iff)
qed simp

lemma alloc_phy_addr_frame_of:
  assumes "phys_inv s" "i < BITMAP_SIZE" "i + n \<le> BITMAP_SIZE"
  shows "alloc_phy_addr s (frame_of s i) n =
    (if \<exists>k<n. bitmap s (i + k) then Inr (None, s)
     else Inr (Some (frame_of s i), s\<lparr>bitmap := \<lambda>j. bitmap s j \<or> (\<exists>k<n. j = i + k)\<rparr>))"
proof -
  have ks: "\<forall>k\<in>set [0..<n]. i + k < BITMAP_SIZE" using assms(3) by simp
  show ?thesis
    by (auto simp: alloc_phy_addr_def frame_aligned_frame_of frame_index_frame_of assms
        any_set_eq [OF ks] set_all_eq [OF ks] atLeast0LessThan Bex_def)
qed

section \<open>The contract of the trait \<open>PhysicalAllocator\<close>\<close>

text \<open>
  \<open>used\<close> abstracts the allocator to the set of frames that are handed out, \<open>pool\<close> is the
  set of frames it can describe, \<open>stock\<close> the set of those it gives away and \<open>room\<close> the number of these
  that are left. A frame outside the stock can only be asked for by its address.
\<close>

locale frame_allocator =
  fixes alloc :: "'s \<Rightarrow> (phy_addr \<times> 's) run"
    and release :: "'s \<Rightarrow> phy_addr \<Rightarrow> 's run"
    and alloc_at :: "'s \<Rightarrow> phy_addr \<Rightarrow> nat \<Rightarrow> (phy_addr option \<times> 's) run"
    and inv :: "'s \<Rightarrow> bool"
    and pool :: "'s \<Rightarrow> phy_addr set"
    and stock :: "'s \<Rightarrow> phy_addr set"
    and used :: "'s \<Rightarrow> phy_addr set"
    and room :: "'s \<Rightarrow> nat"
  assumes pool_ok: "inv s \<Longrightarrow> f \<in> pool s \<Longrightarrow> frame_ok f"
    and pool_low: "inv s \<Longrightarrow> f \<in> pool s \<Longrightarrow> unat (phy_u64 f) < 2 ^ 47"
    and stock_pool: "inv s \<Longrightarrow> stock s \<subseteq> pool s"
    and used_pool: "inv s \<Longrightarrow> used s \<subseteq> pool s"
    and alloc_spec: "inv s \<Longrightarrow> 0 < room s \<Longrightarrow>
      \<exists>f s'. alloc s = Inr (f, s') \<and> inv s' \<and> f \<in> stock s \<and> f \<notin> used s \<and>
        pool s' = pool s \<and> stock s' = stock s \<and> used s' = insert f (used s) \<and> room s' = room s - 1"
    and release_spec: "inv s \<Longrightarrow> f \<in> used s \<Longrightarrow>
      \<exists>s'. release s f = Inr s' \<and> inv s' \<and> pool s' = pool s \<and> stock s' = stock s \<and>
        used s' = used s - {f} \<and> room s' = room s + (if f \<in> stock s then 1 else 0)"
    and release_unused: "inv s \<Longrightarrow> f \<in> pool s \<Longrightarrow> f \<notin> used s \<Longrightarrow> \<exists>e. release s f = Inl e"
    and alloc_at_spec: "inv s \<Longrightarrow> a \<in> pool s \<Longrightarrow>
      \<forall>k<n. frame_plus a k \<in> pool s \<and> frame_plus a k \<notin> used s \<Longrightarrow>
      \<exists>s'. alloc_at s a n = Inr (Some a, s') \<and> inv s' \<and> pool s' = pool s \<and> stock s' = stock s \<and>
        used s' = used s \<union> frame_plus a ` {..<n} \<and> room s \<le> room s' + n"
    and alloc_at_taken: "inv s \<Longrightarrow> a \<in> pool s \<Longrightarrow> \<forall>k<n. frame_plus a k \<in> pool s \<Longrightarrow>
      \<exists>k<n. frame_plus a k \<in> used s \<Longrightarrow> alloc_at s a n = Inr (None, s)"
begin

text \<open>What a sequence of at most \<open>n\<close> allocations leaves of the state.\<close>

definition kept :: "nat \<Rightarrow> 's \<Rightarrow> 's \<Rightarrow> bool" where
  "kept n s s' \<longleftrightarrow> inv s' \<and> pool s' = pool s \<and> stock s' = stock s \<and> used s \<subseteq> used s' \<and>
    used s' \<subseteq> used s \<union> stock s \<and> room s \<le> room s' + n"

lemma kept_refl: "inv s \<Longrightarrow> kept n s s"
  by (simp add: kept_def)

lemma kept_trans: "kept a s s' \<Longrightarrow> kept b s' s'' \<Longrightarrow> kept (a + b) s s''"
  unfolding kept_def by auto

lemma kept_alloc: "inv s \<Longrightarrow> 0 < room s \<Longrightarrow>
    \<exists>f s'. alloc s = Inr (f, s') \<and> kept 1 s s' \<and> f \<in> stock s \<and> f \<notin> used s \<and> used s' = insert f (used s)"
  using alloc_spec [of s] unfolding kept_def by fastforce

lemma alloc_release:
  assumes "inv s" and "0 < room s"
  obtains f s' s'' where "alloc s = Inr (f, s')" and "release s' f = Inr s''"
    and "used s'' = used s" and "room s'' = room s" and "inv s''"
proof -
  obtain f s' where a: "alloc s = Inr (f, s')" "inv s'" "f \<notin> used s"
      "used s' = insert f (used s)" "room s' = room s - 1" "f \<in> stock s'"
    using alloc_spec [OF assms] by blast
  then obtain s'' where "release s' f = Inr s''" "inv s''" "used s'' = used s' - {f}"
      "room s'' = room s' + 1"
    using release_spec [of s' f] by auto
  with a assms(2) that show ?thesis by simp
qed

lemma stock_ok: "inv s \<Longrightarrow> f \<in> stock s \<Longrightarrow> frame_ok f"
  using stock_pool pool_ok by blast

lemma stock_low: "inv s \<Longrightarrow> f \<in> stock s \<Longrightarrow> unat (phy_u64 f) < 2 ^ 47"
  using stock_pool pool_low by blast

lemma release_twice:
  assumes "inv s" and "f \<in> used s" and "release s f = Inr s'"
  shows "\<exists>e. release s' f = Inl e"
  using release_spec [OF assms(1,2)] used_pool [OF assms(1)] assms release_unused [of s' f] by auto

end

text \<open>The bitmap allocator keeps the contract.\<close>

lemma free_count_run:
  "free_count s \<le> free_count (s\<lparr>bitmap := \<lambda>j. bitmap s j \<or> (\<exists>k<n. j = i + k)\<rparr>) + n"
proof -
  let ?A = "{j. usable_index s j \<and> \<not> bitmap s j}" and ?B = "{j. usable_index s j \<and> \<not> (bitmap s j \<or> (\<exists>k<n. j = i + k))}"
  have "?A \<subseteq> ?B \<union> (+) i ` {..<n}" by auto
  then have "card ?A \<le> card (?B \<union> (+) i ` {..<n})" by (intro card_mono) simp_all
  also have "\<dots> \<le> card ?B + n" using card_Un_le [of ?B "(+) i ` {..<n}"] card_image_le [of "{..<n}" "(+) i"] by simp
  finally show ?thesis by (simp add: free_count_def)
qed

lemma allocate_frame_spec:
  assumes "phys_inv s" "0 < free_count s"
  shows "\<exists>f s'. allocate_frame s = Inr (f, s') \<and> phys_inv s' \<and> f \<in> usable_frames s \<and>
    f \<notin> used_frames s \<and> frames_of s' = frames_of s \<and> usable_frames s' = usable_frames s \<and>
    used_frames s' = insert f (used_frames s) \<and> free_count s' = free_count s - 1"
proof -
  obtain i where i: "find_clear (bitmap s) 0 = Some i" "usable_index s i" "\<not> bitmap s i"
    by (rule free_count_pos [OF assms(2)])
  then show ?thesis using assms(1) usable_index_less [OF i(2)]
    by (simp add: allocate_frame_eq used_frames_set free_count_set used_frames_iff usable_frames_iff)
qed

lemma free_frame_spec:
  assumes "phys_inv s" "f \<in> used_frames s"
  shows "\<exists>s'. free_frame s f = Inr s' \<and> phys_inv s' \<and> frames_of s' = frames_of s \<and> usable_frames s' = usable_frames s \<and>
    used_frames s' = used_frames s - {f} \<and> free_count s' = free_count s + (if f \<in> usable_frames s then 1 else 0)"
proof -
  obtain i where "f = frame_of s i" "i < BITMAP_SIZE" "bitmap s i"
    using assms(2) by (auto simp: used_frames_def)
  then show ?thesis using assms(1)
    by (simp add: free_frame_frame_of used_frames_clear free_count_clear usable_frames_iff)
qed

lemma alloc_phy_addr_spec:
  assumes "phys_inv s" "a \<in> frames_of s"
    and "\<forall>k<n. frame_plus a k \<in> frames_of s \<and> frame_plus a k \<notin> used_frames s"
  shows "\<exists>s'. alloc_phy_addr s a n = Inr (Some a, s') \<and> phys_inv s' \<and>
    frames_of s' = frames_of s \<and> usable_frames s' = usable_frames s \<and>
    used_frames s' = used_frames s \<union> frame_plus a ` {..<n} \<and> free_count s \<le> free_count s' + n"
proof -
  obtain i where i: "a = frame_of s i" "i < BITMAP_SIZE" using assms(2) by (auto simp: frames_of_def)
  then have n: "i + n \<le> BITMAP_SIZE" using assms by (auto intro: frame_plus_in_frames)
  then have clear: "\<forall>k<n. \<not> bitmap s (i + k)"
    using assms by (auto simp: i frame_plus_frame_of used_frames_iff)
  let ?s' = "s\<lparr>bitmap := \<lambda>j. bitmap s j \<or> (\<exists>k<n. j = i + k)\<rparr>"
  have "used_frames ?s' = used_frames s \<union> frame_plus a ` {..<n}"
    using n by (auto simp: used_frames_def i frame_plus_frame_of image_iff)
  with clear n free_count_run [of s n i] show ?thesis using assms(1)
    by (simp add: i alloc_phy_addr_frame_of del: bitmap_upd_simps) simp
qed

lemma alloc_phy_addr_taken:
  assumes "phys_inv s" "a \<in> frames_of s" "\<forall>k<n. frame_plus a k \<in> frames_of s"
    and "\<exists>k<n. frame_plus a k \<in> used_frames s"
  shows "alloc_phy_addr s a n = Inr (None, s)"
proof -
  obtain i where i: "a = frame_of s i" "i < BITMAP_SIZE" using assms(2) by (auto simp: frames_of_def)
  then have n: "i + n \<le> BITMAP_SIZE" using assms by (auto intro: frame_plus_in_frames)
  then have "\<exists>k<n. bitmap s (i + k)"
    using assms by (auto simp: i frame_plus_frame_of used_frames_iff)
  then show ?thesis using assms(1) n by (simp add: i alloc_phy_addr_frame_of)
qed

interpretation phys: frame_allocator
  allocate_frame free_frame alloc_phy_addr phys_inv frames_of usable_frames used_frames free_count
proof
  show "frame_ok f" if "phys_inv s" "f \<in> frames_of s" for s f
    using that by (auto simp: frames_of_def frame_ok_frame_of)
  show "unat (phy_u64 f) < 2 ^ 47" if "phys_inv s" "f \<in> frames_of s" for s f
    using that by (auto simp: frames_of_def unat_frame_of phys_inv_def)
  show "usable_frames s \<subseteq> frames_of s" for s
    by (auto simp: usable_frames_def frames_of_def usable_index_def)
  show "used_frames s \<subseteq> frames_of s" for s
    by (auto simp: used_frames_def frames_of_def)
  show "\<exists>e. free_frame s f = Inl e" if "phys_inv s" "f \<in> frames_of s" "f \<notin> used_frames s" for s f
    using that by (auto simp: frames_of_def free_frame_frame_of used_frames_iff)
qed (fact allocate_frame_spec free_frame_spec alloc_phy_addr_spec alloc_phy_addr_taken)+

section \<open>Properties\<close>

text \<open>
  C24. As long as a frame of the usable area is free, the frame that is handed out lies in that area and was
  free; giving it back restores the allocator exactly, and giving a frame back that is free panics.
\<close>

theorem allocate_free_restores:
  assumes "phys_inv s" and "0 < free_count s"
  shows "\<exists>f s'. allocate_frame s = Inr (f, s') \<and> f \<in> usable_frames s - used_frames s \<and>
    used_frames s' = insert f (used_frames s) \<and> free_frame s' f = Inr s \<and> (\<exists>e. free_frame s f = Inl e)"
proof -
  obtain i where i: "find_clear (bitmap s) 0 = Some i" "usable_index s i" "\<not> bitmap s i"
    by (rule free_count_pos [OF assms(2)])
  note b = usable_index_less [OF i(2)]
  let ?s' = "s\<lparr>bitmap := (bitmap s)(i := True)\<rparr>"
  have "(bitmap s)(i := False) = bitmap s" using i(3) by (auto simp: fun_eq_iff)
  then have "free_frame ?s' (frame_of ?s' i) = Inr s"
    using assms(1) b by (subst free_frame_frame_of) simp_all
  then show ?thesis
    using allocate_frame_eq [OF assms(1) i(1)] i b assms(1) used_frames_set [OF b, of s]
    by (auto simp: usable_frames_iff used_frames_iff free_frame_frame_of)
qed

theorem allocate_free_restores_witness:
  "\<exists>f s'. allocate_frame (set_limit (init_phys (PhyAddr 0x100000)) 0x2000) = Inr (f, s') \<and>
     free_frame s' f = Inr (set_limit (init_phys (PhyAddr 0x100000)) 0x2000)"
proof -
  let ?s = "set_limit (init_phys (PhyAddr 0x100000)) 0x2000"
  have "0 < free_count ?s" by (subst free_count_all) (simp_all add: set_limit_def init_phys_def BITMAP_SIZE_def)
  moreover have "phys_inv ?s" by (simp add: phys_inv_def init_phys_def set_limit_def BITMAP_SIZE_def)
  ultimately show ?thesis using allocate_free_restores by blast
qed

text \<open>
  C25. \<open>alloc_phy_addr\<close> is all or nothing on the frames of the bitmap: when one of the
  frames is taken it returns \<open>None\<close> and changes nothing, and otherwise it marks exactly the
  \<open>n\<close> frames from the address on.
\<close>

theorem alloc_phy_addr_all_or_nothing:
  assumes "phys_inv s" and "i + n \<le> BITMAP_SIZE" and "i < BITMAP_SIZE"
  shows "alloc_phy_addr s (frame_of s i) n =
    (if \<exists>k<n. frame_of s (i + k) \<in> used_frames s then Inr (None, s)
     else Inr (Some (frame_of s i), s\<lparr>bitmap := \<lambda>j. bitmap s j \<or> i \<le> j \<and> j < i + n\<rparr>))"
proof -
  have "(\<exists>k<n. bitmap s (i + k)) \<longleftrightarrow> (\<exists>k<n. frame_of s (i + k) \<in> used_frames s)"
    using assms by (auto simp: used_frames_iff)
  moreover have "(\<exists>k<n. j = i + k) \<longleftrightarrow> i \<le> j \<and> j < i + n" for j by (auto simp: le_iff_add)
  ultimately show ?thesis using alloc_phy_addr_frame_of [OF assms(1,3,2)] by simp
qed

theorem alloc_phy_addr_all_or_nothing_witness:
  "\<exists>s'. alloc_phy_addr (init_phys (PhyAddr 0)) (PhyAddr 0x5000) 2 = Inr (Some (PhyAddr 0x5000), s') \<and>
     bitmap s' 6 \<and> \<not> bitmap s' 7"
proof -
  let ?s = "init_phys (PhyAddr 0)"
  have f: "frame_of ?s 5 = PhyAddr 0x5000" by (simp add: frame_of_def init_phys_def)
  have "phys_inv ?s" "5 + 2 \<le> BITMAP_SIZE" "5 < BITMAP_SIZE"
    by (simp_all add: phys_inv_def init_phys_def BITMAP_SIZE_def)
  from alloc_phy_addr_all_or_nothing [OF this] show ?thesis
    by (simp add: f used_frames_def) (simp add: init_phys_def)
qed

text \<open>
  When every frame is taken the allocator reports no failure: it hands out the physical
  address 0 and stays as it is.
\<close>

lemma allocate_frame_exhausted:
  assumes "used_frames s = frames_of s" and "phys_inv s"
  shows "allocate_frame s = Inr (PhyAddr 0, s)"
proof -
  have "bitmap s i" if "i < BITMAP_SIZE" for i
    using assms that used_frames_iff [OF assms(2) that] by (simp add: frames_of_def)
  then have "find_clear (bitmap s) 0 = None" by (simp add: find_clear_None)
  then show ?thesis by (simp add: allocate_frame_def)
qed

text \<open>
  The limit of the usable area plays no part in allocation: with a usable area of one
  frame that is taken, the allocator hands out the frame behind the area.
\<close>

lemma allocate_frame_past_limit:
  "allocate_frame \<lparr>bitmap = (\<lambda>i. i = 0), offset = PhyAddr 0x100000, limit = 0x1000\<rparr> =
     Inr (PhyAddr 0x101000, \<lparr>bitmap = (\<lambda>i. i = 0 \<or> i = 1), offset = PhyAddr 0x100000, limit = 0x1000\<rparr>)"
proof -
  have f: "find_clear (\<lambda>i. i = 0) 0 = Some 1"
    by (simp add: find_clear_Some BITMAP_SIZE_def)
  show ?thesis by (simp add: allocate_frame_def f run_simps fun_eq_iff)
qed

text \<open>
  Alignment of physical addresses: rounding down gives the greatest multiple below the
  address and rounding up the least one above it, whenever the sum does not overflow.
\<close>

lemma align_bounds:
  assumes "0 < n" and "n < 2 ^ 64" and "unat a + n \<le> 2 ^ 64"
  shows "\<exists>d u. align_down (PhyAddr a) n = Inr (PhyAddr d) \<and> align_up (PhyAddr a) n = Inr (PhyAddr u) \<and>
    n dvd unat d \<and> unat d \<le> unat a \<and> unat a < unat d + n \<and>
    n dvd unat u \<and> unat a \<le> unat u \<and> unat u < unat a + n"
proof -
  define d where "d = unat a - unat a mod n"
  define u where "u = (unat a + (n - 1)) div n * n"
  have "unat a mod n \<le> unat a" "unat a mod n < n" using assms(1) by simp_all
  then have d: "d \<le> unat a" "unat a < d + n" unfolding d_def by linarith+
  have "u = (if unat a mod n = 0 then unat a else d + n)"
    unfolding u_def d_def by (rule round_up_div [OF assms(1)])
  then have u: "unat a \<le> u" "u < unat a + n" using d assms(1) by (auto simp: d_def)
  have dv: "n dvd d" "n dvd u" by (simp_all add: d_def u_def dvd_minus_mod)
  have un: "unat (of_nat d :: u64) = d" "unat (of_nat u :: u64) = u"
    using d u assms(3) by (simp_all add: unat_of_nat)
  show ?thesis
    using align_down_eq [OF assms(1,2), of a, folded d_def] align_up_eq [OF assms, folded u_def] d u dv
    by (intro exI [of _ "of_nat d"] exI [of _ "of_nat u"]) (simp add: un)
qed

end
