(* ===== verification/Paging.thy ===== *)
theory Paging
  imports Phys_Memory
begin

text \<open>
  Page tables: \<open>src/memory/paging.rs\<close>.

  \<^item> Page table entries and their flags, pages and their four indices, the page iterator.
  \<^item> The four-level walk \<open>page_entry\<close>, \<open>page_entry_mut\<close>, \<open>is_present\<close>, the mapping operation
    \<open>map_page_unchecked\<close> and the search \<open>find_free_pages\<close>.

  The tables live in memory and are reached through the direct map, so they are an
  explicit store: \<open>tables m v\<close> is the table at the virtual address \<open>v\<close>, a function from the
  indices \<open>0 \<dots> 511\<close>. \<open>map_page_unchecked\<close> is generic in the physical allocator, as in the
  source: it takes \<open>allocate_frame\<close> as an argument.
\<close>

section \<open>Page table entries\<close>

type_synonym page_table_entry_flags = u64

definition PRESENT :: page_table_entry_flags where "PRESENT = 1"
definition WRITABLE :: page_table_entry_flags where "WRITABLE = 2"
definition USER_ALLOWED :: page_table_entry_flags where "USER_ALLOWED = 4"
definition CACHE_WRITE_THROUGH :: page_table_entry_flags where "CACHE_WRITE_THROUGH = 8"
definition NO_CACHE :: page_table_entry_flags where "NO_CACHE = 16"
definition ACCESSED :: page_table_entry_flags where "ACCESSED = 32"
definition DIRTY :: page_table_entry_flags where "DIRTY = 64"
definition HUGE_PAGE :: page_table_entry_flags where "HUGE_PAGE = 128"
definition GLOBAL :: page_table_entry_flags where "GLOBAL = 256"
definition NO_EXECUTE :: page_table_entry_flags where "NO_EXECUTE = push_bit 63 1"

lemmas flag_defs = PRESENT_def WRITABLE_def USER_ALLOWED_def CACHE_WRITE_THROUGH_def
  NO_CACHE_def ACCESSED_def DIRTY_def HUGE_PAGE_def GLOBAL_def NO_EXECUTE_def

definition contains :: "page_table_entry_flags \<Rightarrow> page_table_entry_flags \<Rightarrow> bool" where
  "contains fl other \<longleftrightarrow> fl AND other = other"

datatype page_table_entry = PageTableEntry (entry: u64)

definition pte_default :: page_table_entry where
  "pte_default = PageTableEntry 0"

definition physical_address_mask :: u64 where
  "physical_address_mask = 0x000ffffffffff000"

definition addr :: "page_table_entry \<Rightarrow> phy_addr" where
  "addr e = PhyAddr (entry e AND physical_address_mask)"

definition set_flags :: "page_table_entry \<Rightarrow> page_table_entry_flags \<Rightarrow> page_table_entry" where
  "set_flags e fl = PageTableEntry (phy_u64 (addr e) OR fl)"

abbreviation PAGE_SIZE :: u64 where
  "PAGE_SIZE \<equiv> 4096"

text \<open>\<open>set_addr\<close> overwrites the whole entry, so its previous value is not an argument.\<close>

definition set_addr :: "phy_addr \<Rightarrow> page_table_entry_flags \<Rightarrow> page_table_entry run" where
  "set_addr a fl =
     bnd (assert_that (phy_u64 a mod PAGE_SIZE = 0)) (\<lambda>_. Inr (PageTableEntry (phy_u64 a OR fl)))"

definition flags :: "page_table_entry \<Rightarrow> page_table_entry_flags" where
  "flags e = entry e AND NOT physical_address_mask"

definition present :: "page_table_entry \<Rightarrow> bool" where
  "present e \<longleftrightarrow> contains (flags e) PRESENT"

section \<open>Pages\<close>

abbreviation PAGE_TABLE_ENTRY_NUM :: nat where
  "PAGE_TABLE_ENTRY_NUM \<equiv> 512"

datatype page = Page (num: u64)

text \<open>\<open>derive(PartialOrd)\<close>: pages are ordered by their number.\<close>

instantiation page :: linorder
begin

definition less_eq_page :: "page \<Rightarrow> page \<Rightarrow> bool" where
  "p \<le> q \<longleftrightarrow> num p \<le> num q"

definition less_page :: "page \<Rightarrow> page \<Rightarrow> bool" where
  "p < q \<longleftrightarrow> num p < num q"

instance
  by standard (auto simp: less_eq_page_def less_page_def page.expand)

end

definition is_valid :: "virt_addr \<Rightarrow> bool" where
  "is_valid v = (let last_16_bits = drop_bit 48 (virt_u64 v)
                 in last_16_bits = 0xffff \<or> last_16_bits = 0)"

definition page_from :: "virt_addr \<Rightarrow> page run" where
  "page_from v = bnd (assert_that (is_valid v)) (\<lambda>_. Inr (Page (virt_u64 v div PAGE_SIZE)))"

definition virt_from :: "page \<Rightarrow> virt_addr run" where
  "virt_from p = bnd (chk_mul (num p) PAGE_SIZE) (\<lambda>v. Inr (VirtAddr v))"

definition CANOINCAL_MASK :: u64 where
  "CANOINCAL_MASK = 0xfffffffff"

definition MAX_PAGE_CANOINCAL_NUM :: nat where
  "MAX_PAGE_CANOINCAL_NUM =
     PAGE_TABLE_ENTRY_NUM * PAGE_TABLE_ENTRY_NUM * PAGE_TABLE_ENTRY_NUM * PAGE_TABLE_ENTRY_NUM"

definition canonical_num :: "page \<Rightarrow> nat" where
  "canonical_num p = unat (num p AND CANOINCAL_MASK)"

definition page_new :: "u64 \<Rightarrow> page run" where
  "page_new n =
     (let this = Page n
      in bnd (assert_that (canonical_num this < MAX_PAGE_CANOINCAL_NUM)) (\<lambda>_. Inr this))"

definition level4_idx :: "page \<Rightarrow> nat" where
  "level4_idx p =
     canonical_num p div (PAGE_TABLE_ENTRY_NUM * PAGE_TABLE_ENTRY_NUM * PAGE_TABLE_ENTRY_NUM)"

definition level3_idx :: "page \<Rightarrow> nat" where
  "level3_idx p =
     (canonical_num p div (PAGE_TABLE_ENTRY_NUM * PAGE_TABLE_ENTRY_NUM)) mod PAGE_TABLE_ENTRY_NUM"

definition level2_idx :: "page \<Rightarrow> nat" where
  "level2_idx p = (canonical_num p div PAGE_TABLE_ENTRY_NUM) mod PAGE_TABLE_ENTRY_NUM"

definition level1_idx :: "page \<Rightarrow> nat" where
  "level1_idx p = canonical_num p mod PAGE_TABLE_ENTRY_NUM"

definition next_by :: "page \<Rightarrow> u64 \<Rightarrow> page option run" where
  "next_by p n =
     bnd (usize_add (canonical_num p) (unat n)) (\<lambda>c.
     if c < MAX_PAGE_CANOINCAL_NUM
     then bnd (chk_add (num p) n) (\<lambda>k. Inr (Some (Page k)))
     else Inr None)"

definition page_next :: "page \<Rightarrow> page option run" where
  "page_next p = next_by p 1"

section \<open>The page iterator\<close>

record page_iter =
  iter_start :: page
  iter_end :: page

definition page_iter_first :: "page_iter \<Rightarrow> page" where
  "page_iter_first it = iter_start it"

definition last_page :: "page_iter \<Rightarrow> page" where
  "last_page it = iter_end it"

definition page_iter_next :: "page_iter \<Rightarrow> (page option \<times> page_iter) run" where
  "page_iter_next it =
     (if iter_start it \<le> iter_end it
      then let out = iter_start it
           in bnd (page_next (iter_start it)) (\<lambda>n.
              bnd (unwrap n) (\<lambda>q. Inr (Some out, it\<lparr>iter_start := q\<rparr>)))
      else Inr (None, it))"

lemma page_next_Some:
  assumes "page_next p = Inr (Some q)"
  shows "unat (num q) = unat (num p) + 1"
proof -
  have "chk_add (num p) 1 = Inr (num q)"
    using assms by (auto simp: page_next_def next_by_def bnd_eq_Inr_iff split: if_splits)
  then show ?thesis by (drule_tac unat_chk_add) simp
qed

lemma page_iter_next_less:
  assumes "page_iter_next it = Inr (Some p, it')"
  shows "unat (num (iter_end it')) + 1 - unat (num (iter_start it'))
    < unat (num (iter_end it)) + 1 - unat (num (iter_start it))"
  using assms
  by (auto simp: page_iter_next_def bnd_eq_Inr_iff Let_def less_eq_page_def word_le_nat_alt
      dest!: page_next_Some split: if_splits)

text \<open>A loop \<open>for page in it { body }\<close>: each round asks the iterator before it runs the body.\<close>

function for_pages :: "page_iter \<Rightarrow> (page \<Rightarrow> 's \<Rightarrow> 's run) \<Rightarrow> 's \<Rightarrow> 's run" where
  "for_pages it body s =
     bnd (page_iter_next it) (\<lambda>r.
     case r of
       (None, _) \<Rightarrow> Inr s
     | (Some p, it') \<Rightarrow> bnd (body p s) (\<lambda>s'. for_pages it' body s'))"
  by pat_completeness auto
termination
  by (relation "measure (\<lambda>(it, body, s). unat (num (iter_end it)) + 1 - unat (num (iter_start it)))")
     (auto dest!: page_iter_next_less)

declare for_pages.simps [simp del]

section \<open>The machine: tables in memory\<close>

text \<open>
  \<open>hhdm\<close> is the offset of the direct map and \<open>cr3\<close> the register that holds the root table;
  \<open>invalidated\<close> records the \<open>invlpg\<close> instructions and \<open>stores\<close> the bytes that are written
  through a mapping, in order.
\<close>

record machine =
  hhdm :: u64
  cr3 :: u64
  tables :: "u64 \<Rightarrow> nat \<Rightarrow> page_table_entry"
  invalidated :: "u64 list"
  stores :: "(u64 \<times> u8) list"

definition get_entry :: "machine \<Rightarrow> u64 \<Rightarrow> nat \<Rightarrow> page_table_entry run" where
  "get_entry m t i = (if i < PAGE_TABLE_ENTRY_NUM then Inr (tables m t i) else Inl IndexOutOfBounds)"

definition put_entry :: "machine \<Rightarrow> u64 \<Rightarrow> nat \<Rightarrow> page_table_entry \<Rightarrow> machine" where
  "put_entry m t i e = m\<lparr>tables := (tables m)(t := (tables m t)(i := e))\<rparr>"

definition clear_all_entries :: "machine \<Rightarrow> u64 \<Rightarrow> machine" where
  "clear_all_entries m t =
     m\<lparr>tables := (tables m)(t := (\<lambda>i. if i < PAGE_TABLE_ENTRY_NUM then PageTableEntry 0
                                     else tables m t i))\<rparr>"

text \<open>\<open>ptr.as_ref().unwrap()\<close> and \<open>ptr.as_mut().unwrap()\<close>: a null pointer panics.\<close>

definition deref :: "virt_addr \<Rightarrow> u64 run" where
  "deref v = (if virt_u64 v = 0 then Inl UnwrapNone else Inr (virt_u64 v))"

definition as_page_table :: "machine \<Rightarrow> page_table_entry \<Rightarrow> u64 run" where
  "as_page_table m e =
     bnd (assert_that (present e)) (\<lambda>_. bnd (as_virtual (hhdm m) (addr e)) deref)"

definition as_page_table_mut :: "machine \<Rightarrow> page_table_entry \<Rightarrow> u64 run" where
  "as_page_table_mut m e = bnd (as_virtual (hhdm m) (addr e)) deref"

definition current :: "machine \<Rightarrow> u64 run" where
  "current m = bnd (as_virtual (hhdm m) (PhyAddr (cr3 m))) deref"

datatype page_entry_error = HugePage | PageTableLevelIsNotPresent nat

definition page_entry ::
  "machine \<Rightarrow> u64 \<Rightarrow> page \<Rightarrow> (page_entry_error + page_table_entry) run" where
  "page_entry m t p =
     bnd (get_entry m t (level4_idx p)) (\<lambda>e4.
     if present e4 then
       bnd (as_page_table m e4) (\<lambda>t3.
       bnd (get_entry m t3 (level3_idx p)) (\<lambda>e3.
       if present e3 then
         bnd (as_page_table m e3) (\<lambda>t2.
         bnd (get_entry m t2 (level2_idx p)) (\<lambda>e2.
         if contains (flags e2) HUGE_PAGE then Inr (Inl HugePage)
         else if present e2 then
           bnd (as_page_table m e2) (\<lambda>t1.
           bnd (get_entry m t1 (level1_idx p)) (\<lambda>e1. Inr (Inr e1)))
         else Inr (Inl (PageTableLevelIsNotPresent 2))))
       else Inr (Inl (PageTableLevelIsNotPresent 3))))
     else Inr (Inl (PageTableLevelIsNotPresent 4)))"

text \<open>\<open>page_entry_mut\<close> returns the place of the entry: its table and its index.\<close>

definition page_entry_mut :: "machine \<Rightarrow> u64 \<Rightarrow> page \<Rightarrow> (u64 \<times> nat) option run" where
  "page_entry_mut m t p =
     bnd (get_entry m t (level4_idx p)) (\<lambda>e4.
     if present e4 then
       bnd (as_page_table_mut m e4) (\<lambda>t3.
       bnd (get_entry m t3 (level3_idx p)) (\<lambda>e3.
       if present e3 then
         bnd (as_page_table_mut m e3) (\<lambda>t2.
         bnd (get_entry m t2 (level2_idx p)) (\<lambda>e2.
         if present e2 then
           bnd (as_page_table_mut m e2) (\<lambda>t1.
           bnd (get_entry m t1 (level1_idx p)) (\<lambda>_. Inr (Some (t1, level1_idx p))))
         else Inr None))
       else Inr None))
     else Inr None)"

definition is_present :: "machine \<Rightarrow> u64 \<Rightarrow> page \<Rightarrow> bool run" where
  "is_present m t p =
     bnd (page_entry m t p) (\<lambda>r.
     case r of
       Inr e \<Rightarrow> Inr (present e)
     | Inl HugePage \<Rightarrow> Inr True
     | Inl (PageTableLevelIsNotPresent _) \<Rightarrow> Inr False)"

text \<open>
  One level of \<open>map_page_unchecked\<close>, which the source writes out three times: make sure
  that the entry \<open>i\<close> of the table \<open>t\<close> refers to a table, and go to that table.
\<close>

definition descend ::
  "('s \<Rightarrow> (phy_addr \<times> 's) run) \<Rightarrow> page_table_entry_flags \<Rightarrow> u64 \<Rightarrow> nat \<Rightarrow> machine \<times> 's
     \<Rightarrow> (u64 \<times> machine \<times> 's) run" where
  "descend alloc fl t i ms =
     (case ms of (m, s) \<Rightarrow>
     bnd (get_entry m t i) (\<lambda>e.
     bnd (if \<not> present e then
            bnd (alloc s) (\<lambda>(frame, s').
            bnd (set_addr frame fl) (\<lambda>e'.
            bnd (as_page_table_mut m e') (\<lambda>c.
            Inr (e', clear_all_entries (put_entry m t i e') c, s'))))
          else Inr (e, m, s)) (\<lambda>(e, m, s).
     bnd (as_page_table_mut m e) (\<lambda>c. Inr (c, m, s)))))"

definition map_page_unchecked ::
  "('s \<Rightarrow> (phy_addr \<times> 's) run) \<Rightarrow> u64 \<Rightarrow> page \<Rightarrow> phy_addr \<Rightarrow> page_table_entry_flags
     \<Rightarrow> machine \<times> 's \<Rightarrow> (machine \<times> 's) run" where
  "map_page_unchecked alloc t p a fl ms =
     bnd (assert_that (phy_u64 a mod PAGE_SIZE = 0)) (\<lambda>_.
     bnd (descend alloc fl t (level4_idx p) ms) (\<lambda>(t3, ms).
     bnd (descend alloc fl t3 (level3_idx p) ms) (\<lambda>(t2, ms).
     bnd (descend alloc fl t2 (level2_idx p) ms) (\<lambda>(t1, ms).
     bnd (get_entry (fst ms) t1 (level1_idx p)) (\<lambda>_.
     bnd (set_addr a fl) (\<lambda>e.
     Inr (put_entry (fst ms) t1 (level1_idx p) e, snd ms)))))))"

section \<open>Searching free pages\<close>

lemma canonical_num_eq: "canonical_num p = unat (num p) mod 2 ^ 36"
proof -
  have "CANOINCAL_MASK = mask 36" by (simp add: CANOINCAL_MASK_def mask_eq_exp_minus_1)
  then have "num p AND CANOINCAL_MASK = take_bit 36 (num p)" by (simp add: take_bit_eq_mask)
  then show ?thesis by (simp add: canonical_num_def take_bit_eq_mod unat_mod)
qed

lemma MAX_eq: "MAX_PAGE_CANOINCAL_NUM = 2 ^ 36"
  by (simp add: MAX_PAGE_CANOINCAL_NUM_def)

lemma canonical_num_less [simp]: "canonical_num p < MAX_PAGE_CANOINCAL_NUM"
  by (simp add: canonical_num_eq MAX_eq)

lemma next_by_Some:
  assumes "next_by p n = Inr (Some q)"
  shows "num q = num p + n" and "unat (num q) = unat (num p) + unat n"
    and "canonical_num q = canonical_num p + unat n"
proof -
  have lt: "canonical_num p + unat n < MAX_PAGE_CANOINCAL_NUM" and add: "chk_add (num p) n = Inr (num q)"
    using assms by (auto simp: next_by_def bnd_eq_Inr_iff split: if_splits)
  show "num q = num p + n" using add by (simp add: chk_add_eq_Inr_iff)
  show u: "unat (num q) = unat (num p) + unat n" by (rule unat_chk_add [OF add])
  have "(unat (num p) + unat n) mod 2 ^ 36 = (unat (num p) mod 2 ^ 36 + unat n) mod 2 ^ 36"
    by (rule mod_add_left_eq [symmetric])
  with lt show "canonical_num q = canonical_num p + unat n"
    by (simp add: canonical_num_eq MAX_eq u)
qed

lemma next_by_None: "next_by p n = Inr None \<Longrightarrow> MAX_PAGE_CANOINCAL_NUM \<le> canonical_num p + unat n"
  by (auto simp: next_by_def bnd_eq_Inr_iff split: if_splits)

text \<open>The loop of \<open>find_free_pages\<close> on \<open>first_page\<close>, \<open>free_page_count\<close> and \<open>page\<close>.\<close>

function find_free_loop ::
  "machine \<Rightarrow> u64 \<Rightarrow> nat \<Rightarrow> page \<Rightarrow> nat \<Rightarrow> page \<Rightarrow> (page \<times> nat \<times> page) run" where
  "find_free_loop m t num_pages first_page free_page_count p =
     (if free_page_count < num_pages then
        bnd (page_next p) (\<lambda>np.
        case np of
          None \<Rightarrow> Inr (first_page, free_page_count, p)
        | Some next_page \<Rightarrow>
            bnd (is_present m t next_page) (\<lambda>b.
            if \<not> b then
              find_free_loop m t num_pages
                (if free_page_count = 0 then next_page else first_page)
                (free_page_count + 1) next_page
            else find_free_loop m t num_pages first_page 0 next_page))
      else Inr (first_page, free_page_count, p))"
  by pat_completeness auto
termination
proof (relation "measure (\<lambda>(m, t, n, f, c, p). MAX_PAGE_CANOINCAL_NUM - canonical_num p)")
  have less: "MAX_PAGE_CANOINCAL_NUM - canonical_num q < MAX_PAGE_CANOINCAL_NUM - canonical_num p"
    if "page_next p = Inr (Some q)" for p q
    using next_by_Some(3) [of p 1 q] that by (simp add: page_next_def diff_less_mono2)
  show "((m, t, n, if c = 0 then q else f, c + 1, q), m, t, n, f, c, p)
      \<in> measure (\<lambda>(m, t, n, f, c, p). MAX_PAGE_CANOINCAL_NUM - canonical_num p)"
    if "page_next p = Inr np" "np = Some q" for m t n f c p np q
    using that less by simp
  show "((m, t, n, f, 0, q), m, t, n, f, c, p)
      \<in> measure (\<lambda>(m, t, n, f, c, p). MAX_PAGE_CANOINCAL_NUM - canonical_num p)"
    if "page_next p = Inr np" "np = Some q" for m t n f c p np q
    using that less by simp
qed simp

declare find_free_loop.simps [simp del]

definition find_free_pages :: "machine \<Rightarrow> u64 \<Rightarrow> page \<Rightarrow> nat \<Rightarrow> page_iter option run" where
  "find_free_pages m t start_page num_pages =
     bnd (is_present m t start_page) (\<lambda>b.
     bnd (find_free_loop m t num_pages start_page (if b then 0 else 1) start_page)
       (\<lambda>(first_page, free_page_count, p).
     if free_page_count = num_pages
     then Inr (Some \<lparr>iter_start = first_page, iter_end = p\<rparr>)
     else Inr None))"

section \<open>Facts about entries\<close>

definition flags_ok :: "page_table_entry_flags \<Rightarrow> bool" where
  "flags_ok fl \<longleftrightarrow> fl AND physical_address_mask = 0"

lemma physical_address_mask_eq: "physical_address_mask = push_bit 12 (mask 40)"
  by (simp add: physical_address_mask_def push_bit_eq_mult mask_eq_exp_minus_1)

lemma bit_physical_address_mask: "bit physical_address_mask n \<longleftrightarrow> 12 \<le> n \<and> n < 52"
  by (auto simp: physical_address_mask_eq bit_push_bit_iff bit_mask_iff)

lemma frame_ok_mask: "frame_ok a \<longleftrightarrow> phy_u64 a AND physical_address_mask = phy_u64 a"
proof -
  let ?w = "phy_u64 a"
  have d: "4096 dvd unat ?w \<longleftrightarrow> take_bit 12 ?w = 0"
    by (simp add: take_bit_eq_mod flip: frame_aligned_iff)
  have l: "unat ?w < 2 ^ 52 \<longleftrightarrow> take_bit 52 ?w = ?w"
    by (simp add: take_bit_eq_mod word_unat_eq_iff unat_mod)
       (metis mod_less mod_less_divisor zero_less_numeral)
  have len: "n < 64" if "bit ?w n" for n
    using bit_imp_le_length [OF that] by simp
  have "frame_ok a \<longleftrightarrow> (\<forall>n. bit ?w n \<longrightarrow> 12 \<le> n \<and> n < 52)"
    unfolding frame_ok_def d l using len
    by (auto simp: bit_eq_iff bit_take_bit_iff) (meson linorder_not_less)+
  also have "\<dots> \<longleftrightarrow> ?w AND physical_address_mask = ?w"
    using len by (auto simp: bit_eq_iff bit_and_iff bit_physical_address_mask)
  finally show ?thesis .
qed

lemma frame_ok_addr [simp]: "frame_ok (addr e)"
  by (simp add: frame_ok_mask addr_def and.assoc)

lemma set_addr_eq:
  assumes "frame_ok a"
  shows "set_addr a fl = Inr (PageTableEntry (phy_u64 a OR fl))"
  using assms by (simp add: set_addr_def frame_aligned_iff frame_ok_def)

lemma addr_set_addr:
  assumes "frame_ok a" and "flags_ok fl"
  shows "addr (PageTableEntry (phy_u64 a OR fl)) = a"
  using assms by (simp add: addr_def bit.conj_disj_distrib2 frame_ok_mask flags_ok_def)

lemma flags_set_addr:
  assumes "frame_ok a" and "flags_ok fl"
  shows "flags (PageTableEntry (phy_u64 a OR fl)) = fl"
  using assms unfolding flags_def frame_ok_mask flags_ok_def
  by (auto simp: bit_eq_iff bit_and_iff bit_or_iff bit_not_iff) 

lemma not_present_0 [simp]: "\<not> present (PageTableEntry 0)"
  by (simp add: present_def flags_def contains_def PRESENT_def)

lemma not_huge_0 [simp]: "\<not> contains (flags (PageTableEntry 0)) HUGE_PAGE"
  by (simp add: flags_def contains_def HUGE_PAGE_def)


section \<open>Facts about pages\<close>

lemma level_idx_less [simp]:
  "level4_idx p < 512" "level3_idx p < 512" "level2_idx p < 512" "level1_idx p < 512"
  using canonical_num_less [of p]
  by (simp_all add: level4_idx_def level3_idx_def level2_idx_def level1_idx_def
      MAX_PAGE_CANOINCAL_NUM_def less_mult_imp_div_less del: canonical_num_less)

lemma canonical_num_levels:
  "canonical_num p = ((level4_idx p * 512 + level3_idx p) * 512 + level2_idx p) * 512 + level1_idx p"
proof -
  let ?c = "canonical_num p"
  have "?c div 512 div 512 div 512 = level4_idx p"
    by (simp add: level4_idx_def flip: div_mult2_eq)
  moreover have "?c div 512 div 512 mod 512 = level3_idx p"
    by (simp add: level3_idx_def flip: div_mult2_eq)
  moreover have "?c div 512 mod 512 = level2_idx p" "?c mod 512 = level1_idx p"
    by (simp_all add: level2_idx_def level1_idx_def)
  ultimately show ?thesis by (metis div_mult_mod_eq)
qed

lemma same_levels_iff:
  "level4_idx p = level4_idx q \<and> level3_idx p = level3_idx q \<and> level2_idx p = level2_idx q \<and>
     level1_idx p = level1_idx q \<longleftrightarrow> canonical_num p = canonical_num q"
  by (metis canonical_num_levels level4_idx_def level3_idx_def level2_idx_def level1_idx_def)

lemma is_valid_iff:
  "is_valid v \<longleftrightarrow> unat (virt_u64 v) < 2 ^ 48 \<or> 2 ^ 64 - 2 ^ 48 \<le> unat (virt_u64 v)"
proof -
  have "drop_bit 48 (virt_u64 v) = 0 \<longleftrightarrow> unat (virt_u64 v) div 2 ^ 48 = 0"
    by (simp add: drop_bit_eq_div word_unat_eq_iff unat_div)
  moreover have "drop_bit 48 (virt_u64 v) = 0xffff \<longleftrightarrow> unat (virt_u64 v) div 2 ^ 48 = 65535"
    by (simp add: drop_bit_eq_div word_unat_eq_iff unat_div)
  moreover have "unat (virt_u64 v) div 2 ^ 48 = 65535 \<longleftrightarrow> 2 ^ 64 - 2 ^ 48 \<le> unat (virt_u64 v)"
    by (auto intro!: div_nat_eqI)
  ultimately show ?thesis unfolding is_valid_def Let_def by (simp add: div_eq_0_iff disj_commute)
qed

lemma page_from_eq:
  assumes "is_valid v"
  shows "page_from v = Inr (Page (virt_u64 v div PAGE_SIZE))"
  using assms by (simp add: page_from_def)

lemma virt_from_eq:
  assumes "unat (num p) < 2 ^ 52"
  shows "virt_from p = Inr (VirtAddr (num p * PAGE_SIZE))"
  using assms by (simp add: virt_from_def run_simps)

lemma unat_virt_from: "virt_from p = Inr v \<Longrightarrow> unat (virt_u64 v) = unat (num p) * 4096"
  by (auto simp: virt_from_def bnd_eq_Inr_iff dest!: unat_chk_mul)

section \<open>Properties\<close>

text \<open>
  A page table entry keeps what is stored in it: the address of any frame below \<open>2 ^ 52\<close>
  and any set of flags outside the address bits are read back exactly, and an address that is
  not aligned is refused.
\<close>

lemma entry_roundtrip:
  assumes "flags_ok fl" and "unat (phy_u64 a) < 2 ^ 52"
  shows "if 4096 dvd unat (phy_u64 a) then \<exists>e. set_addr a fl = Inr e \<and> addr e = a \<and> flags e = fl
    else set_addr a fl = Inl AssertFailed"
proof (cases "4096 dvd unat (phy_u64 a)")
  case True
  then have "frame_ok a" using assms(2) by (simp add: frame_ok_def)
  then show ?thesis using assms(1) True by (simp add: set_addr_eq addr_set_addr flags_set_addr)
next
  case False
  then show ?thesis by (simp add: set_addr_def frame_aligned_iff)
qed

text \<open>
  The four indices of a page are digits in base 512 of its canonical number: they are
  within the tables, they determine the number, and so two pages share all tables and the
  entry exactly when their canonical numbers agree.
\<close>

lemma level_indices:
  "level4_idx p < 512 \<and> level3_idx p < 512 \<and> level2_idx p < 512 \<and> level1_idx p < 512 \<and>
   canonical_num p = ((level4_idx p * 512 + level3_idx p) * 512 + level2_idx p) * 512 + level1_idx p \<and>
   (map (\<lambda>f. f p) [level4_idx, level3_idx, level2_idx, level1_idx] =
    map (\<lambda>f. f q) [level4_idx, level3_idx, level2_idx, level1_idx] \<longleftrightarrow> canonical_num p = canonical_num q)"
  using canonical_num_levels [of p] same_levels_iff [of p q] by simp

text \<open>
  From an address to its page and back: every address that the kernel accepts as valid
  lies in the page \<open>Page::from\<close> gives, at its offset within the page.
\<close>

lemma page_of_address:
  assumes "is_valid v"
  shows "\<exists>p b. page_from v = Inr p \<and> virt_from p = Inr b \<and>
    unat (virt_u64 v) = unat (virt_u64 b) + unat (virt_u64 v) mod 4096 \<and> unat (virt_u64 b) = 4096 * unat (num p)"
proof -
  let ?p = "Page (virt_u64 v div PAGE_SIZE)"
  have n: "unat (num ?p) = unat (virt_u64 v) div 4096" by (simp add: unat_div)
  have "unat (virt_u64 v) < 2 ^ 52 * 4096" by simp
  then have "unat (num ?p) < 2 ^ 52" unfolding n by (rule less_mult_imp_div_less)
  then have b: "virt_from ?p = Inr (VirtAddr (num ?p * PAGE_SIZE))" by (rule virt_from_eq)
  have "unat (virt_u64 (VirtAddr (num ?p * PAGE_SIZE))) = unat (num ?p) * 4096" by (rule unat_virt_from [OF b])
  then show ?thesis using page_from_eq [OF assms] b n
    by (intro exI [of _ ?p] exI [of _ "VirtAddr (num ?p * PAGE_SIZE)"]) simp
qed

text \<open>
  The check for canonical addresses looks at bits 48 to 63 only. It accepts addresses
  such as \<open>0x0000800000000000\<close> in which bit 47 differs from the bits above, and the page
  behind the last page of the lower half is reached by \<open>next\<close>.
\<close>

lemma is_valid_accepts_noncanonical:
  "\<exists>q v. page_next (Page (2 ^ 35 - 1)) = Inr (Some q) \<and> virt_from q = Inr v \<and>
     virt_u64 v = 0x800000000000 \<and> is_valid v \<and> bit (virt_u64 v) 47 \<and> \<not> bit (virt_u64 v) 48"
  by (simp add: page_next_def next_by_def canonical_num_eq MAX_eq virt_from_def run_simps is_valid_iff)

end
