(* ===== verification/Page_Tree.thy ===== *)
theory Page_Tree
  imports Paging
begin

text \<open>
  Correctness of the page tables.

  \<^item> The tables reachable from a root form a tree: \<open>table_at\<close> follows a path of indices and
    \<open>tree\<close> says that no table is reached by two paths. \<open>tables_avoid m t F\<close> says that none of
    them lies in a frame of \<open>F\<close> (the frames the allocator may still hand out), and \<open>space_ok\<close>
    collects the invariant.
  \<^item> \<open>view\<close> is the abstract address space, a function from pages to what they are mapped to;
    the walk of the source computes it (\<open>page_entry_view\<close>, \<open>is_present_eq\<close>).
  \<^item> \<open>map_page_spec\<close>, proved once for every allocator that keeps the contract
    \<open>frame_allocator\<close>: mapping a free page is a point update of the view.
  \<^item> \<open>find_free_pages_spec\<close>: the search returns the first free run of pages, and \<open>None\<close>
    only when there is no such run.
\<close>

section \<open>The tree of tables\<close>

text \<open>
  The higher half direct map: physical memory below \<open>2 ^ 47\<close> is visible at \<open>hhdm\<close>, where the
  boot loader puts it at \<open>0xffff800000000000\<close>.
\<close>

definition direct_map_ok :: "machine \<Rightarrow> bool" where
  "direct_map_ok m \<longleftrightarrow> 0 < unat (hhdm m) \<and> unat (hhdm m) + 2 ^ 47 \<le> 2 ^ 64"

definition low_addr :: "page_table_entry \<Rightarrow> bool" where
  "low_addr e \<longleftrightarrow> unat (phy_u64 (addr e)) < 2 ^ 47"

definition table_va :: "machine \<Rightarrow> phy_addr \<Rightarrow> u64" where
  "table_va m f = phy_u64 f + hhdm m"

definition links :: "nat \<Rightarrow> page_table_entry \<Rightarrow> bool" where
  "links lvl e \<longleftrightarrow> present e \<and> (lvl = 2 \<longrightarrow> \<not> contains (flags e) HUGE_PAGE)"

fun table_at :: "machine \<Rightarrow> nat \<Rightarrow> u64 \<Rightarrow> nat list \<Rightarrow> u64 option" where
  "table_at m lvl t [] = Some t"
| "table_at m lvl t (i # is) =
     (if i < 512 \<and> links lvl (tables m t i)
      then table_at m (lvl - 1) (table_va m (addr (tables m t i))) is else None)"

declare table_at.simps(2) [simp del]

definition hhdm_ok :: "machine \<Rightarrow> u64 \<Rightarrow> bool" where
  "hhdm_ok m t \<longleftrightarrow> direct_map_ok m \<and>
     (\<forall>p u i. length p \<le> 2 \<and> i < 512 \<and> table_at m 4 t p = Some u \<and> links (4 - length p) (tables m u i)
        \<longrightarrow> low_addr (tables m u i))"

definition tree :: "machine \<Rightarrow> u64 \<Rightarrow> bool" where
  "tree m t \<longleftrightarrow> (\<forall>p q v. length p \<le> 3 \<and> length q \<le> 3 \<and>
     table_at m 4 t p = Some v \<and> table_at m 4 t q = Some v \<longrightarrow> p = q)"

definition tables_avoid :: "machine \<Rightarrow> u64 \<Rightarrow> phy_addr set \<Rightarrow> bool" where
  "tables_avoid m t F \<longleftrightarrow> (\<forall>p f. length p \<le> 3 \<and> f \<in> F \<longrightarrow> table_at m 4 t p \<noteq> Some (table_va m f))"

definition space_ok :: "machine \<Rightarrow> u64 \<Rightarrow> phy_addr set \<Rightarrow> bool" where
  "space_ok m t F \<longleftrightarrow> hhdm_ok m t \<and> tree m t \<and> tables_avoid m t F"

lemma space_ok_mono: "space_ok m t F \<Longrightarrow> F' \<subseteq> F \<Longrightarrow> space_ok m t F'"
  by (auto simp: space_ok_def tables_avoid_def)

lemma tables_avoid_Un: "tables_avoid m t (F \<union> F') \<longleftrightarrow> tables_avoid m t F \<and> tables_avoid m t F'"
  by (auto simp: tables_avoid_def)

lemma space_ok_Un: "space_ok m t (F \<union> F') \<longleftrightarrow> space_ok m t F \<and> tables_avoid m t F'"
  by (auto simp: space_ok_def tables_avoid_Un)

abbreviation walk :: "page \<Rightarrow> nat list" where
  "walk p \<equiv> [level4_idx p, level3_idx p, level2_idx p]"

datatype mapping_view = Unmapped | HugeMapped | Mapped page_table_entry

definition view :: "machine \<Rightarrow> u64 \<Rightarrow> page \<Rightarrow> mapping_view" where
  "view m t p =
     (case table_at m 4 t (walk p) of
        Some t1 \<Rightarrow> (let e = tables m t1 (level1_idx p) in if present e then Mapped e else Unmapped)
      | None \<Rightarrow>
         (case table_at m 4 t [level4_idx p, level3_idx p] of
            Some t2 \<Rightarrow> if contains (flags (tables m t2 (level2_idx p))) HUGE_PAGE
                       then HugeMapped else Unmapped
          | None \<Rightarrow> Unmapped))"

lemma table_at_snoc:
  "table_at m lvl t (p @ [j]) =
     (case table_at m lvl t p of
        None \<Rightarrow> None
      | Some u \<Rightarrow> if j < 512 \<and> links (lvl - length p) (tables m u j)
                 then Some (table_va m (addr (tables m u j))) else None)"
  by (induction p arbitrary: lvl t) (auto simp: table_at.simps(2) diff_diff_left split: option.splits)

lemma treeD:
  "tree m t \<Longrightarrow> length p \<le> 3 \<Longrightarrow> length q \<le> 3 \<Longrightarrow>
     table_at m 4 t p = Some v \<Longrightarrow> table_at m 4 t q = Some v \<Longrightarrow> p = q"
  by (auto simp: tree_def)

lemma as_page_table_mut_eq:
  assumes "direct_map_ok m" and "low_addr e"
  shows "as_page_table_mut m e = Inr (table_va m (addr e))"
proof -
  let ?a = "phy_u64 (addr e)"
  from assms have lt: "unat ?a + unat (hhdm m) < 2 ^ 64" and pos: "0 < unat (hhdm m)"
    by (simp_all add: direct_map_ok_def low_addr_def)
  then have "unat (?a + hhdm m) \<noteq> 0" by (simp add: unat_word_ariths)
  then have "?a + hhdm m \<noteq> 0" by (metis unat_0)
  with lt show ?thesis
    by (simp add: as_page_table_mut_def as_virtual_def run_simps deref_def table_va_def)
qed

lemma as_page_table_eq:
  "direct_map_ok m \<Longrightarrow> low_addr e \<Longrightarrow> present e \<Longrightarrow> as_page_table m e = Inr (table_va m (addr e))"
  using as_page_table_mut_eq [of m e] by (simp add: as_page_table_def as_page_table_mut_def)

lemma hhdm_okD:
  "hhdm_ok m t \<Longrightarrow> table_at m 4 t p = Some u \<Longrightarrow> length p \<le> 2 \<Longrightarrow> i < 512 \<Longrightarrow>
     links (4 - length p) (tables m u i) \<Longrightarrow> low_addr (tables m u i)"
  by (auto simp: hhdm_ok_def)

text \<open>The entries that a walk follows, level by level.\<close>

lemma walk_low:
  assumes "hhdm_ok m t"
  shows "direct_map_ok m"
    and "i4 < 512 \<Longrightarrow> links 4 (tables m t i4) \<Longrightarrow> low_addr (tables m t i4)"
    and "i4 < 512 \<Longrightarrow> links 4 (tables m t i4) \<Longrightarrow> i3 < 512 \<Longrightarrow> t3 = table_va m (addr (tables m t i4)) \<Longrightarrow>
      links 3 (tables m t3 i3) \<Longrightarrow> low_addr (tables m t3 i3)"
    and "i4 < 512 \<Longrightarrow> links 4 (tables m t i4) \<Longrightarrow> i3 < 512 \<Longrightarrow> t3 = table_va m (addr (tables m t i4)) \<Longrightarrow>
      links 3 (tables m t3 i3) \<Longrightarrow> i2 < 512 \<Longrightarrow> t2 = table_va m (addr (tables m t3 i3)) \<Longrightarrow>
      links 2 (tables m t2 i2) \<Longrightarrow> low_addr (tables m t2 i2)"
  using assms hhdm_okD [OF assms, of "[]" t i4] hhdm_okD [OF assms, of "[i4]" t3 i3]
    hhdm_okD [OF assms, of "[i4, i3]" t2 i2]
  by (simp_all add: hhdm_ok_def table_at.simps(2))

lemma get_entry_eq: "i < 512 \<Longrightarrow> get_entry m t i = Inr (tables m t i)"
  by (simp add: get_entry_def)

text \<open>The walk of the source reads the view.\<close>

definition view_of :: "page_entry_error + page_table_entry \<Rightarrow> mapping_view" where
  "view_of r = (case r of
      Inr e \<Rightarrow> if present e then Mapped e else Unmapped
    | Inl HugePage \<Rightarrow> HugeMapped
    | Inl (PageTableLevelIsNotPresent _) \<Rightarrow> Unmapped)"

lemma page_entry_view:
  assumes "hhdm_ok m t"
  shows "\<exists>r. page_entry m t p = Inr r \<and> view m t p = view_of r"
proof (cases "table_at m 4 t [level4_idx p, level3_idx p]")
  case None
  then show ?thesis using walk_low [OF assms]
    by (auto simp: page_entry_def view_def view_of_def table_at.simps(2) get_entry_eq as_page_table_eq links_def
        split: if_splits)
next
  case (Some t2)
  then show ?thesis using walk_low [OF assms]
    by (auto simp: page_entry_def view_def view_of_def table_at.simps(2) get_entry_eq as_page_table_eq links_def Let_def
        split: if_splits)
qed

lemma is_present_eq:
  assumes "hhdm_ok m t"
  shows "is_present m t p = Inr (view m t p \<noteq> Unmapped)"
proof -
  obtain r where "page_entry m t p = Inr r" "view m t p = view_of r"
    using page_entry_view [OF assms] by blast
  then show ?thesis
    by (cases r) (auto simp: is_present_def view_of_def split: page_entry_error.splits)
qed

lemma page_entry_mut_Mapped:
  assumes "hhdm_ok m t" and "view m t p = Mapped e"
  obtains t1 where "page_entry_mut m t p = Inr (Some (t1, level1_idx p))"
    and "table_at m 4 t (walk p) = Some t1" and "tables m t1 (level1_idx p) = e" and "present e"
  using walk_low [OF assms(1)] assms(2) that
  by (auto simp: page_entry_mut_def view_def table_at.simps(2) get_entry_eq as_page_table_mut_eq links_def Let_def
      split: if_splits option.splits)

lemma view_canonical: "canonical_num p = canonical_num q \<Longrightarrow> view m t p = view m t q"
  using same_levels_iff [of p q] by (auto simp: view_def split: option.splits)

lemma view_UnmappedD:
  assumes "view m t p = Unmapped" and "table_at m 4 t [level4_idx p, level3_idx p] = Some t2"
  shows "\<not> contains (flags (tables m t2 (level2_idx p))) HUGE_PAGE"
  using assms by (auto simp: view_def links_def table_at_snoc [of _ _ _ "[_, _]", simplified] split: if_splits option.splits)


section \<open>Changing the tables\<close>

lemma put_entry_simps [simp]:
  "hhdm (put_entry m t i e) = hhdm m"
  "cr3 (put_entry m t i e) = cr3 m"
  "invalidated (put_entry m t i e) = invalidated m"
  "stores (put_entry m t i e) = stores m"
  "hhdm (clear_all_entries m t) = hhdm m"
  "cr3 (clear_all_entries m t) = cr3 m"
  "invalidated (clear_all_entries m t) = invalidated m"
  "stores (clear_all_entries m t) = stores m"
  by (simp_all add: put_entry_def clear_all_entries_def)

lemma table_va_cong: "hhdm m' = hhdm m \<Longrightarrow> table_va m' f = table_va m f"
  by (simp add: table_va_def)

lemma table_va_inj: "table_va m f = table_va m g \<longleftrightarrow> f = g"
  by (cases f; cases g) (simp add: table_va_def)

text \<open>
  A fresh, cleared table \<open>c\<close> is hung into the tree at the entry \<open>i\<close> of the table reached by
  \<open>p\<close>: exactly the path \<open>p @ [i]\<close> becomes a table, and no page changes its view.
\<close>

lemma table_at_install:
  assumes tree: "tree m t" and p: "table_at m 4 t p = Some v" "length p \<le> 2" and i: "i < 512"
    and absent: "\<not> present (tables m v i)"
    and e: "links (4 - length p) e" "table_va m (addr e) = c"
    and fresh: "\<And>q. length q \<le> 3 \<Longrightarrow> table_at m 4 t q \<noteq> Some c"
    and m': "m' = clear_all_entries (put_entry m v i e) c"
  shows "length q \<le> 3 \<Longrightarrow> table_at m' 4 t q = (if q = p @ [i] then Some c else table_at m 4 t q)"
proof (induction q rule: rev_induct)
  case Nil
  then show ?case by simp
next
  case (snoc j q)
  have vc: "v \<noteq> c" using fresh [of p] p by auto
  have va: "table_va m' f = table_va m f" for f by (simp add: m' table_va_def)
  have IH: "table_at m' 4 t q = (if q = p @ [i] then Some c else table_at m 4 t q)"
    using snoc by simp
  have tabs: "tables m' u = (if u = c then (\<lambda>k. if k < 512 then PageTableEntry 0 else tables m c k)
      else if u = v then (tables m v)(i := e) else tables m u)" for u
    using vc by (auto simp: m' clear_all_entries_def put_entry_def)
  have pi: "table_at m 4 t (p @ [i]) = None"
    using p absent by (simp add: table_at_snoc links_def)
  show ?case
  proof (cases "q = p @ [i]")
    case True
    then show ?thesis using IH pi by (simp add: table_at_snoc [of _ _ _ "p @ [i]", simplified] tabs links_def)
  next
    case False
    show ?thesis
    proof (cases "table_at m 4 t q")
      case None
      then show ?thesis using IH False p by (auto simp: table_at_snoc)
    next
      case (Some u)
      have uc: "u \<noteq> c" using fresh [of q] Some snoc.prems by auto
      have uv: "u = v \<longleftrightarrow> q = p"
        using treeD [OF tree _ _ Some, of p] p Some snoc.prems by auto
      show ?thesis using IH False Some uc uv e i by (auto simp: table_at_snoc tabs va)
    qed
  qed
qed

lemma tree_cong:
  assumes "\<And>q. length q \<le> 3 \<Longrightarrow> table_at m' 4 t q = table_at m 4 t q"
  shows "tree m' t \<longleftrightarrow> tree m t"
  unfolding tree_def using assms by metis

lemma space_install:
  assumes ok: "space_ok m t F" and p: "table_at m 4 t p = Some v" "length p \<le> 2" and i: "i < 512"
    and absent: "\<not> present (tables m v i)"
    and plain: "length p = 2 \<longrightarrow> \<not> contains (flags (tables m v i)) HUGE_PAGE"
    and e: "links (4 - length p) e" "addr e = f" and f: "f \<in> F" "low_addr e"
    and m': "m' = clear_all_entries (put_entry m v i e) (table_va m f)"
  shows "space_ok m' t (F - {f})" and "table_at m' 4 t (p @ [i]) = Some (table_va m f)"
    and "view m' t = view m t"
proof -
  let ?c = "table_va m f"
  have tree: "tree m t" using ok by (simp add: space_ok_def)
  have fresh: "table_at m 4 t q \<noteq> Some ?c" if "length q \<le> 3" for q
    using ok f(1) that by (auto simp: space_ok_def tables_avoid_def)
  have at: "table_at m' 4 t q = (if q = p @ [i] then Some ?c else table_at m 4 t q)"
    if "length q \<le> 3" for q
    by (rule table_at_install [OF tree p i absent e(1) _ fresh m' that]) (simp add: e(2))
  have hh: "hhdm m' = hhdm m" by (simp add: m')
  have va: "table_va m' g = table_va m g" for g by (simp add: table_va_def hh)
  have pi: "table_at m 4 t (p @ [i]) = None"
    using p absent by (simp add: table_at_snoc links_def)
  show "table_at m' 4 t (p @ [i]) = Some ?c" using at [of "p @ [i]"] p(2) by simp
  have "tree m' t"
    unfolding tree_def
  proof (intro allI impI, elim conjE)
    fix a b u
    assume "length a \<le> 3" "length b \<le> 3" "table_at m' 4 t a = Some u" "table_at m' 4 t b = Some u"
    then show "a = b"
      using at [of a] at [of b] fresh [of a] fresh [of b] treeD [OF tree, of a b u]
      by (simp split: if_splits)
  qed
  moreover have "tables_avoid m' t (F - {f})"
    using ok unfolding tables_avoid_def space_ok_def by (auto simp: at va table_va_inj)
  ultimately have sp: "hhdm_ok m' t \<Longrightarrow> space_ok m' t (F - {f})" by (simp add: space_ok_def)
  have vc: "v \<noteq> ?c" using fresh [of p] p by auto
  have tabs: "tables m' u = (if u = ?c then (\<lambda>k. if k < 512 then PageTableEntry 0 else tables m ?c k)
      else if u = v then (tables m v)(i := e) else tables m u)" for u
    using vc by (auto simp: m' clear_all_entries_def put_entry_def)
  have same: "tables m' u j = tables m u j"
    if "table_at m 4 t q = Some u" "length q \<le> 3" "q \<noteq> p \<or> j \<noteq> i" for u q j
    using that fresh treeD [OF tree _ _ that(1), of p] p by (auto simp: tabs)
  have "low_addr (tables m' u j)" if "length q \<le> 2" "j < 512" "table_at m' 4 t q = Some u"
    "links (4 - length q) (tables m' u j)" for q u j
  proof (cases "q = p @ [i] \<or> q = p \<and> j = i")
    case True
    then show ?thesis using that at [of q] f(2) p vc by (auto simp: tabs links_def)
  next
    case False
    then have q: "table_at m 4 t q = Some u" using that at [of q] by simp
    with False have "tables m' u j = tables m u j" using that by (intro same) auto
    then show ?thesis using hhdm_okD [of m t q u j] ok q that by (simp add: space_ok_def)
  qed
  then have "hhdm_ok m' t" using ok by (auto simp: hhdm_ok_def space_ok_def direct_map_ok_def hh)
  then show "space_ok m' t (F - {f})" by (rule sp)
  have "view m' t q = view m t q" for q
  proof (cases "walk q = p @ [i]")
    case True
    then have l: "p = [level4_idx q, level3_idx q]" "i = level2_idx q"
      by (metis append1_eq_conv append_Cons append_Nil)+
    have "table_at m' 4 t (walk q) = Some ?c" unfolding True using at [of "p @ [i]"] p(2) by simp
    then have "view m' t q = Unmapped" by (simp add: view_def tabs)
    moreover have "view m t q = Unmapped"
      using pi p(1) plain unfolding True [symmetric] unfolding l by (simp add: view_def)
    ultimately show ?thesis by simp
  next
    case False
    have w: "table_at m' 4 t (walk q) = table_at m 4 t (walk q)" using at [of "walk q"] False by simp
    have r: "table_at m' 4 t [level4_idx q, level3_idx q] =
        (if [level4_idx q, level3_idx q] = p @ [i] then Some ?c
         else table_at m 4 t [level4_idx q, level3_idx q])"
      by (rule at) simp
    show ?thesis
    proof (cases "table_at m 4 t (walk q)")
      case (Some t1)
      then have "tables m' t1 (level1_idx q) = tables m t1 (level1_idx q)"
        using p(2) by (intro same [of "walk q"]) auto
      then show ?thesis using w Some by (simp add: view_def)
    next
      case None
      have "[level4_idx q, level3_idx q] = p \<Longrightarrow> level2_idx q \<noteq> i" using False by auto
      then have "tables m' t2 (level2_idx q) = tables m t2 (level2_idx q)"
        if "table_at m 4 t [level4_idx q, level3_idx q] = Some t2" for t2
        using that by (intro same [of "[level4_idx q, level3_idx q]"]) auto
      then show ?thesis using w None r pi
        by (auto simp: view_def tabs split: option.splits if_splits)
    qed
  qed
  then show "view m' t = view m t" by auto
qed

text \<open>Writing an entry of a last-level table changes the view of that page only.\<close>

lemma space_put:
  assumes ok: "space_ok m t F" and w: "table_at m 4 t (walk p) = Some t1"
    and m': "m' = put_entry m t1 (level1_idx p) e"
  shows "space_ok m' t F"
    and "view m' t = (\<lambda>q. if canonical_num q = canonical_num p
           then (if present e then Mapped e else Unmapped) else view m t q)"
proof -
  have tree: "tree m t" using ok by (simp add: space_ok_def)
  have hh: "hhdm m' = hhdm m" by (simp add: m')
  have va: "table_va m' g = table_va m g" for g by (simp add: table_va_def hh)
  have tabs: "tables m' u = (if u = t1 then (tables m t1)(level1_idx p := e) else tables m u)" for u
    by (simp add: m' put_entry_def)
  have same: "tables m' u = tables m u" if "table_at m 4 t q = Some u" "length q \<le> 2" for u q
    using treeD [OF tree _ _ that(1), of "walk p"] that w by (auto simp: tabs)
  have at: "length q \<le> 3 \<Longrightarrow> table_at m' 4 t q = table_at m 4 t q" for q
  proof (induction q rule: rev_induct)
    case (snoc j q)
    then show ?case by (auto simp: table_at_snoc va same split: option.splits)
  qed simp
  have "hhdm_ok m' t" using ok by (auto simp: space_ok_def hhdm_ok_def direct_map_ok_def hh at same)
  then show "space_ok m' t F"
    using ok by (auto simp: space_ok_def tables_avoid_def at va intro: tree_cong [THEN iffD2, of m' t m])
  show "view m' t = (\<lambda>q. if canonical_num q = canonical_num p
           then (if present e then Mapped e else Unmapped) else view m t q)"
  proof
    fix q
    show "view m' t q = (if canonical_num q = canonical_num p
           then (if present e then Mapped e else Unmapped) else view m t q)"
    proof (cases "table_at m 4 t (walk q)")
      case (Some t1')
      have "t1' = t1 \<longleftrightarrow> walk q = walk p"
        using treeD [OF tree _ _ Some, of "walk p"] w Some by auto
      then show ?thesis using Some at [of "walk q"] same_levels_iff [of q p]
        by (auto simp: view_def tabs)
    next
      case None
      then have "canonical_num q \<noteq> canonical_num p" using w same_levels_iff [of q p] by auto
      then show ?thesis using None at [of "walk q"] at [of "[level4_idx q, level3_idx q]"]
        by (auto simp: view_def same split: option.splits)
    qed
  qed
qed

section \<open>Mapping a page\<close>

definition table_flags :: "page_table_entry_flags \<Rightarrow> bool" where
  "table_flags fl \<longleftrightarrow> flags_ok fl \<and> contains fl PRESENT \<and> \<not> contains fl HUGE_PAGE"

definition same_regs :: "machine \<Rightarrow> machine \<Rightarrow> bool" where
  "same_regs m m' \<longleftrightarrow> hhdm m' = hhdm m \<and> cr3 m' = cr3 m \<and>
     invalidated m' = invalidated m \<and> stores m' = stores m"

lemma same_regs_refl [simp]: "same_regs m m"
  by (simp add: same_regs_def)

lemma same_regs_trans: "same_regs a b \<Longrightarrow> same_regs b c \<Longrightarrow> same_regs a c"
  by (simp add: same_regs_def)

text \<open>The entries of the top-level table outside \<open>S\<close> stay as they are.\<close>

definition root_kept :: "u64 \<Rightarrow> nat set \<Rightarrow> machine \<Rightarrow> machine \<Rightarrow> bool" where
  "root_kept t S m m' \<longleftrightarrow> (\<forall>j. j \<notin> S \<longrightarrow> tables m' t j = tables m t j)"

lemma root_kept_refl [simp]: "root_kept t S m m"
  by (simp add: root_kept_def)

lemma root_kept_trans: "root_kept t S m m' \<Longrightarrow> root_kept t S' m' m'' \<Longrightarrow> root_kept t (S \<union> S') m m''"
  by (simp add: root_kept_def)

lemma root_kept_put:
  assumes "tree m t" and "table_at m 4 t p = Some v" and "length p \<le> 3" and "p \<noteq> []"
  shows "root_kept t {} m (put_entry m v i e)"
  using treeD [OF assms(1) assms(3), of "[]" t] assms(2,4) by (auto simp: root_kept_def put_entry_def)

lemma links_set_addr:
  "frame_ok f \<Longrightarrow> table_flags fl \<Longrightarrow> links lvl (PageTableEntry (phy_u64 f OR fl))"
  by (simp add: links_def present_def flags_set_addr table_flags_def)

context frame_allocator
begin

lemma descend_spec:
  assumes inv: "inv s" and room: "0 < room s" and ok: "space_ok m t (stock s - used s \<union> G)"
    and G: "G \<inter> stock s \<subseteq> used s" and p: "table_at m 4 t p = Some v" "length p \<le> 2" and i: "i < 512"
    and plain: "length p = 2 \<longrightarrow> \<not> contains (flags (tables m v i)) HUGE_PAGE"
    and fl: "table_flags fl"
  obtains c m' s' where "descend alloc fl v i (m, s) = Inr (c, m', s')"
    and "table_at m' 4 t (p @ [i]) = Some c" and "space_ok m' t (stock s' - used s' \<union> G)"
    and "view m' t = view m t" and "kept 1 s s'" and "same_regs m m'" and "root_kept t (if p = [] then {i} else {}) m m'"
proof (cases "present (tables m v i)")
  case True
  have "links (4 - length p) (tables m v i)" using True plain p(2) by (auto simp: links_def)
  then have lo: "low_addr (tables m v i)"
    using hhdm_okD [OF _ p i] ok by (simp add: space_ok_def)
  have hh: "direct_map_ok m" using ok by (simp add: space_ok_def hhdm_ok_def)
  from True p i plain have at: "table_at m 4 t (p @ [i]) = Some (table_va m (addr (tables m v i)))"
    by (auto simp: table_at_snoc links_def)
  have d: "descend alloc fl v i (m, s) = Inr (table_va m (addr (tables m v i)), m, s)"
    using True i lo by (simp add: descend_def get_entry_eq as_page_table_mut_eq hh)
  show ?thesis by (rule that [OF d at ok refl kept_refl [OF inv]]) simp_all
next
  case False
  obtain f s' where f: "alloc s = Inr (f, s')" "kept 1 s s'" "f \<in> stock s" "f \<notin> used s" "used s' = insert f (used s)"
    using kept_alloc [OF inv room] by blast
  let ?e = "PageTableEntry (phy_u64 f OR fl)"
  let ?m' = "clear_all_entries (put_entry m v i ?e) (table_va m f)"
  have fo: "frame_ok f" by (rule stock_ok [OF inv f(3)])
  have a: "addr ?e = f" using fo fl by (simp add: addr_set_addr table_flags_def)
  have hh: "direct_map_ok m" "direct_map_ok ?m'"
    using ok by (simp_all add: space_ok_def hhdm_ok_def direct_map_ok_def)
  have lo: "low_addr ?e" using stock_low [OF inv f(3)] by (simp add: low_addr_def a)
  have d: "descend alloc fl v i (m, s) = Inr (table_va m f, ?m', s')"
    using False i f(1) fo hh lo a
    by (simp add: descend_def get_entry_eq set_addr_eq as_page_table_mut_eq) (simp add: table_va_def)
  have F: "stock s' - used s' \<union> G = stock s - used s \<union> G - {f}" using f G by (auto simp: kept_def)
  note inst = space_install [OF ok p i False plain links_set_addr [OF fo fl] a _ lo refl]
  have "f \<in> stock s - used s \<union> G" using f by simp
  note inst = inst [OF this, folded F]
  have "table_va m f \<noteq> t" using ok f(3,4) by (force simp: space_ok_def tables_avoid_def dest: spec [of _ "[]"])
  moreover have "v = t \<longleftrightarrow> p = []" using treeD [of m t p "[]" t] ok p by (auto simp: space_ok_def)
  ultimately have "root_kept t (if p = [] then {i} else {}) m ?m'"
    by (auto simp: root_kept_def put_entry_def clear_all_entries_def)
  then show ?thesis by (intro that [OF d inst(2) inst(1) inst(3) f(2)]) (simp_all add: same_regs_def)
qed

lemma map_page_spec:
  assumes inv: "inv s" and room: "3 \<le> room s" and ok: "space_ok m t (stock s - used s \<union> G)"
    and G: "G \<inter> stock s \<subseteq> used s" and free: "view m t p = Unmapped" and a: "frame_ok a" and fl: "table_flags fl"
  obtains m' s' where "map_page_unchecked alloc t p a fl (m, s) = Inr (m', s')"
    and "space_ok m' t (stock s' - used s' \<union> G)"
    and "view m' t = (\<lambda>q. if canonical_num q = canonical_num p
           then Mapped (PageTableEntry (phy_u64 a OR fl)) else view m t q)"
    and "kept 3 s s'" and "same_regs m m'" and "root_kept t {level4_idx p} m m'"
proof -
  have r: "table_at m 4 t [] = Some t" by simp
  obtain t3 m3 s3 where 3: "descend alloc fl t (level4_idx p) (m, s) = Inr (t3, m3, s3)"
      "table_at m3 4 t [level4_idx p] = Some t3" "space_ok m3 t (stock s3 - used s3 \<union> G)"
      "view m3 t = view m t" "kept 1 s s3" "same_regs m m3" "root_kept t {level4_idx p} m m3"
    by (rule descend_spec [OF inv _ ok G r, of "level4_idx p" fl]) (use room fl in auto)
  have k3: "G \<inter> stock s3 \<subseteq> used s3" "inv s3" "2 \<le> room s3" using G 3(5) room unfolding kept_def by auto
  obtain t2 m2 s2 where 2: "descend alloc fl t3 (level3_idx p) (m3, s3) = Inr (t2, m2, s2)"
      "table_at m2 4 t [level4_idx p, level3_idx p] = Some t2" "space_ok m2 t (stock s2 - used s2 \<union> G)"
      "view m2 t = view m3 t" "kept 1 s3 s2" "same_regs m3 m2" "root_kept t {} m3 m2"
    by (rule descend_spec [OF k3(2) _ 3(3) k3(1) 3(2), of "level3_idx p" fl]) (use fl k3(3) in auto)
  have k2: "G \<inter> stock s2 \<subseteq> used s2" "inv s2" "1 \<le> room s2" using k3 2(5) unfolding kept_def by auto
  have plain: "\<not> contains (flags (tables m2 t2 (level2_idx p))) HUGE_PAGE"
    by (rule view_UnmappedD [OF _ 2(2)]) (simp add: 2(4) 3(4) free)
  obtain t1 m1 s1 where 1: "descend alloc fl t2 (level2_idx p) (m2, s2) = Inr (t1, m1, s1)"
      "table_at m1 4 t (walk p) = Some t1" "space_ok m1 t (stock s1 - used s1 \<union> G)"
      "view m1 t = view m2 t" "kept 1 s2 s1" "same_regs m2 m1" "root_kept t {} m2 m1"
    by (rule descend_spec [OF k2(2) _ 2(3) k2(1) 2(2), of "level2_idx p" fl]) (use fl k2(3) plain in auto)
  have vw: "view m1 t = view m t" using 1(4) 2(4) 3(4) by simp
  have ke: "kept 3 s s1" using kept_trans [OF kept_trans [OF 3(5) 2(5)] 1(5)] by (simp add: numeral_3_eq_3)
  let ?e = "PageTableEntry (phy_u64 a OR fl)"
  let ?m' = "put_entry m1 t1 (level1_idx p) ?e"
  have "map_page_unchecked alloc t p a fl (m, s) = Inr (?m', s1)"
    using 3(1) 2(1) 1(1) a
    by (simp add: map_page_unchecked_def get_entry_eq set_addr_eq frame_aligned_iff frame_ok_def)
  moreover have pe: "present ?e" using links_set_addr [OF a fl, of 1] by (simp add: links_def)
  moreover have "same_regs m ?m'" using 1(6) 2(6) 3(6) by (simp add: same_regs_def)
  moreover have "view ?m' t = (\<lambda>q. if canonical_num q = canonical_num p then Mapped ?e else view m t q)"
    using space_put(2) [OF 1(3,2) refl, of ?e] pe by (simp add: vw cong: if_cong)
  moreover have "root_kept t {} m1 ?m'" using root_kept_put [OF _ 1(2)] 1(3) by (simp add: space_ok_def)
  then have "root_kept t {level4_idx p} m ?m'"
    using root_kept_trans [OF root_kept_trans [OF root_kept_trans [OF 3(7) 2(7)] 1(7)]] by simp
  ultimately show ?thesis using that space_put(1) [OF 1(3,2) refl] ke by blast
qed

end

section \<open>The search for free pages\<close>

definition page_plus :: "page \<Rightarrow> nat \<Rightarrow> page" where
  "page_plus p k = Page (num p + of_nat k)"

lemma page_plus_0 [simp]: "page_plus p 0 = p"
  by (simp add: page_plus_def)

lemma page_plus_plus: "page_plus (page_plus p j) k = page_plus p (j + k)"
  by (simp add: page_plus_def add.assoc)

text \<open>The pages of 64-bit addresses; \<open>Page::from\<close> gives no others.\<close>

definition page_ok :: "page \<Rightarrow> bool" where
  "page_ok p \<longleftrightarrow> unat (num p) < 2 ^ 52"

lemma page_ok_above:
  assumes "page_ok p" and "canonical_num p + k < 2 ^ 36"
  shows "unat (num p) + k < 2 ^ 52"
proof -
  let ?q = "unat (num p) div 2 ^ 36"
  have split: "unat (num p) = 2 ^ 36 * ?q + canonical_num p"
    by (simp only: canonical_num_eq mult_div_mod_eq)
  have "?q < 2 ^ 16" using assms(1) by (simp add: page_ok_def less_mult_imp_div_less)
  then have "2 ^ 36 * ?q + 2 ^ 36 \<le> 2 ^ 52" by simp
  with split assms(2) show ?thesis by linarith
qed

lemma page_plus_nums:
  assumes "page_ok p" and "canonical_num p + k < 2 ^ 36"
  shows "unat (num (page_plus p k)) = unat (num p) + k"
    and "canonical_num (page_plus p k) = canonical_num p + k" and "page_ok (page_plus p k)"
proof -
  have lt: "unat (num p) + k < 2 ^ 52" by (rule page_ok_above [OF assms])
  have "k < 2 ^ 36" using assms(2) by simp
  then have k: "unat (of_nat k :: u64) = k" by (intro unat_of_nat_less) simp
  show u: "unat (num (page_plus p k)) = unat (num p) + k"
    using lt k by (simp add: page_plus_def unat_word_ariths)
  then show "page_ok (page_plus p k)" using lt by (simp add: page_ok_def)
  have "(unat (num p) + k) mod 2 ^ 36 = (unat (num p) mod 2 ^ 36 + k) mod 2 ^ 36"
    by (rule mod_add_left_eq [symmetric])
  then show "canonical_num (page_plus p k) = canonical_num p + k"
    using assms(2) by (simp add: canonical_num_eq u)
qed

lemma next_by_page_plus:
  assumes "page_ok p" and "k < 2 ^ 36"
  shows "next_by p (of_nat k) =
    Inr (if canonical_num p + k < 2 ^ 36 then Some (page_plus p k) else None)"
proof -
  have k: "unat (of_nat k :: u64) = k" using assms(2) by (intro unat_of_nat_less) simp
  have "canonical_num p < 2 ^ 36" using canonical_num_less [of p] by (simp only: MAX_eq)
  then show ?thesis using assms
    by (simp add: next_by_def usize_add_def chk_add_def k MAX_eq page_plus_def page_ok_def)
qed

lemma page_next_page_plus:
  assumes "page_ok p" and "canonical_num p + k < 2 ^ 36"
  shows "page_next (page_plus p k) =
    Inr (if canonical_num p + k + 1 < 2 ^ 36 then Some (page_plus p (k + 1)) else None)"
proof -
  note n = page_plus_nums [OF assms]
  have c: "canonical_num (page_plus p k) + 1 < 2 ^ 64" using n(2) assms(2) by simp
  show ?thesis
  proof (cases "canonical_num p + k + 1 < 2 ^ 36")
    case True
    then have "unat (num (page_plus p k)) + 1 < 2 ^ 64"
      using page_ok_above [OF assms(1), of "k + 1"] n(1) by simp
    then have "chk_add (num (page_plus p k)) 1 = Inr (num (page_plus p (k + 1)))"
      by (simp add: chk_add_def page_plus_def)
    then show ?thesis using True n(2) c by (simp add: page_next_def next_by_def usize_add_def MAX_eq)
  next
    case False
    then show ?thesis using n(2) c by (simp add: page_next_def next_by_def usize_add_def MAX_eq)
  qed
qed

text \<open>
  What the loop keeps, for a search that starts at \<open>p\<close> and stands at the \<open>k\<close>-th page after
  it: the last \<open>c\<close> pages are free and start at \<open>f\<close>, the page before them is not, and no
  earlier window of \<open>n\<close> pages is free.
\<close>

definition search_inv :: "(nat \<Rightarrow> bool) \<Rightarrow> page \<Rightarrow> nat \<Rightarrow> nat \<Rightarrow> page \<Rightarrow> nat \<Rightarrow> bool" where
  "search_inv free p n k f c \<longleftrightarrow>
     c \<le> k + 1 \<and> (0 < c \<longrightarrow> f = page_plus p (k + 1 - c)) \<and>
     (\<forall>j. k + 1 - c \<le> j \<and> j \<le> k \<longrightarrow> free j) \<and> (c \<le> k \<longrightarrow> \<not> free (k - c)) \<and>
     (\<forall>i. i + n \<le> k + 1 \<and> i < k + 1 - c \<longrightarrow> (\<exists>j. i \<le> j \<and> j < i + n \<and> \<not> free j))"

lemma search_inv_start:
  assumes "0 < n"
  shows "search_inv free p n 0 p (if free 0 then 1 else 0)"
  using assms by (auto simp: search_inv_def)

lemma search_inv_free:
  assumes inv: "search_inv free p n k f c" and "c < n" and free: "free (k + 1)"
  shows "search_inv free p n (k + 1) (if c = 0 then page_plus p (k + 1) else f) (c + 1)"
proof -
  have "\<exists>j. i \<le> j \<and> j < i + n \<and> \<not> free j" if "i + n \<le> k + 1 + 1" "i < k + 1 - c" for i
  proof (cases "i + n \<le> k + 1")
    case True
    then show ?thesis using inv that by (simp add: search_inv_def)
  next
    case False
    with that inv have "i \<le> k - c" "k - c < i + n" "\<not> free (k - c)"
      by (auto simp: search_inv_def)
    then show ?thesis by blast
  qed
  with inv free show ?thesis
    by (auto simp: search_inv_def le_Suc_eq)
qed

lemma search_inv_taken:
  assumes "search_inv free p n k f c" and "c < n" and "\<not> free (k + 1)"
  shows "search_inv free p n (k + 1) f' 0"
proof -
  have "\<exists>j. i \<le> j \<and> j < i + n \<and> \<not> free j" if "i + n \<le> k + 1 + 1" for i
  proof (cases "i + n \<le> k + 1")
    case True
    then have "i < k + 1 - c" using assms(2) by linarith
    then show ?thesis using assms True by (simp add: search_inv_def)
  next
    case False
    then show ?thesis using assms that by (intro exI [of _ "k + 1"]) simp
  qed
  then show ?thesis using assms by (simp add: search_inv_def)
qed

lemma find_free_loop_spec:
  assumes hh: "hhdm_ok m t" and room: "page_ok p"
    and "canonical_num p + k < 2 ^ 36" and "c \<le> n"
    and "search_inv (\<lambda>j. view m t (page_plus p j) = Unmapped) p n k f c"
  shows "\<exists>k' f' c'. find_free_loop m t n f c (page_plus p k) = Inr (f', c', page_plus p k') \<and>
    canonical_num p + k' < 2 ^ 36 \<and> c' \<le> n \<and>
    search_inv (\<lambda>j. view m t (page_plus p j) = Unmapped) p n k' f' c' \<and>
    (c' = n \<or> canonical_num p + k' + 1 = 2 ^ 36)"
  using assms(3-)
proof (induction "2 ^ 36 - (canonical_num p + k)" arbitrary: k f c rule: less_induct)
  case less
  let ?free = "\<lambda>j. view m t (page_plus p j) = Unmapped"
  note nxt = page_next_page_plus [OF room less.prems(1)]
  consider (full) "c = n" | (top) "c < n" "canonical_num p + k + 1 = 2 ^ 36"
    | (free) "c < n" "canonical_num p + k + 1 < 2 ^ 36" "?free (k + 1)"
    | (taken) "c < n" "canonical_num p + k + 1 < 2 ^ 36" "\<not> ?free (k + 1)"
    using less.prems by linarith
  then show ?case
  proof cases
    case full
    then show ?thesis using less.prems by (subst find_free_loop.simps) auto
  next
    case top
    then show ?thesis using less.prems nxt by (subst find_free_loop.simps) auto
  next
    case free
    let ?f = "if c = 0 then page_plus p (k + 1) else f"
    have "find_free_loop m t n f c (page_plus p k) =
        find_free_loop m t n ?f (c + 1) (page_plus p (k + 1))"
      using free nxt is_present_eq [OF hh] by (subst find_free_loop.simps) simp
    moreover note less.hyps [of "k + 1" "c + 1" ?f]
    ultimately show ?thesis
      using free less.prems search_inv_free [OF less.prems(3)] by (simp add: ac_simps)
  next
    case taken
    have "find_free_loop m t n f c (page_plus p k) = find_free_loop m t n f 0 (page_plus p (k + 1))"
      using taken nxt is_present_eq [OF hh] by (subst find_free_loop.simps) simp
    moreover note less.hyps [of "k + 1" 0 f]
    ultimately show ?thesis
      using taken less.prems search_inv_taken [OF less.prems(3)] by (simp add: ac_simps)
  qed
qed


lemma find_free_pages_spec:
  assumes hh: "hhdm_ok m t" and room: "page_ok p" and n: "0 < n"
  shows "(\<exists>k. find_free_pages m t p n =
            Inr (Some \<lparr>iter_start = page_plus p k, iter_end = page_plus p (k + n - 1)\<rparr>) \<and>
          canonical_num p + k + n \<le> 2 ^ 36 \<and>
          (\<forall>j. k \<le> j \<and> j < k + n \<longrightarrow> view m t (page_plus p j) = Unmapped) \<and>
          (\<forall>i<k. \<exists>j. i \<le> j \<and> j < i + n \<and> view m t (page_plus p j) \<noteq> Unmapped))
       \<or> (find_free_pages m t p n = Inr None \<and>
          (\<forall>k. canonical_num p + k + n \<le> 2 ^ 36 \<longrightarrow>
             (\<exists>j. k \<le> j \<and> j < k + n \<and> view m t (page_plus p j) \<noteq> Unmapped)))"
proof -
  let ?free = "\<lambda>j. view m t (page_plus p j) = Unmapped"
  have c0: "canonical_num p + 0 < 2 ^ 36" using canonical_num_less [of p] by (simp add: MAX_eq)
  have "(if ?free 0 then 1 else 0) \<le> n" using n by simp
  from find_free_loop_spec [OF hh room c0 this search_inv_start [OF n]]
  obtain k f c where
    loop: "find_free_loop m t n p (if ?free 0 then 1 else 0) (page_plus p 0) = Inr (f, c, page_plus p k)"
    and k: "canonical_num p + k < 2 ^ 36" and c: "c \<le> n" and inv: "search_inv ?free p n k f c"
    and fin: "c = n \<or> canonical_num p + k + 1 = 2 ^ 36"
    by blast
  have ff: "find_free_pages m t p n =
      (if c = n then Inr (Some \<lparr>iter_start = f, iter_end = page_plus p k\<rparr>) else Inr None)"
    using loop is_present_eq [OF hh, of p]
    by (cases "view m t p = Unmapped") (simp_all add: find_free_pages_def)
  show ?thesis
  proof (cases "c = n")
    case True
    with inv n have "n \<le> k + 1" "f = page_plus p (k + 1 - n)" "\<forall>j. k + 1 - n \<le> j \<and> j \<le> k \<longrightarrow> ?free j"
      "\<forall>i. i + n \<le> k + 1 \<and> i < k + 1 - n \<longrightarrow> (\<exists>j. i \<le> j \<and> j < i + n \<and> \<not> ?free j)"
      by (auto simp: search_inv_def)
    then show ?thesis using ff True k
      by (intro disjI1 exI [of _ "k + 1 - n"]) (simp add: less_Suc_eq_le)
  next
    case False
    then show ?thesis using ff inv c fin by (auto simp: search_inv_def)
  qed
qed

section \<open>Properties\<close>

text \<open>
  A machine to evaluate the properties on: the direct map is where the boot loader puts it and
  no table links to another.
\<close>

definition boot_machine :: machine where
  "boot_machine = \<lparr>hhdm = 0xffff800000000000, cr3 = 0x1000, tables = \<lambda>_ _. PageTableEntry 0,
     invalidated = [], stores = []\<rparr>"

lemma boot_tables:
  "table_at boot_machine 4 t p = (if p = [] then Some t else None)"
  "view boot_machine t q = Unmapped" "hhdm_ok boot_machine t"
  "PhyAddr (t - hhdm boot_machine) \<notin> F \<Longrightarrow> space_ok boot_machine t F"
proof -
  show at: "table_at boot_machine 4 t p = (if p = [] then Some t else None)" for p
    by (cases p) (simp_all add: table_at.simps(2) boot_machine_def links_def)
  show "view boot_machine t q = Unmapped" by (simp add: view_def at)
  show hh: "hhdm_ok boot_machine t"
    by (auto simp: hhdm_ok_def direct_map_ok_def links_def boot_machine_def)
  have "table_va boot_machine f = t \<Longrightarrow> f = PhyAddr (t - hhdm boot_machine)" for f
    by (cases f) (auto simp: table_va_def)
  then show "PhyAddr (t - hhdm boot_machine) \<notin> F \<Longrightarrow> space_ok boot_machine t F"
    using hh by (auto simp: space_ok_def tree_def tables_avoid_def at split: if_splits)
qed

text \<open>The window of \<open>n\<close> pages that starts \<open>k\<close> pages after \<open>p\<close> is free and within the tables.\<close>

definition fits :: "machine \<Rightarrow> u64 \<Rightarrow> page \<Rightarrow> nat \<Rightarrow> nat \<Rightarrow> bool" where
  "fits m t p n k \<longleftrightarrow> canonical_num p + k + n \<le> 2 ^ 36 \<and>
     (\<forall>j. k \<le> j \<and> j < k + n \<longrightarrow> view m t (page_plus p j) = Unmapped)"

text \<open>
  C8. The search for free pages is first fit and complete: it returns the lowest window of
  \<open>n\<close> unmapped pages from the start page on, and \<open>None\<close> only if the address space has none.
\<close>

theorem find_free_pages_first_fit:
  assumes "hhdm_ok m t" and "page_ok p" and "0 < n"
  shows "find_free_pages m t p n =
    (if \<exists>k. fits m t p n k
     then Inr (Some \<lparr>iter_start = page_plus p (LEAST k. fits m t p n k),
                     iter_end = page_plus p ((LEAST k. fits m t p n k) + n - 1)\<rparr>)
     else Inr None)"
  using find_free_pages_spec [OF assms]
proof (elim disjE exE conjE)
  fix k
  assume f: "find_free_pages m t p n =
      Inr (Some \<lparr>iter_start = page_plus p k, iter_end = page_plus p (k + n - 1)\<rparr>)"
    and k: "canonical_num p + k + n \<le> 2 ^ 36" "\<forall>j. k \<le> j \<and> j < k + n \<longrightarrow> view m t (page_plus p j) = Unmapped"
    and low: "\<forall>i<k. \<exists>j. i \<le> j \<and> j < i + n \<and> view m t (page_plus p j) \<noteq> Unmapped"
  have fk: "fits m t p n k" using k by (simp add: fits_def)
  moreover have "k \<le> i" if "fits m t p n i" for i using low that by (auto simp: fits_def not_less [symmetric])
  ultimately have "(LEAST k. fits m t p n k) = k" by (intro Least_equality)
  with f fk show ?thesis by auto
next
  assume "find_free_pages m t p n = Inr None"
    and "\<forall>k. canonical_num p + k + n \<le> 2 ^ 36 \<longrightarrow>
      (\<exists>j. k \<le> j \<and> j < k + n \<and> view m t (page_plus p j) \<noteq> Unmapped)"
  then show ?thesis by (auto simp: fits_def)
qed

theorem find_free_pages_first_fit_witness:
  "find_free_pages boot_machine 0 (Page 7) 4 = Inr (Some \<lparr>iter_start = Page 7, iter_end = Page 10\<rparr>)"
proof -
  have p: "page_ok (Page 7)" by (simp add: page_ok_def)
  have f: "fits boot_machine 0 (Page 7) 4 0" by (simp add: fits_def boot_tables canonical_num_eq)
  then have "(LEAST k. fits boot_machine 0 (Page 7) 4 k) = 0" by simp
  with f show ?thesis
    using find_free_pages_first_fit [OF boot_tables(3) p, of 4 0] by (auto simp: page_plus_def)
qed

text \<open>
  C9. Mapping a page with the bitmap allocator is a point update of the address space: the
  page, and the pages with the same canonical number, are mapped to the frame with the given
  flags, everything else is mapped as before, and the invariant of the tables is kept.
\<close>

theorem map_page_refines:
  assumes "phys_inv s" and "3 \<le> free_count s"
    and "space_ok m t (usable_frames s - used_frames s \<union> G)" and "G \<inter> usable_frames s \<subseteq> used_frames s"
    and "view m t p = Unmapped" and "frame_ok a" and "table_flags fl"
  shows "\<exists>m' s'. map_page_unchecked allocate_frame t p a fl (m, s) = Inr (m', s') \<and>
    view m' t = (\<lambda>q. if canonical_num q = canonical_num p
      then Mapped (PageTableEntry (phy_u64 a OR fl)) else view m t q) \<and>
    space_ok m' t (usable_frames s' - used_frames s' \<union> G) \<and> phys_inv s' \<and> used_frames s \<subseteq> used_frames s'"
  by (rule phys.map_page_spec [OF assms]) (auto simp: phys.kept_def)

theorem map_page_refines_witness:
  "\<exists>m' s'. map_page_unchecked allocate_frame 0 (Page 5) (PhyAddr 0x7000) (PRESENT OR WRITABLE)
      (boot_machine, set_limit (init_phys (PhyAddr 0x100000)) 0x8000) = Inr (m', s') \<and>
    view m' 0 (Page 5) = Mapped (PageTableEntry 0x7003)"
proof -
  let ?s = "set_limit (init_phys (PhyAddr 0x100000)) 0x8000"
  have i: "phys_inv ?s" "3 \<le> free_count ?s"
    by (simp_all add: free_count_all phys_inv_def init_phys_def set_limit_def BITMAP_SIZE_def)
  have "PhyAddr (0 - hhdm boot_machine) \<notin> usable_frames ?s"
    using phys.stock_low [OF i(1), of "PhyAddr (0 - hhdm boot_machine)"] by (auto simp: boot_machine_def)
  then have "space_ok boot_machine 0 (usable_frames ?s - used_frames ?s \<union> {})"
    by (intro boot_tables(4)) simp
  moreover have "frame_ok (PhyAddr 0x7000)" "table_flags (PRESENT OR WRITABLE)"
    by (simp_all add: frame_ok_def table_flags_def flags_ok_def contains_def flag_defs physical_address_mask_def)
  ultimately obtain m' s' where
    "map_page_unchecked allocate_frame 0 (Page 5) (PhyAddr 0x7000) (PRESENT OR WRITABLE) (boot_machine, ?s) = Inr (m', s')"
    "view m' 0 = (\<lambda>q. if canonical_num q = canonical_num (Page 5)
      then Mapped (PageTableEntry (phy_u64 (PhyAddr 0x7000) OR (PRESENT OR WRITABLE))) else view boot_machine 0 q)"
    using map_page_refines [OF i _ _ boot_tables(2)] by blast
  then show ?thesis by (simp add: flag_defs)
qed

text \<open>
  C23. What the walk returns, for every table tree in the direct map: it never panics,
  \<open>page_entry\<close> returns a present entry exactly for the mapped pages, and \<open>is_present\<close> is true
  exactly for the pages that are mapped by an entry of a last-level table or by a huge page.
\<close>

theorem page_entry_refines:
  assumes "hhdm_ok m t"
  shows "(\<exists>r. page_entry m t p = Inr r \<and> (\<forall>e. r = Inr e \<and> present e \<longleftrightarrow> view m t p = Mapped e)) \<and>
    is_present m t p = Inr (view m t p \<noteq> Unmapped)"
proof -
  obtain r where r: "page_entry m t p = Inr r" "view m t p = view_of r"
    using page_entry_view [OF assms] by blast
  then have "r = Inr e \<and> present e \<longleftrightarrow> view m t p = Mapped e" for e
    by (cases r) (auto simp: view_of_def split: page_entry_error.splits)
  with r(1) show ?thesis using is_present_eq [OF assms] by blast
qed

theorem page_entry_refines_witness: "is_present boot_machine 0 (Page 3) = Inr False"
  using page_entry_refines [OF boot_tables(3), of 0 "Page 3"] by (simp add: boot_tables)

text \<open>
  A search for zero pages does not return an empty range: when the start page is
  mapped it returns the range that consists of this page, and otherwise \<open>None\<close>.
\<close>

lemma find_free_pages_zero:
  assumes "hhdm_ok m t"
  shows "find_free_pages m t p 0 =
    Inr (if view m t p = Unmapped then None else Some \<lparr>iter_start = p, iter_end = p\<rparr>)"
  using is_present_eq [OF assms, of p]
  by (cases "view m t p = Unmapped"; simp add: find_free_pages_def; subst find_free_loop.simps; simp)

end
