(* ===== verification/Virt_Memory.thy ===== *)
theory Virt_Memory
  imports Page_Tree
begin

text \<open>
  The page allocator: \<open>src/memory/virt.rs\<close>.

  The state is the machine together with \<open>BasicPageAllocatorInner\<close>. Each operation holds the
  mutex from its first to its last access, so it is one atomic step on that state. The
  allocator is generic in the trait \<open>PhysicalAllocator\<close>; the operations take the methods of
  the trait as arguments, and their correctness is proved in the context of its contract,
  the locale \<open>frame_allocator\<close>.
\<close>

section \<open>The page allocator\<close>

record page_allocation =
  first_page :: page
  page_amount :: nat

definition page_allocation_new :: "virt_addr \<Rightarrow> nat \<Rightarrow> page_allocation run" where
  "page_allocation_new v n = bnd (page_from v) (\<lambda>p. Inr \<lparr>first_page = p, page_amount = n\<rparr>)"

definition as_virt_addr :: "page_allocation \<Rightarrow> virt_addr run" where
  "as_virt_addr al = virt_from (first_page al)"

record 'p page_allocator_inner =
  physical_allocator :: 'p
  last_page_alloc :: page

definition new_const :: "basic_physical_allocator page_allocator_inner run" where
  "new_const =
     bnd (page_new 1) (\<lambda>p.
     Inr \<lparr>physical_allocator = init_phys (PhyAddr 0), last_page_alloc = p\<rparr>)"

definition configure_physical_area ::
  "phy_addr \<Rightarrow> u64 \<Rightarrow> basic_physical_allocator page_allocator_inner
     \<Rightarrow> basic_physical_allocator page_allocator_inner run" where
  "configure_physical_area start_addr sz inner =
     bnd (set_offset (physical_allocator inner) start_addr) (\<lambda>s.
     Inr (inner\<lparr>physical_allocator := set_limit s sz\<rparr>))"

definition invlpg :: "u64 \<Rightarrow> machine \<Rightarrow> machine" where
  "invlpg a m = m\<lparr>invalidated := invalidated m @ [a]\<rparr>"

abbreviation page_flags :: page_table_entry_flags where
  "page_flags \<equiv> PRESENT OR WRITABLE"

text \<open>The body of the loop of \<open>alloc_pages\<close>.\<close>

definition alloc_page_body ::
  "('p \<Rightarrow> (phy_addr \<times> 'p) run) \<Rightarrow> u64 \<Rightarrow> page \<Rightarrow> machine \<times> 'p page_allocator_inner
     \<Rightarrow> (machine \<times> 'p page_allocator_inner) run" where
  "alloc_page_body alloc t p mi =
     (case mi of (m, inner) \<Rightarrow>
     bnd (alloc (physical_allocator inner)) (\<lambda>(frame, s).
     bnd (map_page_unchecked alloc t p frame page_flags (m, s)) (\<lambda>(m, s).
     bnd (virt_from p) (\<lambda>v.
     Inr (invlpg (virt_u64 v) m, inner\<lparr>physical_allocator := s\<rparr>)))))"

definition alloc_pages ::
  "('p \<Rightarrow> (phy_addr \<times> 'p) run) \<Rightarrow> nat \<Rightarrow> machine \<times> 'p page_allocator_inner
     \<Rightarrow> (page_allocation option \<times> machine \<times> 'p page_allocator_inner) run" where
  "alloc_pages alloc n mi =
     (case mi of (m, inner) \<Rightarrow>
     bnd (current m) (\<lambda>t.
     bnd (find_free_pages m t (last_page_alloc inner) n) (\<lambda>r.
     case r of
       None \<Rightarrow> Inr (None, m, inner)
     | Some free_pages \<Rightarrow>
         let first = page_iter_first free_pages;
             inner = inner\<lparr>last_page_alloc := last_page free_pages\<rparr>
         in bnd (for_pages free_pages (alloc_page_body alloc t) (m, inner)) (\<lambda>(m, inner).
            Inr (Some \<lparr>first_page = first, page_amount = n\<rparr>, m, inner)))))"

definition dealloc_page_body ::
  "('p \<Rightarrow> phy_addr \<Rightarrow> 'p run) \<Rightarrow> u64 \<Rightarrow> page \<Rightarrow> machine \<times> 'p page_allocator_inner
     \<Rightarrow> (machine \<times> 'p page_allocator_inner) run" where
  "dealloc_page_body release t p mi =
     (case mi of (m, inner) \<Rightarrow>
     bnd (page_entry_mut m t p) (\<lambda>r.
     bnd (unwrap r) (\<lambda>(t1, i).
     bnd (release (physical_allocator inner) (addr (tables m t1 i))) (\<lambda>s.
     bnd (virt_from p) (\<lambda>v.
     Inr (invlpg (virt_u64 v) (put_entry m t1 i (PageTableEntry 0)),
          inner\<lparr>physical_allocator := s\<rparr>))))))"

definition dealloc_pages ::
  "('p \<Rightarrow> phy_addr \<Rightarrow> 'p run) \<Rightarrow> page_allocation \<Rightarrow> machine \<times> 'p page_allocator_inner
     \<Rightarrow> (machine \<times> 'p page_allocator_inner) run" where
  "dealloc_pages release al mi =
     bnd (chk_sub (of_nat (page_amount al)) 1) (\<lambda>k.
     bnd (next_by (first_page al) k) (\<lambda>r.
     bnd (unwrap r) (\<lambda>last.
     bnd (current (fst mi)) (\<lambda>t.
     for_pages \<lparr>iter_start = first_page al, iter_end = last\<rparr> (dealloc_page_body release t) mi))))"

section \<open>Mapping a physical address\<close>

text \<open>Giving the frames back when there is no room in the address space.\<close>

fun free_frames :: "('p \<Rightarrow> phy_addr \<Rightarrow> 'p run) \<Rightarrow> nat \<Rightarrow> phy_addr \<Rightarrow> 'p \<Rightarrow> 'p run" where
  "free_frames release 0 a s = Inr s"
| "free_frames release (Suc n) a s =
     bnd (release s a) (\<lambda>s.
     bnd (chk_add (phy_u64 a) frame_size) (\<lambda>a. free_frames release n (PhyAddr a) s))"

definition store_zero :: "page \<Rightarrow> nat \<Rightarrow> machine \<Rightarrow> machine run" where
  "store_zero p i m =
     bnd (virt_from p) (\<lambda>v.
     bnd (chk_add (virt_u64 v) (of_nat i)) (\<lambda>byte. Inr (m\<lparr>stores := stores m @ [(byte, 0)]\<rparr>)))"

definition page_size :: nat where
  "page_size = unat PAGE_SIZE"

definition map_physical_body ::
  "('p \<Rightarrow> (phy_addr \<times> 'p) run) \<Rightarrow> u64 \<Rightarrow> page \<Rightarrow> phy_addr \<times> machine \<times> 'p page_allocator_inner
     \<Rightarrow> (phy_addr \<times> machine \<times> 'p page_allocator_inner) run" where
  "map_physical_body alloc t p ami =
     (case ami of (a, m, inner) \<Rightarrow>
     bnd (map_page_unchecked alloc t p a page_flags (m, physical_allocator inner)) (\<lambda>(m, s).
     bnd (if phy_u64 a = 0xfee00000 then for_list (store_zero p) [0..<page_size] m else Inr m) (\<lambda>m.
     bnd (chk_add (phy_u64 a) frame_size) (\<lambda>a.
     Inr (PhyAddr a, m, inner\<lparr>physical_allocator := s\<rparr>)))))"

definition map_physical ::
  "('p \<Rightarrow> (phy_addr \<times> 'p) run) \<Rightarrow> ('p \<Rightarrow> phy_addr \<Rightarrow> 'p run)
     \<Rightarrow> ('p \<Rightarrow> phy_addr \<Rightarrow> nat \<Rightarrow> (phy_addr option \<times> 'p) run)
     \<Rightarrow> phy_addr \<Rightarrow> nat \<Rightarrow> machine \<times> 'p page_allocator_inner
     \<Rightarrow> ((page_allocation \<times> virt_addr) option \<times> machine \<times> 'p page_allocator_inner) run" where
  "map_physical alloc release alloc_at a n mi =
     (case mi of (m, inner) \<Rightarrow>
     bnd (align_down a (unat frame_size)) (\<lambda>aligned.
     bnd (chk_sub (phy_u64 a) (phy_u64 aligned)) (\<lambda>align_offset.
     let add_page = (if align_offset = 0 then 0 else 1)
     in bnd (usize_add n add_page) (\<lambda>n.
     bnd (alloc_at (physical_allocator inner) aligned n) (\<lambda>(r, s).
     let inner = inner\<lparr>physical_allocator := s\<rparr>
     in case r of
          None \<Rightarrow> Inr (None, m, inner)
        | Some phy \<Rightarrow>
            bnd (current m) (\<lambda>t.
            bnd (find_free_pages m t (last_page_alloc inner) n) (\<lambda>r.
            case r of
              None \<Rightarrow>
                bnd (free_frames release n phy s) (\<lambda>s.
                Inr (None, m, inner\<lparr>physical_allocator := s\<rparr>))
            | Some pages \<Rightarrow>
                let first = page_iter_first pages
                in bnd (for_pages pages (map_physical_body alloc t) (phy, m, inner)) (\<lambda>(_, m, inner).
                   bnd (virt_from first) (\<lambda>v.
                   bnd (chk_add (virt_u64 v) align_offset) (\<lambda>w.
                   Inr (Some (\<lparr>first_page = first, page_amount = n\<rparr>, VirtAddr w), m, inner)))))))))))"

section \<open>Initialisation\<close>

text \<open>
  An entry of the boot loader's memory map; \<open>usable\<close> stands for \<open>entry_type == USABLE\<close>.
  \<open>max_by_key\<close> returns the last of several entries with the greatest length. The total is
  computed for the message the source prints, and overflows like any other sum.
\<close>

record memory_map_entry =
  base :: u64
  len :: u64
  usable :: bool

fun max_by_length :: "memory_map_entry list \<Rightarrow> memory_map_entry option" where
  "max_by_length [] = None"
| "max_by_length (e # es) =
     (case max_by_length es of
        None \<Rightarrow> Some e
      | Some b \<Rightarrow> if len b < len e then Some e else Some b)"

fun sum_u64 :: "u64 \<Rightarrow> u64 list \<Rightarrow> u64 run" where
  "sum_u64 acc [] = Inr acc"
| "sum_u64 acc (x # xs) = bnd (chk_add acc x) (\<lambda>acc. sum_u64 acc xs)"

definition virt_init ::
  "memory_map_entry list \<Rightarrow> basic_physical_allocator page_allocator_inner
     \<Rightarrow> basic_physical_allocator page_allocator_inner run" where
  "virt_init entries inner =
     bnd (unwrap (max_by_length (filter usable entries))) (\<lambda>usable_mem.
     bnd (sum_u64 0 (map len (filter usable entries))) (\<lambda>_.
     configure_physical_area (PhyAddr (base usable_mem)) (len usable_mem) inner))"

end
