(* ===== verification/Virt_Correct.thy ===== *)
theory Virt_Correct
  imports Virt_Memory
begin

text \<open>
  Correctness of the page allocator over any physical allocator that keeps the contract
  \<open>frame_allocator\<close>: what \<open>alloc_pages\<close>, \<open>dealloc_pages\<close> and \<open>map_physical\<close> do to the view of
  the address space and to the set of frames handed out. The last section gives the facts for
  the allocator the kernel uses.
\<close>

section \<open>The loops over pages\<close>

lemma current_eq:
  assumes "direct_map_ok m" and "unat (cr3 m) < 2 ^ 47"
  shows "current m = Inr (table_va m (PhyAddr (cr3 m)))"
proof -
  have lt: "unat (cr3 m) + unat (hhdm m) < 2 ^ 64" and "0 < unat (hhdm m)"
    using assms by (simp_all add: direct_map_ok_def)
  then have "unat (cr3 m + hhdm m) \<noteq> 0" by (simp add: unat_word_ariths)
  then have "cr3 m + hhdm m \<noteq> 0" by (metis unat_0)
  with lt show ?thesis by (simp add: current_def as_virtual_def run_simps deref_def table_va_def)
qed

lemma for_pages_from:
  assumes p: "page_ok p" and top: "canonical_num p + n < 2 ^ 36" and "k \<le> n" and "0 < n"
  shows "for_pages \<lparr>iter_start = page_plus p k, iter_end = page_plus p (n - 1)\<rparr> body s =
    for_list body (map (page_plus p) [k..<n]) s"
  using \<open>k \<le> n\<close>
proof (induction k arbitrary: s rule: inc_induct)
  case base
  have "\<not> page_plus p n \<le> page_plus p (n - 1)"
    using page_plus_nums(1) [OF p, of n] page_plus_nums(1) [OF p, of "n - 1"] top \<open>0 < n\<close>
    by (simp add: less_eq_page_def word_le_nat_alt)
  then show ?case by (subst for_pages.simps) (simp add: page_iter_next_def)
next
  case (step k)
  have "page_plus p k \<le> page_plus p (n - 1)"
    using page_plus_nums(1) [OF p, of k] page_plus_nums(1) [OF p, of "n - 1"] top step.hyps
    by (simp add: less_eq_page_def word_le_nat_alt)
  moreover have "page_next (page_plus p k) = Inr (Some (page_plus p (k + 1)))"
    using page_next_page_plus [OF p, of k] top step.hyps by simp
  moreover have "for_pages \<lparr>iter_start = page_plus p (Suc k), iter_end = page_plus p (n - 1)\<rparr> body =
      for_list body (map (page_plus p) [Suc k..<n])"
    by (rule ext) (rule step.IH)
  ultimately show ?case using step.hyps
    by (subst for_pages.simps) (simp add: page_iter_next_def upt_conv_Cons)
qed

lemma for_pages_for_list:
  assumes "page_ok p" and "canonical_num p + n < 2 ^ 36" and "0 < n"
  shows "for_pages \<lparr>iter_start = p, iter_end = page_plus p (n - 1)\<rparr> body s =
    for_list body (map (page_plus p) [0..<n]) s"
  using for_pages_from [OF assms(1,2) _ assms(3), of 0] by simp

lemma virt_from_page_ok: "page_ok p \<Longrightarrow> virt_from p = Inr (VirtAddr (num p * PAGE_SIZE))"
  by (simp add: page_ok_def virt_from_eq)

lemma invlpg_simps [simp]:
  "hhdm (invlpg a m) = hhdm m" "cr3 (invlpg a m) = cr3 m" "stores (invlpg a m) = stores m"
  "tables (invlpg a m) = tables m" "invalidated (invlpg a m) = invalidated m @ [a]"
  by (simp_all add: invlpg_def)

lemma table_at_cong:
  "tables m' = tables m \<Longrightarrow> hhdm m' = hhdm m \<Longrightarrow> table_at m' l t p = table_at m l t p"
  by (induction p arbitrary: l t) (simp_all add: table_at.simps(2) table_va_def)

lemma space_ok_cong:
  "tables m' = tables m \<Longrightarrow> hhdm m' = hhdm m \<Longrightarrow> space_ok m' t F = space_ok m t F"
  by (simp add: space_ok_def hhdm_ok_def direct_map_ok_def tree_def tables_avoid_def table_at_cong [of m' m] table_va_def)

lemma view_cong: "tables m' = tables m \<Longrightarrow> hhdm m' = hhdm m \<Longrightarrow> view m' t = view m t"
  by (rule ext) (auto simp: view_def table_at_cong [of m' m] split: option.splits)

lemma table_flags_page_flags [simp]: "table_flags page_flags"
  by (simp add: table_flags_def flags_ok_def contains_def flag_defs physical_address_mask_def)


section \<open>Allocating and deallocating pages\<close>

abbreviation page_entry_for :: "phy_addr \<Rightarrow> page_table_entry" where
  "page_entry_for f \<equiv> PageTableEntry (phy_u64 f OR page_flags)"

text \<open>What a run over pages does to the view: the \<open>j\<close>-th page of the list is mapped to the
  \<open>j\<close>-th frame.\<close>

fun map_pages :: "(page \<Rightarrow> mapping_view) \<Rightarrow> page list \<Rightarrow> phy_addr list \<Rightarrow> page \<Rightarrow> mapping_view" where
  "map_pages w (p # ps) (f # fs) =
     map_pages (\<lambda>q. if canonical_num q = canonical_num p then Mapped (page_entry_for f) else w q) ps fs"
| "map_pages w _ _ = w"

definition unmap_pages :: "(page \<Rightarrow> mapping_view) \<Rightarrow> page list \<Rightarrow> page \<Rightarrow> mapping_view" where
  "unmap_pages w ps q = (if canonical_num q \<in> canonical_num ` set ps then Unmapped else w q)"

lemma map_pages_other:
  "canonical_num q \<notin> canonical_num ` set ps \<Longrightarrow> map_pages w ps fs q = w q"
  by (induction w ps fs rule: map_pages.induct) auto

lemma map_pages_nth:
  assumes "distinct (map canonical_num ps)" and "length fs = length ps" and "j < length ps"
    and "canonical_num q = canonical_num (ps ! j)"
  shows "map_pages w ps fs q = Mapped (page_entry_for (fs ! j))"
  using assms
proof (induction w ps fs arbitrary: j rule: map_pages.induct)
  case (1 w p ps f fs)
  then show ?case by (cases j) (auto simp: map_pages_other)
qed auto

lemma unmap_map_pages:
  assumes "length fs = length ps" and "\<forall>p\<in>set ps. w p = Unmapped"
    and "\<And>p q. canonical_num p = canonical_num q \<Longrightarrow> w p = w q"
  shows "unmap_pages (map_pages w ps fs) ps = w"
proof
  fix q
  show "unmap_pages (map_pages w ps fs) ps q = w q"
  proof (cases "canonical_num q \<in> canonical_num ` set ps")
    case True
    then obtain p where "p \<in> set ps" "canonical_num q = canonical_num p" by auto
    then have "w q = Unmapped" using assms(2) assms(3) [of q p] by simp
    then show ?thesis using True by (simp add: unmap_pages_def)
  next
    case False
    then show ?thesis by (simp add: unmap_pages_def map_pages_other)
  qed
qed

lemma distinct_pages:
  assumes "page_ok p" and "canonical_num p + n \<le> 2 ^ 36"
  shows "distinct (map canonical_num (map (page_plus p) [0..<n]))"
proof -
  have "map canonical_num (map (page_plus p) [0..<n]) = map ((+) (canonical_num p)) [0..<n]"
    using page_plus_nums(2) [OF assms(1)] assms(2) by simp
  then show ?thesis by (simp only:) (simp add: distinct_map)
qed

definition pages_from :: "page \<Rightarrow> nat \<Rightarrow> page list" where
  "pages_from p n = map (page_plus p) [0..<n]"

definition root :: "machine \<Rightarrow> u64" where
  "root m = table_va m (PhyAddr (cr3 m))"

lemma root_cong: "hhdm m' = hhdm m \<Longrightarrow> cr3 m' = cr3 m \<Longrightarrow> root m' = root m"
  by (simp add: root_def table_va_def)

lemma set_pages_from: "set (pages_from p n) = page_plus p ` {..<n}"
  by (auto simp: pages_from_def)

lemma length_pages_from [simp]: "length (pages_from p n) = n"
  by (simp add: pages_from_def)

lemma nth_pages_from [simp]: "j < n \<Longrightarrow> pages_from p n ! j = page_plus p j"
  by (simp add: pages_from_def)

text \<open>Where the search stops when there is a run of \<open>n\<close> unmapped pages at \<open>r\<close>.\<close>

lemma first_run:
  assumes hh: "hhdm_ok m t" and p: "page_ok p" and n: "0 < n"
    and run: "canonical_num p + r + n < 2 ^ 36"
      "\<forall>j. r \<le> j \<and> j < r + n \<longrightarrow> view m t (page_plus p j) = Unmapped"
  obtains k where "k \<le> r" and "find_free_pages m t p n =
        Inr (Some \<lparr>iter_start = page_plus p k, iter_end = page_plus (page_plus p k) (n - 1)\<rparr>)"
    and "page_ok (page_plus p k)" and "canonical_num (page_plus p k) + n < 2 ^ 36"
    and "\<forall>x\<in>set (pages_from (page_plus p k) n). view m t x = Unmapped \<and> page_ok x"
    and "distinct (map canonical_num (pages_from (page_plus p k) n))"
proof -
  have "find_free_pages m t p n \<noteq> Inr None"
  proof
    assume "find_free_pages m t p n = Inr None"
    then have "\<exists>j. r \<le> j \<and> j < r + n \<and> view m t (page_plus p j) \<noteq> Unmapped"
      using find_free_pages_spec [OF hh p n] less_imp_le [OF run(1)] by auto
    with run(2) show False by blast
  qed
  then obtain k where k: "find_free_pages m t p n =
        Inr (Some \<lparr>iter_start = page_plus p k, iter_end = page_plus p (k + n - 1)\<rparr>)"
      "\<forall>j. k \<le> j \<and> j < k + n \<longrightarrow> view m t (page_plus p j) = Unmapped"
      "\<forall>i<k. \<exists>j. i \<le> j \<and> j < i + n \<and> view m t (page_plus p j) \<noteq> Unmapped"
    using find_free_pages_spec [OF hh p n] by blast
  have kr: "k \<le> r" using k(3) run(2) by (meson not_le)
  have q: "page_ok (page_plus p k)" "canonical_num (page_plus p k) = canonical_num p + k"
    using page_plus_nums [OF p, of k] run(1) kr by auto
  have top: "canonical_num (page_plus p k) + n < 2 ^ 36" using q run(1) kr by simp
  show ?thesis
  proof (rule that [OF kr _ q(1) top])
    show "find_free_pages m t p n =
        Inr (Some \<lparr>iter_start = page_plus p k, iter_end = page_plus (page_plus p k) (n - 1)\<rparr>)"
      using k(1) n by (simp add: page_plus_plus)
    show "\<forall>x\<in>set (pages_from (page_plus p k) n). view m t x = Unmapped \<and> page_ok x"
      using k(2) page_plus_nums(3) [OF q(1)] top by (auto simp: set_pages_from page_plus_plus)
    show "distinct (map canonical_num (pages_from (page_plus p k) n))"
      using distinct_pages [OF q(1)] top by (simp add: pages_from_def)
  qed
qed

context frame_allocator
begin

lemma alloc_page_body_spec:
  assumes "inv (physical_allocator inner)" and "4 \<le> room (physical_allocator inner)"
    and "space_ok m t (stock (physical_allocator inner) - used (physical_allocator inner) \<union> G)"
    and "G \<inter> stock (physical_allocator inner) \<subseteq> used (physical_allocator inner)" and "view m t p = Unmapped" and "page_ok p"
  obtains f m' s' where
    "alloc_page_body alloc t p (m, inner) = Inr (m', inner\<lparr>physical_allocator := s'\<rparr>)"
    and "f \<in> stock (physical_allocator inner)" and "f \<notin> used (physical_allocator inner)" and "f \<in> used s'"
    and "kept 4 (physical_allocator inner) s'"
    and "space_ok m' t (stock s' - used s' \<union> insert f G)"
    and "view m' t = (\<lambda>q. if canonical_num q = canonical_num p then Mapped (page_entry_for f) else view m t q)"
    and "hhdm m' = hhdm m" and "cr3 m' = cr3 m" and "stores m' = stores m"
    and "invalidated m' = invalidated m @ [num p * PAGE_SIZE]" and "root_kept t {level4_idx p} m m'"
proof -
  let ?s = "physical_allocator inner"
  obtain f s1 where f: "alloc ?s = Inr (f, s1)" "kept 1 ?s s1" "f \<in> stock ?s" "f \<notin> used ?s" "used s1 = insert f (used ?s)"
    using kept_alloc [OF assms(1)] assms(2) by fastforce
  have s1: "inv s1" "stock s1 = stock ?s" "3 \<le> room s1" using f(2) assms(2) by (auto simp: kept_def)
  have F: "stock s1 - used s1 \<union> insert f G = stock ?s - used ?s \<union> G" using f(3-5) s1(2) by auto
  obtain m2 s2 where m2: "map_page_unchecked alloc t p f page_flags (m, s1) = Inr (m2, s2)"
      "space_ok m2 t (stock s2 - used s2 \<union> insert f G)"
      "view m2 t = (\<lambda>q. if canonical_num q = canonical_num p then Mapped (page_entry_for f) else view m t q)"
      "kept 3 s1 s2" "same_regs m m2" "root_kept t {level4_idx p} m m2"
    by (rule map_page_spec [of s1 m t "insert f G" p f page_flags, unfolded F])
       (use assms f(3,5) s1 stock_ok [OF assms(1) f(3)] in auto)
  let ?m' = "invlpg (num p * PAGE_SIZE) m2"
  have "kept 4 ?s s2" "f \<in> used s2" using kept_trans [OF f(2) m2(4)] m2(4) f(5) by (auto simp: kept_def)
  moreover have "alloc_page_body alloc t p (m, inner) = Inr (?m', inner\<lparr>physical_allocator := s2\<rparr>)"
    using f(1) m2(1) assms(6) by (simp add: alloc_page_body_def virt_from_page_ok)
  ultimately show ?thesis
    by (intro that [of ?m' s2 f])
       (use f m2 space_ok_cong [of ?m' m2] view_cong [of ?m' m2] in \<open>auto simp: same_regs_def root_kept_def\<close>)
qed


lemma alloc_loop_spec:
  assumes "inv (physical_allocator inner)" and "4 * length ps \<le> room (physical_allocator inner)"
    and "space_ok m t (stock (physical_allocator inner) - used (physical_allocator inner) \<union> G)"
    and "G \<inter> stock (physical_allocator inner) \<subseteq> used (physical_allocator inner)"
    and "\<forall>p\<in>set ps. view m t p = Unmapped \<and> page_ok p" and "distinct (map canonical_num ps)"
  shows "\<exists>fs m' s'.
    for_list (alloc_page_body alloc t) ps (m, inner) = Inr (m', inner\<lparr>physical_allocator := s'\<rparr>) \<and>
    length fs = length ps \<and> distinct fs \<and> set fs \<subseteq> stock (physical_allocator inner) \<and>
    set fs \<inter> used (physical_allocator inner) = {} \<and> set fs \<subseteq> used s' \<and>
    kept (4 * length ps) (physical_allocator inner) s' \<and>
    space_ok m' t (stock s' - used s' \<union> (set fs \<union> G)) \<and> view m' t = map_pages (view m t) ps fs \<and>
    hhdm m' = hhdm m \<and> cr3 m' = cr3 m \<and> stores m' = stores m \<and>
    invalidated m' = invalidated m @ map (\<lambda>p. num p * PAGE_SIZE) ps \<and> root_kept t (level4_idx ` set ps) m m'"
  using assms
proof (induction ps arbitrary: m inner G)
  case Nil
  then show ?case
    by (intro exI [of _ "[]"] exI [of _ m] exI [of _ "physical_allocator inner"]) (simp add: kept_refl)
next
  case (Cons p ps)
  let ?s = "physical_allocator inner"
  obtain f m1 s1 where 1: "alloc_page_body alloc t p (m, inner) = Inr (m1, inner\<lparr>physical_allocator := s1\<rparr>)"
      "f \<in> stock ?s" "f \<notin> used ?s" "f \<in> used s1" "kept 4 ?s s1" "space_ok m1 t (stock s1 - used s1 \<union> insert f G)"
      "view m1 t = (\<lambda>q. if canonical_num q = canonical_num p then Mapped (page_entry_for f) else view m t q)"
      "hhdm m1 = hhdm m" "cr3 m1 = cr3 m" "stores m1 = stores m"
      "invalidated m1 = invalidated m @ [num p * PAGE_SIZE]" "root_kept t {level4_idx p} m m1"
    by (rule alloc_page_body_spec [of inner m t G p]) (use Cons.prems in auto)
  let ?inner = "inner\<lparr>physical_allocator := s1\<rparr>"
  have "\<forall>q\<in>set ps. view m1 t q = Unmapped \<and> page_ok q"
    using Cons.prems(5,6) 1(7) by (auto simp: image_iff)
  moreover have s1: "insert f G \<inter> stock s1 \<subseteq> used s1" "inv s1" "4 * length ps \<le> room s1" "stock s1 = stock ?s" "used ?s \<subseteq> used s1"
    using Cons.prems(2,4) 1(4,5) by (auto simp: kept_def)
  ultimately obtain fs m' s' where 2:
      "for_list (alloc_page_body alloc t) ps (m1, ?inner) = Inr (m', ?inner\<lparr>physical_allocator := s'\<rparr>)"
      "length fs = length ps" "distinct fs" "set fs \<subseteq> stock s1" "set fs \<inter> used s1 = {}"
      "set fs \<subseteq> used s'" "kept (4 * length ps) s1 s'"
      "space_ok m' t (stock s' - used s' \<union> (set fs \<union> insert f G))"
      "view m' t = map_pages (view m1 t) ps fs"
      "hhdm m' = hhdm m1" "cr3 m' = cr3 m1" "stores m' = stores m1"
      "invalidated m' = invalidated m1 @ map (\<lambda>p. num p * PAGE_SIZE) ps" "root_kept t (level4_idx ` set ps) m1 m'"
    using Cons.IH [of ?inner m1 "insert f G"] Cons.prems(6) 1(6) by auto
  have "kept (4 * length (p # ps)) ?s s'" using kept_trans [OF 1(5) 2(7)] by simp
  moreover have "f \<in> used s'" using 2(7) 1(4) by (auto simp: kept_def)
  moreover have "root_kept t (level4_idx ` set (p # ps)) m m'" using root_kept_trans [OF 1(12) 2(14)] by simp
  ultimately show ?case
    by (intro exI [of _ "f # fs"] exI [of _ m'] exI [of _ s'])
       (use 1 2 s1(4,5) in \<open>auto simp: Un_insert_right Un_assoc\<close>)
qed

lemma alloc_pages_spec:
  assumes s: "s = physical_allocator inner" and last: "p = last_page_alloc inner"
    and inv: "inv s" and room: "4 * n \<le> room s" and n: "0 < n" and p: "page_ok p"
    and cr3: "unat (cr3 m) < 2 ^ 47" and ok: "space_ok m (root m) (stock s - used s \<union> G)" and G: "G \<inter> stock s \<subseteq> used s"
    and run: "canonical_num p + r + n < 2 ^ 36"
      "\<forall>j. r \<le> j \<and> j < r + n \<longrightarrow> view m (root m) (page_plus p j) = Unmapped"
  shows "\<exists>k fs m' s'. k \<le> r \<and>
    alloc_pages alloc n (m, inner) = Inr (Some \<lparr>first_page = page_plus p k, page_amount = n\<rparr>, m',
      inner\<lparr>physical_allocator := s', last_page_alloc := page_plus p (k + n - 1)\<rparr>) \<and>
    (\<forall>q\<in>set (pages_from (page_plus p k) n). view m (root m) q = Unmapped) \<and>
    length fs = n \<and> distinct fs \<and> set fs \<subseteq> stock s \<and> set fs \<inter> used s = {} \<and> set fs \<subseteq> used s' \<and>
    kept (4 * n) s s' \<and>
    space_ok m' (root m) (stock s' - used s' \<union> (set fs \<union> G)) \<and>
    view m' (root m) = map_pages (view m (root m)) (pages_from (page_plus p k) n) fs \<and>
    hhdm m' = hhdm m \<and> cr3 m' = cr3 m \<and> stores m' = stores m \<and>
    invalidated m' = invalidated m @ map (\<lambda>p. num p * PAGE_SIZE) (pages_from (page_plus p k) n) \<and>
    root_kept (root m) (level4_idx ` set (pages_from (page_plus p k) n)) m m'"
proof -
  have hh: "hhdm_ok m (root m)" using ok by (simp add: space_ok_def)
  let ?q = "\<lambda>k. page_plus p k" and ?qs = "\<lambda>k. pages_from (page_plus p k) n"
  obtain k where kr: "k \<le> r" and k: "find_free_pages m (root m) p n =
        Inr (Some \<lparr>iter_start = ?q k, iter_end = page_plus (?q k) (n - 1)\<rparr>)"
      "page_ok (?q k)" "canonical_num (?q k) + n < 2 ^ 36"
      "\<forall>x\<in>set (?qs k). view m (root m) x = Unmapped \<and> page_ok x" "distinct (map canonical_num (?qs k))"
    by (rule first_run [OF hh p n run])
  let ?q = "page_plus p k" and ?ps = "pages_from (page_plus p k) n"
  have e: "page_plus ?q (n - 1) = page_plus p (k + n - 1)" using n by (simp add: page_plus_plus)
  let ?inner = "inner\<lparr>last_page_alloc := page_plus p (k + n - 1)\<rparr>"
  have pi: "physical_allocator ?inner = s" by (simp add: s)
  have "\<exists>fs m' s'.
    for_list (alloc_page_body alloc (root m)) ?ps (m, ?inner) = Inr (m', ?inner\<lparr>physical_allocator := s'\<rparr>) \<and>
    length fs = length ?ps \<and> distinct fs \<and> set fs \<subseteq> stock s \<and>
    set fs \<inter> used s = {} \<and> set fs \<subseteq> used s' \<and> kept (4 * length ?ps) s s' \<and> space_ok m' (root m) (stock s' - used s' \<union> (set fs \<union> G)) \<and>
    view m' (root m) = map_pages (view m (root m)) ?ps fs \<and>
    hhdm m' = hhdm m \<and> cr3 m' = cr3 m \<and> stores m' = stores m \<and>
    invalidated m' = invalidated m @ map (\<lambda>p. num p * PAGE_SIZE) ?ps \<and> root_kept (root m) (level4_idx ` set ?ps) m m'"
    using alloc_loop_spec [of ?inner ?ps m "root m" G] inv room ok G k(4,5) unfolding pi by simp
  then obtain fs m' s' where loop:
    "for_list (alloc_page_body alloc (root m)) ?ps (m, ?inner) = Inr (m', ?inner\<lparr>physical_allocator := s'\<rparr>)"
    and rest: "length fs = length ?ps" "distinct fs" "set fs \<subseteq> stock s"
    "set fs \<inter> used s = {}" "set fs \<subseteq> used s'" "kept (4 * length ?ps) s s'" "space_ok m' (root m) (stock s' - used s' \<union> (set fs \<union> G))"
    "view m' (root m) = map_pages (view m (root m)) ?ps fs"
    "hhdm m' = hhdm m" "cr3 m' = cr3 m" "stores m' = stores m"
    "invalidated m' = invalidated m @ map (\<lambda>p. num p * PAGE_SIZE) ?ps" "root_kept (root m) (level4_idx ` set ?ps) m m'"
    by blast
  have "for_pages \<lparr>iter_start = ?q, iter_end = page_plus p (k + n - 1)\<rparr>
      (alloc_page_body alloc (root m)) (m, ?inner) = Inr (m', ?inner\<lparr>physical_allocator := s'\<rparr>)"
    using for_pages_for_list [OF k(2,3) n, of "alloc_page_body alloc (root m)" "(m, ?inner)"] loop e
    by (simp add: pages_from_def)
  then have "alloc_pages alloc n (m, inner) = Inr (Some \<lparr>first_page = ?q, page_amount = n\<rparr>, m',
      inner\<lparr>physical_allocator := s', last_page_alloc := page_plus p (k + n - 1)\<rparr>)"
    using current_eq [OF walk_low(1) [OF hh] cr3] k(1) e
    by (simp add: alloc_pages_def root_def [symmetric] last [symmetric] Let_def
        page_iter_first_def last_page_def)
  with kr k(4) rest show ?thesis by (intro exI [of _ k] exI [of _ fs] exI [of _ m'] exI [of _ s']) simp
qed

lemma dealloc_page_body_spec:
  assumes s: "s = physical_allocator inner" and inv: "inv s"
    and ok: "space_ok m t (stock s - used s \<union> insert (addr e) G)"
    and e: "view m t p = Mapped e" "addr e \<in> used s" and p: "page_ok p"
  shows "\<exists>m' s'. dealloc_page_body release t p (m, inner) = Inr (m', inner\<lparr>physical_allocator := s'\<rparr>) \<and>
    inv s' \<and> pool s' = pool s \<and> stock s' = stock s \<and> room s \<le> room s' \<and> used s' = used s - {addr e} \<and>
    space_ok m' t (stock s' - used s' \<union> G) \<and> view m' t = unmap_pages (view m t) [p] \<and>
    hhdm m' = hhdm m \<and> cr3 m' = cr3 m \<and> stores m' = stores m \<and>
    invalidated m' = invalidated m @ [num p * PAGE_SIZE] \<and> root_kept t {} m m'"
proof -
  have hh: "hhdm_ok m t" using ok by (simp add: space_ok_def)
  obtain t1 where t1: "page_entry_mut m t p = Inr (Some (t1, level1_idx p))"
      "table_at m 4 t (walk p) = Some t1" "tables m t1 (level1_idx p) = e"
    by (rule page_entry_mut_Mapped [OF hh e(1)])
  obtain s' where s': "release s (addr e) = Inr s'" "inv s'" "stock s' = stock s" "used s' = used s - {addr e}"
      "pool s' = pool s" "room s \<le> room s'"
    using release_spec [OF inv e(2)] by auto
  let ?m1 = "put_entry m t1 (level1_idx p) (PageTableEntry 0)"
  let ?m' = "invlpg (num p * PAGE_SIZE) ?m1"
  have "dealloc_page_body release t p (m, inner) = Inr (?m', inner\<lparr>physical_allocator := s'\<rparr>)"
    using t1 s' p by (simp add: dealloc_page_body_def s virt_from_page_ok)
  moreover have "stock s' - used s' \<union> G \<subseteq> stock s - used s \<union> insert (addr e) G" using s' by auto
  note space_put [OF space_ok_mono [OF ok this] t1(2) refl, of "PageTableEntry 0"]
  moreover have "root_kept t {} m ?m'"
    using root_kept_put [OF _ t1(2), of "level1_idx p" "PageTableEntry 0"] ok by (simp add: space_ok_def root_kept_def)
  ultimately show ?thesis using s' space_ok_cong [of ?m' ?m1] view_cong [of ?m' ?m1]
    by (intro exI [of _ ?m'] exI [of _ s']) (auto simp: unmap_pages_def)
qed


lemma dealloc_loop_spec:
  assumes "inv (physical_allocator inner)" and "length es = length ps"
    and "space_ok m t (stock (physical_allocator inner) - used (physical_allocator inner) \<union> (addr ` set es \<union> G))"
    and "\<forall>j<length ps. view m t (ps ! j) = Mapped (es ! j) \<and> page_ok (ps ! j)"
    and "addr ` set es \<subseteq> used (physical_allocator inner)"
    and "distinct (map addr es)" and "distinct (map canonical_num ps)"
  shows "\<exists>m' s'. for_list (dealloc_page_body release t) ps (m, inner) = Inr (m', inner\<lparr>physical_allocator := s'\<rparr>) \<and>
    inv s' \<and> pool s' = pool (physical_allocator inner) \<and> stock s' = stock (physical_allocator inner) \<and>
    room (physical_allocator inner) \<le> room s' \<and> used s' = used (physical_allocator inner) - addr ` set es \<and>
    space_ok m' t (stock s' - used s' \<union> G) \<and> view m' t = unmap_pages (view m t) ps \<and>
    hhdm m' = hhdm m \<and> cr3 m' = cr3 m \<and> stores m' = stores m \<and>
    invalidated m' = invalidated m @ map (\<lambda>p. num p * PAGE_SIZE) ps \<and> root_kept t {} m m'"
  using assms
proof (induction ps arbitrary: m inner es)
  case Nil
  then show ?case
    by (intro exI [of _ m] exI [of _ "physical_allocator inner"]) (simp add: unmap_pages_def fun_eq_iff)
next
  case (Cons p ps)
  let ?s = "physical_allocator inner"
  obtain e es' where es: "es = e # es'" using Cons.prems(2) by (cases es) auto
  have p: "view m t p = Mapped e" "page_ok p" using Cons.prems(4) es by auto
  have "space_ok m t (stock ?s - used ?s \<union> insert (addr e) (addr ` set es' \<union> G))"
    using Cons.prems(3) es by simp
  from dealloc_page_body_spec [OF refl Cons.prems(1) this p(1) _ p(2)] Cons.prems(5) es
  obtain m1 s1 where 1: "dealloc_page_body release t p (m, inner) = Inr (m1, inner\<lparr>physical_allocator := s1\<rparr>)"
      "inv s1" "stock s1 = stock ?s" "used s1 = used ?s - {addr e}"
      "space_ok m1 t (stock s1 - used s1 \<union> (addr ` set es' \<union> G))" "view m1 t = unmap_pages (view m t) [p]"
      "hhdm m1 = hhdm m" "cr3 m1 = cr3 m" "stores m1 = stores m"
      "invalidated m1 = invalidated m @ [num p * PAGE_SIZE]" "pool s1 = pool ?s" "room ?s \<le> room s1" "root_kept t {} m m1"
    by auto
  let ?inner = "inner\<lparr>physical_allocator := s1\<rparr>"
  have "view m1 t (ps ! j) = Mapped (es' ! j) \<and> page_ok (ps ! j)" if "j < length ps" for j
  proof -
    have "canonical_num (ps ! j) \<noteq> canonical_num p"
      using Cons.prems(7) nth_mem [OF that] by (force simp: image_iff)
    then show ?thesis using Cons.prems(4) es that 1(6) by (auto simp: unmap_pages_def)
  qed
  moreover have "addr ` set es' \<subseteq> used s1" using Cons.prems(5,6) es 1(4) by (simp add: subset_Diff_insert)
  ultimately obtain m' s' where 2:
      "for_list (dealloc_page_body release t) ps (m1, ?inner) = Inr (m', ?inner\<lparr>physical_allocator := s'\<rparr>)"
      "inv s'" "stock s' = stock s1" "used s' = used s1 - addr ` set es'"
      "space_ok m' t (stock s' - used s' \<union> G)" "view m' t = unmap_pages (view m1 t) ps"
      "hhdm m' = hhdm m1" "cr3 m' = cr3 m1" "stores m' = stores m1"
      "invalidated m' = invalidated m1 @ map (\<lambda>p. num p * PAGE_SIZE) ps" "pool s' = pool s1" "room s1 \<le> room s'"
      "root_kept t {} m1 m'"
    using Cons.IH [of ?inner es' m1] Cons.prems(2,6,7) es 1(2,5) by auto
  have "unmap_pages (view m1 t) ps = unmap_pages (view m t) (p # ps)"
    by (auto simp: 1(6) unmap_pages_def fun_eq_iff)
  moreover have "root_kept t {} m m'" using root_kept_trans [OF 1(13) 2(13)] by simp
  ultimately show ?case
    by (intro exI [of _ m'] exI [of _ s']) (use 1 2 es in auto)
qed

lemma dealloc_pages_spec:
  assumes s: "s = physical_allocator inner" and inv: "inv s" and n: "0 < n" and p: "page_ok p"
    and top: "canonical_num p + n < 2 ^ 36" and cr3: "unat (cr3 m) < 2 ^ 47"
    and ok: "space_ok m (root m) (stock s - used s \<union> (addr ` set es \<union> G))" and len: "length es = n"
    and mapped: "\<forall>j<n. view m (root m) (page_plus p j) = Mapped (es ! j)"
    and us: "addr ` set es \<subseteq> used s" and dist: "distinct (map addr es)"
  shows "\<exists>m' s'. dealloc_pages release \<lparr>first_page = p, page_amount = n\<rparr> (m, inner)
      = Inr (m', inner\<lparr>physical_allocator := s'\<rparr>) \<and>
    inv s' \<and> pool s' = pool s \<and> stock s' = stock s \<and> room s \<le> room s' \<and> used s' = used s - addr ` set es \<and>
    space_ok m' (root m) (stock s' - used s' \<union> G) \<and>
    view m' (root m) = unmap_pages (view m (root m)) (pages_from p n) \<and>
    hhdm m' = hhdm m \<and> cr3 m' = cr3 m \<and> stores m' = stores m \<and>
    invalidated m' = invalidated m @ map (\<lambda>p. num p * PAGE_SIZE) (pages_from p n) \<and> root_kept (root m) {} m m'"
proof -
  have hh: "hhdm_ok m (root m)" using ok by (simp add: space_ok_def)
  have n36: "n - 1 < 2 ^ 36" using top by simp
  have "unat (of_nat n :: u64) = n" using n36 by (intro unat_of_nat_less) simp
  then have "(1 :: u64) \<le> of_nat n" using n by (simp add: word_le_nat_alt)
  then have sub: "chk_sub (of_nat n) (1 :: u64) = Inr (of_nat (n - 1))"
    using n by (simp add: chk_sub_def of_nat_diff)
  have nb: "next_by p (of_nat (n - 1)) = Inr (Some (page_plus p (n - 1)))"
    using next_by_page_plus [OF p n36] top by simp
  have dc: "distinct (map canonical_num (pages_from p n))"
    using distinct_pages [OF p] top by (simp add: pages_from_def)
  have pgs: "\<forall>j<length (pages_from p n). view m (root m) (pages_from p n ! j) = Mapped (es ! j) \<and>
      page_ok (pages_from p n ! j)"
    using mapped page_plus_nums(3) [OF p] top by simp
  have "dealloc_pages release \<lparr>first_page = p, page_amount = n\<rparr> (m, inner) =
      for_list (dealloc_page_body release (root m)) (pages_from p n) (m, inner)"
    using sub nb current_eq [OF walk_low(1) [OF hh] cr3] for_pages_for_list [OF p top n]
    by (simp add: dealloc_pages_def root_def pages_from_def)
  with dealloc_loop_spec [of inner es "pages_from p n" m "root m" G] show ?thesis
    using inv len ok pgs us dist dc unfolding s by simp
qed

end

section \<open>Mapping a physical address\<close>

lemma physical_allocator_upd_inject [simp]:
  "inner\<lparr>physical_allocator := a\<rparr> = inner\<lparr>physical_allocator := b\<rparr> \<longleftrightarrow> a = b"
  by (cases inner) simp

definition frames_from :: "phy_addr \<Rightarrow> nat \<Rightarrow> phy_addr list" where
  "frames_from a n = map (frame_plus a) [0..<n]"

lemma frames_from_0 [simp]: "frames_from a 0 = []"
  by (simp add: frames_from_def)

lemma frame_plus_Suc: "frame_plus (frame_plus a (Suc 0)) k = frame_plus a (Suc k)"
  by (simp add: frame_plus_def algebra_simps)

lemma frames_from_Suc: "frames_from a (Suc n) = a # frames_from (frame_plus a 1) n"
  by (simp add: frames_from_def map_upt_Suc frame_plus_Suc del: upt_Suc)

lemma length_frames_from [simp]: "length (frames_from a n) = n"
  by (simp add: frames_from_def)

lemma nth_frames_from [simp]: "j < n \<Longrightarrow> frames_from a n ! j = frame_plus a j"
  by (simp add: frames_from_def)

lemma set_frames_from: "set (frames_from a n) = frame_plus a ` {..<n}"
  by (auto simp: frames_from_def)

text \<open>Clearing a page writes its 4096 bytes and leaves the tables alone.\<close>

lemma store_zero_loop:
  assumes "page_ok p" and "\<forall>i\<in>set is. i < page_size"
  shows "for_list (store_zero p) is m =
    Inr (m\<lparr>stores := stores m @ map (\<lambda>i. (num p * PAGE_SIZE + of_nat i, 0)) is\<rparr>)"
  using assms(2)
proof (induction "is" arbitrary: m)
  case (Cons i "is")
  have "unat (num p) < 2 ^ 52" using assms(1) by (simp add: page_ok_def)
  moreover from this have "unat (num p * PAGE_SIZE) = unat (num p) * 4096"
    by (simp add: unat_word_ariths)
  moreover have "i < 4096" using Cons.prems by (simp add: page_size_def)
  ultimately have "unat (num p * PAGE_SIZE) + unat (of_nat i :: u64) < 2 ^ 64" by simp
  then have "store_zero p i m = Inr (m\<lparr>stores := stores m @ [(num p * PAGE_SIZE + of_nat i, 0)]\<rparr>)"
    using assms(1) by (simp add: store_zero_def virt_from_page_ok run_simps)
  then show ?case using Cons by simp
qed simp

context frame_allocator
begin

lemma map_physical_body_spec:
  assumes "s = physical_allocator inner" and "inv s" and "3 \<le> room s" and "space_ok m t (stock s - used s \<union> G)"
    and "G \<inter> stock s \<subseteq> used s" and "view m t p = Unmapped" and "page_ok p" and "frame_ok a"
  obtains m' s' where
    "map_physical_body alloc t p (a, m, inner) = Inr (frame_plus a 1, m', inner\<lparr>physical_allocator := s'\<rparr>)"
    and "kept 3 s s'" and "space_ok m' t (stock s' - used s' \<union> G)"
    and "view m' t = (\<lambda>q. if canonical_num q = canonical_num p then Mapped (page_entry_for a) else view m t q)"
    and "hhdm m' = hhdm m" and "cr3 m' = cr3 m" and "invalidated m' = invalidated m"
    and "phy_u64 a \<noteq> 0xfee00000 \<Longrightarrow> stores m' = stores m"
proof -
  obtain m2 s2 where m2: "map_page_unchecked alloc t p a page_flags (m, s) = Inr (m2, s2)"
      "space_ok m2 t (stock s2 - used s2 \<union> G)"
      "view m2 t = (\<lambda>q. if canonical_num q = canonical_num p then Mapped (page_entry_for a) else view m t q)"
      "kept 3 s s2" "same_regs m m2"
    by (rule map_page_spec [of s m t G p a page_flags]) (use assms in auto)
  let ?log = "stores m2 @ map (\<lambda>i. (num p * PAGE_SIZE + of_nat i, 0)) [0..<page_size]"
  let ?m' = "if phy_u64 a = 0xfee00000 then m2\<lparr>stores := ?log\<rparr> else m2"
  have "(if phy_u64 a = 0xfee00000 then for_list (store_zero p) [0..<page_size] m2 else Inr m2) = Inr ?m'"
    using store_zero_loop [OF assms(7), of "[0..<page_size]" m2] by simp
  moreover have "chk_add (phy_u64 a) frame_size = Inr (phy_u64 a + frame_size)"
    using assms(8) by (simp add: run_simps frame_ok_def)
  ultimately have "map_physical_body alloc t p (a, m, inner) =
      Inr (frame_plus a 1, ?m', inner\<lparr>physical_allocator := s2\<rparr>)"
    using m2(1) assms(1) by (simp add: map_physical_body_def frame_plus_def)
  then show ?thesis
    by (rule that [of ?m' s2])
       (use m2 space_ok_cong [of ?m' m2] view_cong [of ?m' m2] in \<open>auto simp: same_regs_def\<close>)
qed

lemma map_physical_loop_spec:
  assumes "inv (physical_allocator inner)" and "3 * length ps \<le> room (physical_allocator inner)"
    and "space_ok m t (stock (physical_allocator inner) - used (physical_allocator inner) \<union> G)"
    and "G \<inter> stock (physical_allocator inner) \<subseteq> used (physical_allocator inner)"
    and "\<forall>p\<in>set ps. view m t p = Unmapped \<and> page_ok p" and "distinct (map canonical_num ps)"
    and "\<forall>f\<in>set (frames_from a (length ps)). frame_ok f"
  shows "\<exists>m' s'. for_list (map_physical_body alloc t) ps (a, m, inner) =
      Inr (frame_plus a (length ps), m', inner\<lparr>physical_allocator := s'\<rparr>) \<and>
    kept (3 * length ps) (physical_allocator inner) s' \<and>
    space_ok m' t (stock s' - used s' \<union> G) \<and>
    view m' t = map_pages (view m t) ps (frames_from a (length ps)) \<and>
    hhdm m' = hhdm m \<and> cr3 m' = cr3 m \<and> invalidated m' = invalidated m \<and>
    (PhyAddr 0xfee00000 \<notin> set (frames_from a (length ps)) \<longrightarrow> stores m' = stores m)"
  using assms
proof (induction ps arbitrary: a m inner)
  case Nil
  then show ?case by (intro exI [of _ m] exI [of _ "physical_allocator inner"]) (simp add: kept_refl)
next
  case (Cons p ps)
  let ?s = "physical_allocator inner"
  obtain m1 s1 where 1:
      "map_physical_body alloc t p (a, m, inner) = Inr (frame_plus a 1, m1, inner\<lparr>physical_allocator := s1\<rparr>)"
      "kept 3 ?s s1" "space_ok m1 t (stock s1 - used s1 \<union> G)"
      "view m1 t = (\<lambda>q. if canonical_num q = canonical_num p then Mapped (page_entry_for a) else view m t q)"
      "hhdm m1 = hhdm m" "cr3 m1 = cr3 m" "invalidated m1 = invalidated m"
      "phy_u64 a \<noteq> 0xfee00000 \<Longrightarrow> stores m1 = stores m"
    by (rule map_physical_body_spec [OF refl, of inner m t G p a])
       (use Cons.prems in \<open>auto simp: frames_from_Suc\<close>)
  let ?inner = "inner\<lparr>physical_allocator := s1\<rparr>"
  have "\<forall>q\<in>set ps. view m1 t q = Unmapped \<and> page_ok q"
    using Cons.prems(5,6) 1(4) by (auto simp: image_iff)
  moreover have "G \<inter> stock s1 \<subseteq> used s1" "inv s1" "3 * length ps \<le> room s1"
    using Cons.prems(2,4) 1(2) by (auto simp: kept_def)
  ultimately have "\<exists>m' s'. for_list (map_physical_body alloc t) ps (frame_plus a 1, m1, ?inner) =
      Inr (frame_plus (frame_plus a 1) (length ps), m', ?inner\<lparr>physical_allocator := s'\<rparr>) \<and>
    kept (3 * length ps) s1 s' \<and>
    space_ok m' t (stock s' - used s' \<union> G) \<and>
    view m' t = map_pages (view m1 t) ps (frames_from (frame_plus a 1) (length ps)) \<and>
    hhdm m' = hhdm m1 \<and> cr3 m' = cr3 m1 \<and> invalidated m' = invalidated m1 \<and>
    (PhyAddr 0xfee00000 \<notin> set (frames_from (frame_plus a 1) (length ps)) \<longrightarrow> stores m' = stores m1)"
    using Cons.IH [of ?inner m1 "frame_plus a 1"] Cons.prems(6,7) 1(3)
    by (simp add: frames_from_Suc)
  then obtain m' s' where 2:
      "for_list (map_physical_body alloc t) ps (frame_plus a 1, m1, ?inner) =
        Inr (frame_plus (frame_plus a 1) (length ps), m', ?inner\<lparr>physical_allocator := s'\<rparr>)"
      "kept (3 * length ps) s1 s'" "space_ok m' t (stock s' - used s' \<union> G)"
      "view m' t = map_pages (view m1 t) ps (frames_from (frame_plus a 1) (length ps))"
      "hhdm m' = hhdm m1" "cr3 m' = cr3 m1" "invalidated m' = invalidated m1"
      "PhyAddr 0xfee00000 \<notin> set (frames_from (frame_plus a 1) (length ps)) \<longrightarrow> stores m' = stores m1"
    by blast
  have "PhyAddr 0xfee00000 \<noteq> a \<Longrightarrow> stores m1 = stores m" using 1(8) by (cases a) auto
  moreover have "kept (3 * length (p # ps)) ?s s'" using kept_trans [OF 1(2) 2(2)] by simp
  ultimately show ?case using 1(1,3-7) 2
    by (intro exI [of _ m'] exI [of _ s']) (auto simp: frames_from_Suc frame_plus_Suc)
qed

lemma map_physical_spec:
  assumes s: "s = physical_allocator inner" and last: "p = last_page_alloc inner" and inv: "inv s"
    and d: "d = unat a mod 4096" and f: "f = PhyAddr (of_nat (unat a - d))"
    and np: "np = n + (if d = 0 then 0 else 1)" and n: "0 < np" and room: "4 * np \<le> room s"
    and p: "page_ok p" and cr3: "unat (cr3 m) < 2 ^ 47"
    and ok: "space_ok m (root m) (stock s - used s \<union> G)" and G: "G \<inter> stock s \<subseteq> used s"
    and frames: "\<forall>k<np. frame_plus f k \<in> pool s \<and> frame_plus f k \<notin> used s"
    and apart: "tables_avoid m (root m) (set (frames_from f np))"
    and run: "canonical_num p + r + np < 2 ^ 36"
      "\<forall>j. r \<le> j \<and> j < r + np \<longrightarrow> view m (root m) (page_plus p j) = Unmapped"
  shows "\<exists>k m' s'. k \<le> r \<and> map_physical alloc release alloc_at (PhyAddr a) n (m, inner) =
      Inr (Some (\<lparr>first_page = page_plus p k, page_amount = np\<rparr>,
          VirtAddr (num (page_plus p k) * PAGE_SIZE + of_nat d)), m', inner\<lparr>physical_allocator := s'\<rparr>) \<and>
    (\<forall>q\<in>set (pages_from (page_plus p k) np). view m (root m) q = Unmapped) \<and>
    inv s' \<and> pool s' = pool s \<and> stock s' = stock s \<and> room s \<le> room s' + 4 * np \<and>
    used s \<union> set (frames_from f np) \<subseteq> used s' \<and> used s' \<subseteq> used s \<union> set (frames_from f np) \<union> stock s \<and>
    space_ok m' (root m) (stock s' - used s' \<union> (set (frames_from f np) \<union> G)) \<and>
    view m' (root m) = map_pages (view m (root m)) (pages_from (page_plus p k) np) (frames_from f np) \<and>
    hhdm m' = hhdm m \<and> cr3 m' = cr3 m"
proof -
  have hh: "hhdm_ok m (root m)" using ok by (simp add: space_ok_def)
  obtain k where kr: "k \<le> r" and k: "find_free_pages m (root m) p np =
        Inr (Some \<lparr>iter_start = page_plus p k, iter_end = page_plus (page_plus p k) (np - 1)\<rparr>)"
      "page_ok (page_plus p k)" "canonical_num (page_plus p k) + np < 2 ^ 36"
      "\<forall>x\<in>set (pages_from (page_plus p k) np). view m (root m) x = Unmapped \<and> page_ok x"
      "distinct (map canonical_num (pages_from (page_plus p k) np))"
    by (rule first_run [OF hh p n run])
  let ?q = "page_plus p k" and ?ps = "pages_from (page_plus p k) np"
  have f0: "f \<in> pool s" using frames n by force
  obtain s1 where s1: "alloc_at s f np = Inr (Some f, s1)" "inv s1" "stock s1 = stock s"
      "used s1 = used s \<union> set (frames_from f np)" "room s \<le> room s1 + np" "pool s1 = pool s"
    using alloc_at_spec [OF inv f0 frames] by (auto simp: set_frames_from)
  let ?inner = "inner\<lparr>physical_allocator := s1\<rparr>"
  let ?G = "set (frames_from f np) \<union> G"
  have "stock s1 - used s1 \<union> ?G \<subseteq> stock s - used s \<union> G \<union> set (frames_from f np)" using s1(3,4) by auto
  from space_ok_mono [OF _ this] have F: "space_ok m (root m) (stock s1 - used s1 \<union> ?G)"
    using ok apart by (simp only: space_ok_Un)
  have G1: "?G \<inter> stock s1 \<subseteq> used s1" using G s1(3,4) by auto
  have fok: "\<forall>x\<in>set (frames_from f np). frame_ok x"
    using frames pool_ok [OF inv] by (auto simp: set_frames_from)
  obtain m' s' where loop: "for_list (map_physical_body alloc (root m)) ?ps (f, m, ?inner) =
      Inr (frame_plus f np, m', ?inner\<lparr>physical_allocator := s'\<rparr>)"
    and rest: "kept (3 * np) s1 s'" "space_ok m' (root m) (stock s' - used s' \<union> ?G)"
      "view m' (root m) = map_pages (view m (root m)) ?ps (frames_from f np)"
      "hhdm m' = hhdm m" "cr3 m' = cr3 m"
    using map_physical_loop_spec [of ?inner ?ps m "root m" ?G f] s1 room ok G1 k(4,5) fok F by auto
  have fp: "for_pages \<lparr>iter_start = ?q, iter_end = page_plus ?q (np - 1)\<rparr>
      (map_physical_body alloc (root m)) (f, m, ?inner) = Inr (frame_plus f np, m', ?inner\<lparr>physical_allocator := s'\<rparr>)"
    using for_pages_for_list [OF k(2,3) n, of "map_physical_body alloc (root m)" "(f, m, ?inner)"] loop
    by (simp add: pages_from_def)
  have ad: "align_down (PhyAddr a) (unat frame_size) = Inr f"
    using align_down_eq [of 4096 a] by (simp add: f d)
  have d4: "d < 4096" "d \<le> unat a" unfolding d by (auto intro: mod_less_eq_dividend)
  then have ud: "unat (of_nat d :: u64) = d" by simp
  have fu: "phy_u64 f = a - of_nat d" using d4(2) by (simp add: f of_nat_diff)
  have da: "(of_nat d :: u64) \<le> a" using d4(2) ud by (simp add: word_le_nat_alt)
  have "a - of_nat d \<le> a" using da by (simp add: word_sub_le)
  then have sub: "chk_sub a (phy_u64 f) = Inr (of_nat d)" by (simp add: chk_sub_def fu)
  have "unat (num ?q) < 2 ^ 52" using k(2) by (simp add: page_ok_def)
  moreover from this have "unat (num ?q * PAGE_SIZE) = unat (num ?q) * 4096" by (simp add: unat_word_ariths)
  ultimately have v: "chk_add (num ?q * PAGE_SIZE) (of_nat d) = Inr (num ?q * PAGE_SIZE + of_nat d)"
    using d4 ud by (simp add: run_simps)
  have d0: "(of_nat d :: u64) = 0 \<longleftrightarrow> d = 0" using ud unat_eq_zero [of "of_nat d :: u64"] by simp
  have us: "(of_nat d :: u64) = 0 \<Longrightarrow> usize_add n 0 = Inr np"
      "(of_nat d :: u64) \<noteq> 0 \<Longrightarrow> usize_add n (Suc 0) = Inr np"
    using np run(1) by (simp_all add: usize_add_def d0)
  have "map_physical alloc release alloc_at (PhyAddr a) n (m, inner) =
      Inr (Some (\<lparr>first_page = ?q, page_amount = np\<rparr>, VirtAddr (num ?q * PAGE_SIZE + of_nat d)), m',
        inner\<lparr>physical_allocator := s'\<rparr>)"
    using current_eq [OF walk_low(1) [OF hh] cr3] k(1) fp
    by (simp add: map_physical_def ad [simplified] sub us s1(1) v virt_from_page_ok [OF k(2)]
        root_def [symmetric] last [symmetric] s [symmetric] Let_def page_iter_first_def)
  moreover have "inv s'" "pool s' = pool s" "stock s' = stock s" "room s \<le> room s' + 4 * np"
    "used s \<union> set (frames_from f np) \<subseteq> used s'" "used s' \<subseteq> used s \<union> set (frames_from f np) \<union> stock s"
    using rest(1) s1(3-6) by (auto simp: kept_def)
  ultimately show ?thesis using kr k(4) rest
    by (intro exI [of _ k] exI [of _ m'] exI [of _ s']) simp
qed

end

end
