(* ===== verification/Kernel_Memory.thy ===== *)
theory Kernel_Memory
  imports Virt_Correct
begin

text \<open>
  The memory system of the kernel: the page allocator over the bitmap allocator, as the static
  \<open>GLOBAL_PAGE_ALLOCATOR\<close> instantiates it. The invariant is \<open>vm_ok\<close>; the facts about the
  page allocator come from the interpretation of its contract, \<open>phys\<close>.
\<close>

section \<open>The page allocator of the kernel\<close>

type_synonym vm = "machine \<times> basic_physical_allocator page_allocator_inner"

text \<open>
  The invariant of the whole memory system: the frames of \<open>G\<close> hold data (they are mapped by
  somebody), so no page table lies in them, and none lies in a free frame of the usable area.
\<close>

definition vm_ok :: "phy_addr set \<Rightarrow> vm \<Rightarrow> bool" where
  "vm_ok G st \<longleftrightarrow> (case st of (m, inner) \<Rightarrow>
     let s = physical_allocator inner in
     phys_inv s \<and> 0 < unat (num (last_page_alloc inner)) \<and> unat (num (last_page_alloc inner)) < 2 ^ 36 \<and>
     unat (cr3 m) < 2 ^ 47 \<and> G \<subseteq> used_frames s \<and>
     space_ok m (root m) (usable_frames s - used_frames s \<union> G))"

definition free_run :: "machine \<Rightarrow> page \<Rightarrow> nat \<Rightarrow> nat \<Rightarrow> bool" where
  "free_run m p r n \<longleftrightarrow> canonical_num p + r + n < 2 ^ 36 \<and>
     (\<forall>j. r \<le> j \<and> j < r + n \<longrightarrow> view m (root m) (page_plus p j) = Unmapped)"

text \<open>
  The frames of a physical range that may be mapped: the bitmap describes them and has them free, and they hold no
  page table. They need not lie in the usable area.
\<close>

definition range_frames :: "u64 \<Rightarrow> nat \<Rightarrow> phy_addr list" where
  "range_frames a n = frames_from (PhyAddr (of_nat (unat a - unat a mod 4096))) n"

definition frames_free :: "vm \<Rightarrow> u64 \<Rightarrow> nat \<Rightarrow> bool" where
  "frames_free st a n \<longleftrightarrow>
    set (range_frames a n) \<subseteq> frames_of (physical_allocator (snd st)) - used_frames (physical_allocator (snd st)) \<and>
    tables_avoid (fst st) (root (fst st)) (set (range_frames a n))"

lemma frames_freeD:
  assumes "frames_free (m, inner) a n" and "d = unat a mod 4096" and "f = PhyAddr (of_nat (unat a - d))"
  shows "\<forall>k<n. frame_plus f k \<in> frames_of (physical_allocator inner) \<and> frame_plus f k \<notin> used_frames (physical_allocator inner)"
    and "tables_avoid m (root m) (set (frames_from f n))"
  using assms by (auto simp: frames_free_def range_frames_def set_frames_from)

lemma vm_okD:
  assumes "vm_ok G (m, inner)"
  shows "phys_inv (physical_allocator inner)" and "page_ok (last_page_alloc inner)"
    and "unat (cr3 m) < 2 ^ 47" and "G \<subseteq> used_frames (physical_allocator inner)"
    and "space_ok m (root m)
      (usable_frames (physical_allocator inner) - used_frames (physical_allocator inner) \<union> G)"
    and "unat (num (last_page_alloc inner)) < 2 ^ 36" and "0 < unat (num (last_page_alloc inner))"
  using assms by (simp_all add: vm_ok_def Let_def page_ok_def)

text \<open>
  What an operation leaves of the memory outside the usable area: it takes no frames there but those of \<open>F\<close>, and
  puts no page table there. \<open>vm_kept\<close> adds that it uses at most \<open>n\<close> frames of the usable area.
\<close>

definition outside_kept :: "phy_addr set \<Rightarrow> vm \<Rightarrow> vm \<Rightarrow> bool" where
  "outside_kept F st st' \<longleftrightarrow>
    (let s = physical_allocator (snd st); s' = physical_allocator (snd st') in
     frames_of s' = frames_of s \<and> usable_frames s' = usable_frames s \<and>
     used_frames s' \<subseteq> used_frames s \<union> F \<union> usable_frames s \<and>
     (\<forall>D. D \<inter> usable_frames s = {} \<and> tables_avoid (fst st) (root (fst st)) D \<longrightarrow>
        tables_avoid (fst st') (root (fst st')) D))"

definition vm_kept :: "phy_addr set \<Rightarrow> nat \<Rightarrow> vm \<Rightarrow> vm \<Rightarrow> bool" where
  "vm_kept F n st st' \<longleftrightarrow> outside_kept F st st' \<and>
    free_count (physical_allocator (snd st)) \<le> free_count (physical_allocator (snd st')) + n"

lemma outside_kept_refl: "outside_kept {} st st"
  by (simp add: outside_kept_def Let_def)

lemma outside_kept_trans: "outside_kept F st st' \<Longrightarrow> outside_kept F' st' st'' \<Longrightarrow> outside_kept (F' \<union> F) st st''"
  unfolding outside_kept_def Let_def by auto

lemma outside_kept_Diff:
  "outside_kept F st st' \<Longrightarrow> used_frames (physical_allocator (snd st')) \<inter> A = {} \<Longrightarrow> outside_kept (F - A) st st'"
  unfolding outside_kept_def Let_def by auto

lemma vm_kept_mono: "vm_kept {} n st st' \<Longrightarrow> vm_kept F n st st'"
  by (auto simp: vm_kept_def outside_kept_def Let_def)

text \<open>A range outside the usable area stays free as long as nobody asks for its frames.\<close>

lemma frames_free_kept:
  assumes "outside_kept F st st'" and "frames_free st a n"
    and "set (range_frames a n) \<inter> usable_frames (physical_allocator (snd st)) = {}" and "set (range_frames a n) \<inter> F = {}"
  shows "frames_free st' a n"
  using assms unfolding outside_kept_def frames_free_def Let_def by blast

text \<open>The sets to which the contract of the frame allocator applies: data frames and frames outside the usable area.\<close>

lemma vm_ok_reserve:
  assumes "vm_ok G (m, inner)" and "D \<inter> usable_frames (physical_allocator inner) = {}" and "tables_avoid m (root m) D"
  shows "space_ok m (root m) (usable_frames (physical_allocator inner) - used_frames (physical_allocator inner) \<union> (G \<union> D))"
    and "(G \<union> D) \<inter> usable_frames (physical_allocator inner) \<subseteq> used_frames (physical_allocator inner)"
  using assms unfolding vm_ok_def by (auto simp: Let_def space_ok_Un Un_assoc [symmetric])

lemma canonical_num_low: "unat (num p) < 2 ^ 36 \<Longrightarrow> canonical_num p = unat (num p)"
  by (simp add: canonical_num_eq)

lemma addr_page_entry_for: "frame_ok f \<Longrightarrow> addr (page_entry_for f) = f"
  using table_flags_page_flags by (simp add: addr_set_addr table_flags_def)

lemma vm_alloc_pages:
  assumes ok: "vm_ok G (m, inner)" and n: "0 < n" and room: "4 * n \<le> free_count (physical_allocator inner)"
    and run: "free_run m (last_page_alloc inner) r n"
  obtains p fs m' inner' where
    "alloc_pages allocate_frame n (m, inner) = Inr (Some \<lparr>first_page = p, page_amount = n\<rparr>, m', inner')"
    and "vm_ok (set fs \<union> G) (m', inner')" and "page_ok p" and "canonical_num p + n < 2 ^ 36"
    and "unat (num p) + n < 2 ^ 36"
    and "\<exists>k\<le>r. p = page_plus (last_page_alloc inner) k"
    and "\<forall>q\<in>set (pages_from p n). view m (root m) q = Unmapped"
    and "length fs = n" and "distinct fs" and "set fs \<inter> used_frames (physical_allocator inner) = {}"
    and "set fs \<union> used_frames (physical_allocator inner) \<subseteq> used_frames (physical_allocator inner')"
    and "hhdm m' = hhdm m" and "cr3 m' = cr3 m"
    and "view m' (root m) = map_pages (view m (root m)) (pages_from p n) fs"
    and "invalidated m' = invalidated m @ map (\<lambda>p. num p * PAGE_SIZE) (pages_from p n)"
    and "vm_kept {} (4 * n) (m, inner) (m', inner')" and "last_page_alloc inner' = page_plus p (n - 1)"
    and "root_kept (root m) (level4_idx ` set (pages_from p n)) m m'"
proof -
  let ?p = "last_page_alloc inner" and ?s = "physical_allocator inner"
  note D = vm_okD [OF ok]
  have G: "G \<inter> usable_frames ?s \<subseteq> used_frames ?s" using D(4) by blast
  have run': "canonical_num ?p + r + n < 2 ^ 36"
      "\<forall>j. r \<le> j \<and> j < r + n \<longrightarrow> view m (root m) (page_plus ?p j) = Unmapped"
    using run by (simp_all add: free_run_def)
  obtain k fs m' s' where k: "k \<le> r" and
    al: "alloc_pages allocate_frame n (m, inner) = Inr (Some \<lparr>first_page = page_plus ?p k, page_amount = n\<rparr>, m',
      inner\<lparr>physical_allocator := s', last_page_alloc := page_plus ?p (k + n - 1)\<rparr>)" and
    r: "\<forall>q\<in>set (pages_from (page_plus ?p k) n). view m (root m) q = Unmapped"
    "length fs = n" "distinct fs" "set fs \<inter> used_frames ?s = {}" "set fs \<subseteq> used_frames s'"
    "phys.kept (4 * n) ?s s'"
    "space_ok m' (root m) (usable_frames s' - used_frames s' \<union> (set fs \<union> G))"
    "view m' (root m) = map_pages (view m (root m)) (pages_from (page_plus ?p k) n) fs"
    "hhdm m' = hhdm m" "cr3 m' = cr3 m"
    "invalidated m' = invalidated m @ map (\<lambda>p. num p * PAGE_SIZE) (pages_from (page_plus ?p k) n)"
    "root_kept (root m) (level4_idx ` set (pages_from (page_plus ?p k) n)) m m'"
    using phys.alloc_pages_spec [OF refl refl D(1) room n D(2,3,5) G run'] by blast
  let ?inner' = "inner\<lparr>physical_allocator := s', last_page_alloc := page_plus ?p (k + n - 1)\<rparr>"
  have rt: "root m' = root m" by (rule root_cong) (fact r)+
  have "tables_avoid m' (root m) E" if "E \<inter> usable_frames ?s = {}" "tables_avoid m (root m) E" for E
    using phys.alloc_pages_spec [OF refl refl D(1) room n D(2,3) vm_ok_reserve [OF ok that] run'] al
    by (auto simp: space_ok_Un tables_avoid_Un)
  then have kept: "vm_kept {} (4 * n) (m, inner) (m', ?inner')"
    using r(6) by (simp add: vm_kept_def outside_kept_def phys.kept_def rt)
  have low: "unat (num (page_plus ?p j)) = unat (num ?p) + j" if "j < k + n" for j
    using page_plus_nums(1) [OF D(2), of j] run'(1) k that by simp
  have "unat (num ?p) + k + n < 2 ^ 36" using run'(1) k canonical_num_low [OF D(6)] by simp
  then have "vm_ok (set fs \<union> G) (m', ?inner')"
    using r D rt low [of "k + n - 1"] n by (auto simp: vm_ok_def Let_def phys.kept_def)
  moreover have "page_ok (page_plus ?p k)" "canonical_num (page_plus ?p k) + n < 2 ^ 36"
      "unat (num (page_plus ?p k)) + n < 2 ^ 36"
    using page_plus_nums [OF D(2), of k] run'(1) k canonical_num_low [OF D(6)] by auto
  ultimately show ?thesis by (intro that [OF al, of fs]) (use r k kept n in \<open>auto simp: phys.kept_def page_plus_plus\<close>)
qed

lemma vm_dealloc_pages:
  assumes ok: "vm_ok (set fs \<union> G) (m, inner)" and n: "0 < n" and p: "page_ok p"
    and top: "canonical_num p + n < 2 ^ 36" and fs: "length fs = n" "distinct fs" "set fs \<inter> G = {}"
    and mapped: "\<forall>j<n. view m (root m) (page_plus p j) = Mapped (page_entry_for (fs ! j))"
  obtains m' inner' where
    "dealloc_pages free_frame \<lparr>first_page = p, page_amount = n\<rparr> (m, inner) = Inr (m', inner')"
    and "vm_ok G (m', inner')"
    and "used_frames (physical_allocator inner') = used_frames (physical_allocator inner) - set fs"
    and "hhdm m' = hhdm m" and "cr3 m' = cr3 m" and "last_page_alloc inner' = last_page_alloc inner"
    and "view m' (root m) = unmap_pages (view m (root m)) (pages_from p n)"
    and "invalidated m' = invalidated m @ map (\<lambda>p. num p * PAGE_SIZE) (pages_from p n)"
    and "vm_kept {} 0 (m, inner) (m', inner')" and "root_kept (root m) {} m m'"
proof -
  let ?s = "physical_allocator inner" and ?es = "map page_entry_for fs"
  note D = vm_okD [OF ok]
  have us: "set fs \<subseteq> used_frames ?s" using D(4) by simp
  then have fok: "frame_ok f" if "f \<in> set fs" for f
    using that phys.used_pool [OF D(1)] phys.pool_ok [OF D(1)] by blast
  then have ad: "map addr ?es = fs" by (simp add: map_idI addr_page_entry_for)
  then have adi: "addr ` set ?es = set fs" by (metis image_set)
  have "\<forall>j<n. view m (root m) (page_plus p j) = Mapped (?es ! j)" using mapped fs(1) by simp
  note spec = phys.dealloc_pages_spec [OF refl D(1) n p top D(3), of ?es, unfolded adi ad, OF _ _ this us fs(2)]
  from spec [of G] obtain m' s' where
    de: "dealloc_pages free_frame \<lparr>first_page = p, page_amount = n\<rparr> (m, inner)
        = Inr (m', inner\<lparr>physical_allocator := s'\<rparr>)" and
    r: "phys_inv s'" "used_frames s' = used_frames ?s - set fs"
    "space_ok m' (root m) (usable_frames s' - used_frames s' \<union> G)"
    "view m' (root m) = unmap_pages (view m (root m)) (pages_from p n)"
    "hhdm m' = hhdm m" "cr3 m' = cr3 m"
    "invalidated m' = invalidated m @ map (\<lambda>p. num p * PAGE_SIZE) (pages_from p n)"
    "frames_of s' = frames_of ?s" "usable_frames s' = usable_frames ?s" "free_count ?s \<le> free_count s'"
    "root_kept (root m) {} m m'"
    using D(5) fs(1) by auto
  have rt: "root m' = root m" by (rule root_cong) (fact r)+
  have "tables_avoid m' (root m) E" if "E \<inter> usable_frames ?s = {}" "tables_avoid m (root m) E" for E
    using spec [of "G \<union> E"] vm_ok_reserve(1) [OF ok that] de fs(1) by (auto simp: space_ok_Un tables_avoid_Un Un_assoc)
  then have kept: "vm_kept {} 0 (m, inner) (m', inner\<lparr>physical_allocator := s'\<rparr>)"
    using r(2,8-10) by (auto simp: vm_kept_def outside_kept_def rt Let_def)
  have "vm_ok G (m', inner\<lparr>physical_allocator := s'\<rparr>)"
    using r D fs(3) root_cong [of m' m] by (auto simp: vm_ok_def Let_def)
  then show ?thesis by (rule that [OF de]) (use r kept in simp_all)
qed

lemma mapped_pages:
  assumes "page_ok p" and "canonical_num p + n < 2 ^ 36" and "length fs = n"
  shows "\<forall>j<n. map_pages w (pages_from p n) fs (page_plus p j) = Mapped (page_entry_for (fs ! j))"
    and "canonical_num q \<notin> canonical_num ` set (pages_from p n) \<Longrightarrow> map_pages w (pages_from p n) fs q = w q"
proof -
  have "distinct (map canonical_num (pages_from p n))"
    using distinct_pages [OF assms(1)] assms(2) by (simp add: pages_from_def)
  then show "\<forall>j<n. map_pages w (pages_from p n) fs (page_plus p j) = Mapped (page_entry_for (fs ! j))"
    using assms(3) by (auto intro: map_pages_nth)
qed (rule map_pages_other)

lemma vm_new_frame:
  assumes "vm_ok (set fs \<union> G) (m, inner)" and "page_ok p" and "canonical_num p + n < 2 ^ 36" and "length fs = n"
    and "map_pages w (pages_from p n) fs q = Mapped e" and "w q = Unmapped"
  shows "addr e \<in> set fs"
proof -
  have "canonical_num q \<in> canonical_num ` set (pages_from p n)"
    using assms(5,6) map_pages_other by fastforce
  then obtain j where j: "j < n" "canonical_num q = canonical_num (pages_from p n ! j)"
    by (auto simp: set_pages_from)
  moreover have "distinct (map canonical_num (pages_from p n))"
    using distinct_pages [OF assms(2)] assms(3) by (simp add: pages_from_def)
  ultimately have "e = page_entry_for (fs ! j)"
    using map_pages_nth [of "pages_from p n" fs j q w] assms(4,5) by simp
  moreover have f: "fs ! j \<in> set fs" using j(1) assms(4) by simp
  moreover have "frame_ok (fs ! j)"
    using f vm_okD(1,4) [OF assms(1)] phys.used_pool phys.pool_ok by blast
  ultimately show ?thesis by (simp add: addr_page_entry_for)
qed

text \<open>
  What the processor makes of an address, as far as the walk of \<open>paging.rs\<close> goes: like the code, it looks at bits 12 to 47 only, and takes the
  upper bits to be those of a canonical address.
\<close>

definition translate :: "machine \<Rightarrow> u64 \<Rightarrow> u64 option" where
  "translate m v =
     (case view m (root m) (Page (v div PAGE_SIZE)) of
        Mapped e \<Rightarrow> Some (phy_u64 (addr e) + v mod PAGE_SIZE)
      | _ \<Rightarrow> None)"

text \<open>A byte of a run of pages, and where it is when the pages are mapped to a list of frames.\<close>

lemma page_of_run:
  assumes p: "page_ok p" and top: "canonical_num p + n < 2 ^ 36" and i: "i < n * 4096"
    and v: "v = num p * PAGE_SIZE + of_nat i"
  shows "unat v = unat (num p) * 4096 + i" and "Page (v div PAGE_SIZE) = page_plus p (i div 4096)"
    and "i div 4096 < n"
proof -
  let ?j = "i div 4096"
  show j: "?j < n" using i by (simp add: less_mult_imp_div_less)
  have "unat (num p) + n < 2 ^ 52" by (rule page_ok_above [OF p top])
  then have lt: "unat (num p) * 4096 + i < 2 ^ 64" using i by simp
  have pm: "unat (num p * PAGE_SIZE) = unat (num p) * 4096" using lt by (simp add: unat_word_ariths)
  have "unat (of_nat i :: u64) = i" using lt by (intro unat_of_nat_less) simp
  then show u: "unat v = unat (num p) * 4096 + i" using lt pm by (simp add: v unat_word_ariths)
  have "unat (v div PAGE_SIZE) = unat (num p) + ?j" using u by (simp add: unat_div)
  moreover have "unat (num (page_plus p ?j)) = unat (num p) + ?j"
    using page_plus_nums(1) [OF p] top j by simp
  ultimately show "Page (v div PAGE_SIZE) = page_plus p ?j"
    by (metis page.collapse word_unat_eq_iff)
qed

lemma translate_run:
  assumes "page_ok p" and "canonical_num p + n < 2 ^ 36" and "i < n * 4096"
    and "v = num p * PAGE_SIZE + of_nat i"
    and mapped: "\<forall>j<n. view m (root m) (page_plus p j) = Mapped (page_entry_for (fs ! j))"
    and fok: "\<forall>j<n. frame_ok (fs ! j)"
  shows "translate m v = Some (phy_u64 (fs ! (i div 4096)) + of_nat (i mod 4096))"
proof -
  note v = page_of_run [OF assms(1-4)]
  have "v mod PAGE_SIZE = of_nat (i mod 4096)"
    by (rule word_eq_of_natI) (simp add: unat_mod v(1))
  then show ?thesis using mapped fok v(2,3) by (simp add: translate_def addr_page_entry_for)
qed

lemma frames_from_pool:
  assumes "phys_inv s" and "\<forall>k<n. frame_plus f k \<in> frames_of s"
  shows "distinct (frames_from f n)" and "k < n \<Longrightarrow> frame_ok (frame_plus f k)"
    and "k < n \<Longrightarrow> unat (phy_u64 (frame_plus f k)) = unat (phy_u64 f) + 4096 * k"
proof -
  have u: "unat (phy_u64 (frame_plus f k)) = unat (phy_u64 f) + 4096 * k" if "k < n" for k
  proof -
    have "f \<in> frames_of s" using assms(2) [rule_format, of 0] that by simp
    then obtain i where i: "f = frame_of s i" "i < BITMAP_SIZE" by (auto simp: frames_of_def)
    then have "i + n \<le> BITMAP_SIZE" using assms by (auto intro: frame_plus_in_frames)
    then show ?thesis using i that assms(1) by (simp add: frame_plus_frame_of unat_frame_of)
  qed
  show "k < n \<Longrightarrow> unat (phy_u64 (frame_plus f k)) = unat (phy_u64 f) + 4096 * k" by (rule u)
  have "i = j" if "i < n" "j < n" "frame_plus f i = frame_plus f j" for i j
  proof -
    have "unat (phy_u64 f) + 4096 * i = unat (phy_u64 f) + 4096 * j" using u [OF that(1)] u [OF that(2)] that(3) by metis
    then show ?thesis by simp
  qed
  then show "distinct (frames_from f n)" by (auto simp: frames_from_def distinct_map inj_on_def)
  show "k < n \<Longrightarrow> frame_ok (frame_plus f k)" using assms phys.pool_ok by blast
qed

lemma translate_frames:
  assumes p: "page_ok p" "canonical_num p + np < 2 ^ 36" and d: "d = unat a mod 4096"
    and f: "f = PhyAddr (of_nat (unat a - d))" and i: "d + i < np * 4096"
    and mapped: "\<forall>j<np. view m (root m) (page_plus p j) = Mapped (page_entry_for (frames_from f np ! j))"
    and fok: "\<forall>k<np. frame_ok (frame_plus f k)"
  shows "translate m (num p * PAGE_SIZE + of_nat d + of_nat i) = Some (a + of_nat i)"
proof -
  have j: "(d + i) div 4096 < np" using i by (simp add: less_mult_imp_div_less)
  have da: "d \<le> unat a" by (simp add: d)
  have "translate m (num p * PAGE_SIZE + of_nat (d + i)) =
      Some (phy_u64 (frames_from f np ! ((d + i) div 4096)) + of_nat ((d + i) mod 4096))"
    by (rule translate_run [OF p i refl mapped]) (use fok in auto)
  moreover have "phy_u64 (frames_from f np ! ((d + i) div 4096)) =
      of_nat (unat a - d + 4096 * ((d + i) div 4096))"
    using j by (simp add: frame_plus_def f ac_simps)
  moreover have "unat a - d + 4096 * ((d + i) div 4096) + (d + i) mod 4096 = unat a + i"
    using mult_div_mod_eq [of 4096 "d + i"] da by linarith
  then have "of_nat (unat a - d + 4096 * ((d + i) div 4096)) + of_nat ((d + i) mod 4096) = a + of_nat i"
    by (simp only: of_nat_add [symmetric]) (simp add: of_nat_unat_word)
  ultimately show ?thesis by (simp only: of_nat_add add.assoc)
qed

lemma vm_map_physical:
  assumes ok: "vm_ok G (m, inner)" and d: "d = unat a mod 4096" and f: "f = PhyAddr (of_nat (unat a - d))"
    and np: "np = n + (if d = 0 then 0 else 1)" and n: "0 < np"
    and room: "4 * np \<le> free_count (physical_allocator inner)"
    and frames: "frames_free (m, inner) a np"
    and run: "free_run m (last_page_alloc inner) r np"
  obtains p m' inner' where
    "map_physical allocate_frame free_frame alloc_phy_addr (PhyAddr a) n (m, inner) =
       Inr (Some (\<lparr>first_page = p, page_amount = np\<rparr>, VirtAddr (num p * PAGE_SIZE + of_nat d)), m', inner')"
    and "vm_ok (set (frames_from f np) \<union> G) (m', inner')" and "page_ok p" and "canonical_num p + np < 2 ^ 36"
    and "unat (num p) + np < 2 ^ 36" and "0 < unat (num p)"
    and "\<forall>q\<in>set (pages_from p np). view m (root m) q = Unmapped"
    and "set (frames_from f np) \<union> used_frames (physical_allocator inner) \<subseteq> used_frames (physical_allocator inner')"
    and "hhdm m' = hhdm m" and "cr3 m' = cr3 m"
    and "view m' (root m) = map_pages (view m (root m)) (pages_from p np) (frames_from f np)"
    and "vm_kept (set (frames_from f np)) (4 * np) (m, inner) (m', inner')"
    and "last_page_alloc inner' = last_page_alloc inner"
proof -
  let ?p = "last_page_alloc inner" and ?s = "physical_allocator inner"
  note D = vm_okD [OF ok]
  have G: "G \<inter> usable_frames ?s \<subseteq> used_frames ?s" using D(4) by blast
  have run': "canonical_num ?p + r + np < 2 ^ 36"
      "\<forall>j. r \<le> j \<and> j < r + np \<longrightarrow> view m (root m) (page_plus ?p j) = Unmapped"
    using run by (simp_all add: free_run_def)
  obtain k m' s' where k: "k \<le> r" and
    mp: "map_physical allocate_frame free_frame alloc_phy_addr (PhyAddr a) n (m, inner) =
      Inr (Some (\<lparr>first_page = page_plus ?p k, page_amount = np\<rparr>,
          VirtAddr (num (page_plus ?p k) * PAGE_SIZE + of_nat d)), m', inner\<lparr>physical_allocator := s'\<rparr>)" and
    r: "\<forall>q\<in>set (pages_from (page_plus ?p k) np). view m (root m) q = Unmapped" "phys_inv s'"
    "used_frames ?s \<union> set (frames_from f np) \<subseteq> used_frames s'"
    "space_ok m' (root m) (usable_frames s' - used_frames s' \<union> (set (frames_from f np) \<union> G))"
    "view m' (root m) = map_pages (view m (root m)) (pages_from (page_plus ?p k) np) (frames_from f np)"
    "hhdm m' = hhdm m" "cr3 m' = cr3 m"
    "frames_of s' = frames_of ?s" "usable_frames s' = usable_frames ?s" "free_count ?s \<le> free_count s' + 4 * np"
    "used_frames s' \<subseteq> used_frames ?s \<union> set (frames_from f np) \<union> usable_frames ?s"
    using phys.map_physical_spec [OF refl refl D(1) d f np n room D(2,3,5) G frames_freeD [OF frames d f] run'] by blast
  have rt: "root m' = root m" by (rule root_cong) (fact r)+
  have "tables_avoid m' (root m) E" if "E \<inter> usable_frames ?s = {}" "tables_avoid m (root m) E" for E
    using phys.map_physical_spec [OF refl refl D(1) d f np n room D(2,3) vm_ok_reserve [OF ok that]
        frames_freeD [OF frames d f] run'] mp by (auto simp: space_ok_Un tables_avoid_Un)
  then have kept: "vm_kept (set (frames_from f np)) (4 * np) (m, inner) (m', inner\<lparr>physical_allocator := s'\<rparr>)"
    using r(8-11) by (simp add: vm_kept_def outside_kept_def rt)
  have "vm_ok (set (frames_from f np) \<union> G) (m', inner\<lparr>physical_allocator := s'\<rparr>)"
    using r D root_cong [of m' m] by (auto simp: vm_ok_def Let_def)
  moreover have "page_ok (page_plus ?p k)" "canonical_num (page_plus ?p k) + np < 2 ^ 36"
      "unat (num (page_plus ?p k)) + np < 2 ^ 36" "0 < unat (num (page_plus ?p k))"
    using page_plus_nums [OF D(2), of k] run'(1) k canonical_num_low [OF D(6)] D(7) by auto
  ultimately show ?thesis by (intro that [OF mp]) (use r kept in auto)
qed

section \<open>A state after boot\<close>

text \<open>
  The memory system with the direct map at its usual place, one empty top-level table and one
  usable area of one gigabyte, as \<open>virt::init\<close> leaves it.
\<close>

definition boot_inner :: "basic_physical_allocator page_allocator_inner" where
  "boot_inner = \<lparr>physical_allocator = \<lparr>bitmap = \<lambda>_. False, offset = PhyAddr 0x100000, limit = 0x40000000\<rparr>,
     last_page_alloc = Page 1\<rparr>"

lemma boot_inner_init:
  "bnd new_const (virt_init [\<lparr>base = 0, len = 0x9fc00, usable = True\<rparr>,
     \<lparr>base = 0x100000, len = 0x40000000, usable = True\<rparr>]) = Inr boot_inner"
  by (simp add: new_const_def virt_init_def boot_inner_def configure_physical_area_def init_phys_def
      set_offset_def set_limit_def page_new_def run_simps canonical_num_eq
      assert_that_def MAX_eq)

lemma boot_view: "view boot_machine t p = Unmapped"
  by (rule boot_tables)

lemma boot_space_ok: "space_ok boot_machine (root boot_machine) (F - {PhyAddr 0x1000})"
  by (rule boot_tables(4)) (simp add: root_def table_va_def boot_machine_def)

lemma boot_frame_of: "frame_of (physical_allocator boot_inner) i = PhyAddr (of_nat i * 4096 + 0x100000)"
  by (simp add: frame_of_def boot_inner_def)

lemma boot_inv: "phys_inv (physical_allocator boot_inner)" "used_frames (physical_allocator boot_inner) = {}"
  by (simp_all add: boot_inner_def phys_inv_def BITMAP_SIZE_def used_frames_def)

lemma boot_table_frame: "PhyAddr 0x1000 \<notin> frames_of (physical_allocator boot_inner)"
proof -
  have "frame_of (physical_allocator boot_inner) i \<noteq> PhyAddr 0x1000" if "i < BITMAP_SIZE" for i
    using unat_frame_of [OF boot_inv(1) that] by (auto simp: boot_inner_def)
  then show ?thesis unfolding frames_of_def by (metis imageE lessThan_iff)
qed

lemma boot_vm_ok: "vm_ok {} (boot_machine, boot_inner)"
proof -
  have "PhyAddr 0x1000 \<notin> usable_frames (physical_allocator boot_inner)"
    using boot_table_frame phys.stock_pool [OF boot_inv(1)] by blast
  then have "space_ok boot_machine (root boot_machine) (usable_frames (physical_allocator boot_inner))"
    using boot_space_ok [of "usable_frames (physical_allocator boot_inner)"] by simp
  then show ?thesis using boot_inv by (simp add: vm_ok_def) (simp add: boot_inner_def boot_machine_def)
qed

lemma boot_free: "free_count (physical_allocator boot_inner) = 0x40000"
  by (subst free_count_all) (simp_all add: boot_inner_def BITMAP_SIZE_def)

lemma boot_free_run: "n < 2 ^ 35 \<Longrightarrow> free_run boot_machine (last_page_alloc boot_inner) 0 n"
  by (simp add: free_run_def boot_view boot_inner_def canonical_num_eq)

lemma boot_frames:
  assumes "i + n \<le> BITMAP_SIZE" and "unat a - unat a mod 4096 = i * 4096 + 0x100000"
  shows "frames_free (boot_machine, boot_inner) a n"
proof -
  have "PhyAddr (of_nat (unat a - unat a mod 4096)) = frame_of (physical_allocator boot_inner) i"
    by (simp add: assms(2) boot_frame_of)
  then have sub: "set (range_frames a n) \<subseteq> frames_of (physical_allocator boot_inner)"
    using assms(1) by (auto simp: range_frames_def set_frames_from frames_of_def frame_plus_frame_of)
  then have "PhyAddr 0x1000 \<notin> set (range_frames a n)" using boot_table_frame by blast
  then have "tables_avoid boot_machine (root boot_machine) (set (range_frames a n))"
    using boot_space_ok [of "set (range_frames a n)"] by (simp add: space_ok_def)
  then show ?thesis using sub boot_inv(2) by (simp add: frames_free_def)
qed

lemmas boot_facts = boot_vm_ok boot_free boot_free_run

section \<open>Properties\<close>

text \<open>
  C2. Allocating \<open>n\<close> pages, with enough free frames and a run of \<open>n\<close> free pages somewhere
  above the last allocation: \<open>alloc_pages\<close> succeeds; the pages it returns were not mapped, each
  is now mapped writable to a frame of its own that was free before, every other page keeps its
  mapping, the translations of the new pages are invalidated and the invariant of the
  memory system holds again.
\<close>

theorem alloc_pages_correct:
  assumes "vm_ok G (m, inner)" and "0 < n" and "4 * n \<le> free_count (physical_allocator inner)"
    and "free_run m (last_page_alloc inner) r n"
  shows "\<exists>p fs m' inner'.
    alloc_pages allocate_frame n (m, inner) = Inr (Some \<lparr>first_page = p, page_amount = n\<rparr>, m', inner') \<and>
    vm_ok (set fs \<union> G) (m', inner') \<and> root m' = root m \<and>
    length fs = n \<and> distinct fs \<and> set fs \<inter> used_frames (physical_allocator inner) = {} \<and>
    (\<forall>j<n. view m (root m) (page_plus p j) = Unmapped \<and>
       view m' (root m) (page_plus p j) = Mapped (page_entry_for (fs ! j))) \<and>
    (\<forall>q. canonical_num q \<notin> canonical_num ` set (pages_from p n) \<longrightarrow>
       view m' (root m) q = view m (root m) q) \<and>
    invalidated m' = invalidated m @ map (\<lambda>p. num p * PAGE_SIZE) (pages_from p n)"
proof -
  obtain p fs m' inner' where al:
    "alloc_pages allocate_frame n (m, inner) = Inr (Some \<lparr>first_page = p, page_amount = n\<rparr>, m', inner')"
    "vm_ok (set fs \<union> G) (m', inner')" "page_ok p" "canonical_num p + n < 2 ^ 36"
    "\<forall>q\<in>set (pages_from p n). view m (root m) q = Unmapped"
    "length fs = n" "distinct fs" "set fs \<inter> used_frames (physical_allocator inner) = {}"
    "hhdm m' = hhdm m" "cr3 m' = cr3 m"
    "view m' (root m) = map_pages (view m (root m)) (pages_from p n) fs"
    "invalidated m' = invalidated m @ map (\<lambda>p. num p * PAGE_SIZE) (pages_from p n)"
    by (rule vm_alloc_pages [OF assms])
  note mp = mapped_pages [OF al(3,4,6), where w = "view m (root m)"]
  have un: "\<forall>j<n. view m (root m) (page_plus p j) = Unmapped" using al(5) by (simp add: set_pages_from)
  show ?thesis
    using al mp un root_cong [of m' m]
    by (intro exI [of _ p] exI [of _ fs] exI [of _ m'] exI [of _ inner']) simp
qed

theorem alloc_pages_correct_witness:
  "\<exists>p m' inner'. alloc_pages allocate_frame 3 (boot_machine, boot_inner) =
     Inr (Some \<lparr>first_page = p, page_amount = 3\<rparr>, m', inner') \<and>
     view m' (root boot_machine) (page_plus p 2) \<noteq> Unmapped"
  using alloc_pages_correct [of "{}" boot_machine boot_inner 3 0] boot_facts
  by (fastforce simp: BITMAP_SIZE_def)

text \<open>
  Allocation followed by deallocation of what was allocated succeeds and restores the
  address space exactly; the frames of the pages are free again and nothing that was in use
  before is released.
\<close>

lemma alloc_dealloc_restores:
  assumes "vm_ok G (m, inner)" and "0 < n" and "4 * n \<le> free_count (physical_allocator inner)"
    and "free_run m (last_page_alloc inner) r n"
  shows "\<exists>al m1 inner1 m2 inner2.
    alloc_pages allocate_frame n (m, inner) = Inr (Some al, m1, inner1) \<and>
    dealloc_pages free_frame al (m1, inner1) = Inr (m2, inner2) \<and>
    view m2 (root m2) = view m (root m) \<and> vm_ok G (m2, inner2) \<and>
    used_frames (physical_allocator inner) \<subseteq> used_frames (physical_allocator inner2) \<and>
    (\<forall>q e. view m1 (root m1) q = Mapped e \<and> view m (root m) q = Unmapped
       \<longrightarrow> addr e \<notin> used_frames (physical_allocator inner2))"
proof -
  obtain p fs m1 inner1 where al:
    "alloc_pages allocate_frame n (m, inner) = Inr (Some \<lparr>first_page = p, page_amount = n\<rparr>, m1, inner1)"
    "vm_ok (set fs \<union> G) (m1, inner1)" "page_ok p" "canonical_num p + n < 2 ^ 36"
    "\<forall>q\<in>set (pages_from p n). view m (root m) q = Unmapped"
    "length fs = n" "distinct fs" "set fs \<inter> used_frames (physical_allocator inner) = {}"
    "set fs \<union> used_frames (physical_allocator inner) \<subseteq> used_frames (physical_allocator inner1)"
    "hhdm m1 = hhdm m" "cr3 m1 = cr3 m"
    "view m1 (root m) = map_pages (view m (root m)) (pages_from p n) fs"
    by (rule vm_alloc_pages [OF assms])
  have rt: "root m1 = root m" by (rule root_cong) (fact al)+
  have G: "set fs \<inter> G = {}" using al(8) vm_okD(4) [OF assms(1)] by blast
  have "\<forall>j<n. view m1 (root m1) (page_plus p j) = Mapped (page_entry_for (fs ! j))"
    using mapped_pages(1) [OF al(3,4,6)] by (simp add: rt al(12))
  then obtain m2 inner2 where de:
    "dealloc_pages free_frame \<lparr>first_page = p, page_amount = n\<rparr> (m1, inner1) = Inr (m2, inner2)"
    "vm_ok G (m2, inner2)"
    "used_frames (physical_allocator inner2) = used_frames (physical_allocator inner1) - set fs"
    "hhdm m2 = hhdm m1" "cr3 m2 = cr3 m1"
    "view m2 (root m1) = unmap_pages (view m1 (root m1)) (pages_from p n)"
    by (rule vm_dealloc_pages [OF al(2) assms(2) al(3,4,6,7) G])
  have "unmap_pages (map_pages (view m (root m)) (pages_from p n) fs) (pages_from p n) = view m (root m)"
    by (rule unmap_map_pages) (use al(5,6) in \<open>auto intro: view_canonical\<close>)
  then have "view m2 (root m) = view m (root m)" using de(6) by (simp add: rt al(12))
  moreover have "root m2 = root m" using root_cong [OF de(4,5)] rt by simp
  moreover have "addr e \<in> set fs" if "view m1 (root m1) q = Mapped e" "view m (root m) q = Unmapped" for q e
    using that vm_new_frame [OF al(2,3,4,6), of "view m (root m)" q e] by (simp add: rt al(12))
  ultimately show ?thesis using al de
    by (intro exI [of _ "\<lparr>first_page = p, page_amount = n\<rparr>"] exI [of _ m1] exI [of _ inner1]
        exI [of _ m2] exI [of _ inner2]) auto
qed

text \<open>The bytes of a mapped physical range.\<close>

lemma map_physical_bytes:
  assumes ok: "vm_ok G (m, inner)" and n: "0 < n" and np: "np = n + (if unat a mod 4096 = 0 then 0 else 1)"
    and room: "4 * np \<le> free_count (physical_allocator inner)"
    and frames: "frames_free (m, inner) a np"
    and run: "free_run m (last_page_alloc inner) r np"
  shows "\<exists>al v m' inner'.
    map_physical allocate_frame free_frame alloc_phy_addr (PhyAddr a) n (m, inner) =
      Inr (Some (al, VirtAddr v), m', inner') \<and>
    (\<forall>i<n * 4096. translate m' (v + of_nat i) = Some (a + of_nat i)) \<and>
    (\<forall>q. view m (root m) q \<noteq> Unmapped \<longrightarrow> view m' (root m') q = view m (root m) q) \<and>
    (\<exists>G'. G \<subseteq> G' \<and> vm_ok G' (m', inner'))"
proof -
  define d where "d = unat a mod 4096"
  define f where "f = PhyAddr (of_nat (unat a - d))"
  note fr = frames_freeD(1) [OF frames d_def f_def]
  obtain p m' inner' where mp:
    "map_physical allocate_frame free_frame alloc_phy_addr (PhyAddr a) n (m, inner) =
       Inr (Some (\<lparr>first_page = p, page_amount = np\<rparr>, VirtAddr (num p * PAGE_SIZE + of_nat d)), m', inner')"
    "vm_ok (set (frames_from f np) \<union> G) (m', inner')" "page_ok p" "canonical_num p + np < 2 ^ 36"
    "\<forall>q\<in>set (pages_from p np). view m (root m) q = Unmapped" "hhdm m' = hhdm m" "cr3 m' = cr3 m"
    "view m' (root m) = map_pages (view m (root m)) (pages_from p np) (frames_from f np)"
    by (rule vm_map_physical [OF ok d_def f_def np [folded d_def] _ room frames run]) (use n np in auto)
  have rt: "root m' = root m" by (rule root_cong) (fact mp)+
  note fp = frames_from_pool [OF vm_okD(1) [OF ok], of np f]
  have mapped: "\<forall>j<np. view m' (root m') (page_plus p j) = Mapped (page_entry_for (frames_from f np ! j))"
    using mapped_pages(1) [OF mp(3,4), of "frames_from f np"] by (simp add: rt mp(8))
  have "translate m' (num p * PAGE_SIZE + of_nat d + of_nat i) = Some (a + of_nat i)" if "i < n * 4096" for i
    by (rule translate_frames [OF mp(3,4) d_def f_def _ mapped]) (use that np fp(2) fr in \<open>auto simp: d_def\<close>)
  moreover have "view m' (root m') q = view m (root m) q" if "view m (root m) q \<noteq> Unmapped" for q
  proof -
    have "canonical_num q \<notin> canonical_num ` set (pages_from p np)"
      using mp(5) that by (metis imageE view_canonical)
    then show ?thesis using mapped_pages(2) [OF mp(3,4)] by (simp add: rt mp(8))
  qed
  ultimately show ?thesis using mp(1,2)
    by (intro exI [of _ "\<lparr>first_page = p, page_amount = np\<rparr>"] exI [of _ "num p * PAGE_SIZE + of_nat d"]
        exI [of _ m'] exI [of _ inner']) auto
qed

text \<open>
  C5. Mapping a physical range for a driver: for any address \<open>a\<close>, aligned or not, whose frames
  are free and hold no page table, \<open>map_physical a n\<close> returns an address at which the \<open>n\<close> pages of physical memory
  from \<open>a\<close> on are visible byte by byte, and no mapping that existed before changes.
\<close>

theorem map_physical_translates:
  assumes ok: "vm_ok G (m, inner)" and n: "0 < n" and np: "np = n + (if unat a mod 4096 = 0 then 0 else 1)"
    and room: "4 * np \<le> free_count (physical_allocator inner)"
    and frames: "frames_free (m, inner) a np"
    and run: "free_run m (last_page_alloc inner) r np"
  shows "\<exists>al v m' inner'.
    map_physical allocate_frame free_frame alloc_phy_addr (PhyAddr a) n (m, inner) =
      Inr (Some (al, VirtAddr v), m', inner') \<and>
    (\<forall>i<n * 4096. translate m' (v + of_nat i) = Some (a + of_nat i)) \<and>
    (\<forall>q. view m (root m) q \<noteq> Unmapped \<longrightarrow> view m' (root m') q = view m (root m) q) \<and>
    (\<exists>G'. G \<subseteq> G' \<and> vm_ok G' (m', inner'))"
  by (rule map_physical_bytes [OF assms])

theorem map_physical_translates_witness:
  "\<exists>al v m' inner'.
    map_physical allocate_frame free_frame alloc_phy_addr (PhyAddr 0x200004) 2 (boot_machine, boot_inner) =
      Inr (Some (al, VirtAddr v), m', inner') \<and> translate m' (v + of_nat 8191) = Some (0x200004 + of_nat 8191)"
proof -
  have fr: "frames_free (boot_machine, boot_inner) 0x200004 3"
    by (rule boot_frames [of 256]) (simp_all add: BITMAP_SIZE_def)
  obtain al v m' inner' where
    "map_physical allocate_frame free_frame alloc_phy_addr (PhyAddr 0x200004) 2 (boot_machine, boot_inner) =
      Inr (Some (al, VirtAddr v), m', inner')"
    and t: "\<forall>i<2 * 4096. translate m' (v + of_nat i) = Some (0x200004 + of_nat i)"
    using map_physical_translates [OF boot_vm_ok _ _ _ fr boot_free_run, of 2]
    by (auto simp: boot_free BITMAP_SIZE_def)
  moreover have "translate m' (v + of_nat 8191) = Some (0x200004 + of_nat 8191)"
    by (rule t [rule_format]) simp
  ultimately show ?thesis by blast
qed

end
