(* ===== verification/Format.thy ===== *)
theory Format
  imports Kernel_Prelude
begin

text \<open>
  The parts of the formatting of Rust's core library that the kernel uses: numbers in a given
  radix (\<open>{}\<close>, \<open>{:x}\<close>, \<open>{:X}\<close>, \<open>{:b}\<close>), zero padding to a width (\<open>{:04}\<close>,
  \<open>{:02X}\<close>) and the parser \<open>from_str_radix\<close>. Printing and parsing are shown to be inverse.
\<close>

section \<open>Digits\<close>

definition digit_char :: "nat \<Rightarrow> char" where
  "digit_char d = ''0123456789abcdef'' ! d"

definition upper_digit_char :: "nat \<Rightarrow> char" where
  "upper_digit_char d = ''0123456789ABCDEF'' ! d"

definition char_digit :: "char \<Rightarrow> nat option" where
  "char_digit c =
    (let n = of_char c :: nat in
     if 48 \<le> n \<and> n \<le> 57 then Some (n - 48)
     else if 97 \<le> n \<and> n \<le> 122 then Some (n - 97 + 10)
     else if 65 \<le> n \<and> n \<le> 90 then Some (n - 65 + 10)
     else None)"

function digits :: "nat \<Rightarrow> nat \<Rightarrow> nat list" where
  "digits radix n = (if radix < 2 \<or> n < radix then [n] else digits radix (n div radix) @ [n mod radix])"
  by auto
termination
  by (relation "measure snd") auto

declare digits.simps [simp del]

definition show_radix :: "nat \<Rightarrow> nat \<Rightarrow> string" where
  "show_radix radix n = map digit_char (digits radix n)"

abbreviation show_dec :: "nat \<Rightarrow> string" where
  "show_dec \<equiv> show_radix 10"

definition show_bool :: "bool \<Rightarrow> string" where
  "show_bool b = (if b then ''true'' else ''false'')"

text \<open>Zero padding on the left to a minimal width.\<close>

definition pad0 :: "nat \<Rightarrow> string \<Rightarrow> string" where
  "pad0 w s = replicate (w - length s) (CHR ''0'') @ s"

definition show_upper_hex :: "nat \<Rightarrow> string" where
  "show_upper_hex n = map upper_digit_char (digits 16 n)"

section \<open>Parsing\<close>

text \<open>
  \<open>u64::from_str_radix\<close>: an empty string, a lone sign, a character that is no digit of the radix
  and a value that does not fit are errors; one leading plus sign is accepted.
\<close>

fun parse_digits :: "nat \<Rightarrow> nat \<Rightarrow> string \<Rightarrow> nat option" where
  "parse_digits radix acc [] = Some acc"
| "parse_digits radix acc (c # cs) =
    (case char_digit c of
       None \<Rightarrow> None
     | Some d \<Rightarrow>
         if d < radix \<and> acc * radix + d < 2 ^ 64 then parse_digits radix (acc * radix + d) cs else None)"

definition from_str_radix :: "string \<Rightarrow> nat \<Rightarrow> u64 option" where
  "from_str_radix s radix =
    (let t = (case s of c # cs \<Rightarrow> (if c = CHR ''+'' then cs else s) | [] \<Rightarrow> []) in
     if t = [] then None else map_option of_nat (parse_digits radix 0 t))"

section \<open>Printing and parsing are inverse\<close>

lemma char_digit_digit_char:
  assumes "d < 16"
  shows "char_digit (digit_char d) = Some d"
proof -
  have "\<forall>d \<in> set [0..<16]. char_digit (digit_char d) = Some d" by code_simp
  then show ?thesis using assms by simp
qed

lemma digit_char_not_plus:
  assumes "d < 16"
  shows "digit_char d \<noteq> CHR ''+''"
proof -
  have "\<forall>d \<in> set [0..<16]. digit_char d \<noteq> CHR ''+''" by code_simp
  then show ?thesis using assms by simp
qed

lemma digits_not_Nil [simp]: "digits radix n \<noteq> []"
  by (subst digits.simps) simp

lemma digits_less: "2 \<le> radix \<Longrightarrow> d \<in> set (digits radix n) \<Longrightarrow> d < radix"
  by (induction radix n rule: digits.induct) (subst (asm) (2) digits.simps, auto split: if_splits)

lemma parse_digits_append:
  "parse_digits radix acc (s @ t) =
    (case parse_digits radix acc s of None \<Rightarrow> None | Some a \<Rightarrow> parse_digits radix a t)"
  by (induction radix acc s rule: parse_digits.induct) (auto split: option.splits)

lemma parse_show:
  assumes "2 \<le> radix" and "radix \<le> 16" and "n < 2 ^ 64"
  shows "parse_digits radix 0 (map digit_char (digits radix n)) = Some n"
  using assms
proof (induction radix n rule: digits.induct)
  case (1 radix n)
  show ?case
  proof (cases "n < radix")
    case True
    then show ?thesis using 1 by (subst digits.simps) (simp add: char_digit_digit_char)
  next
    case False
    moreover have "n div radix < 2 ^ 64" using 1 by (meson div_le_dividend le_less_trans)
    ultimately have "parse_digits radix 0 (map digit_char (digits radix (n div radix))) = Some (n div radix)"
      using 1 by simp
    moreover have "char_digit (digit_char (n mod radix)) = Some (n mod radix)"
      using 1(2,3) mod_less_divisor [of radix n] by (intro char_digit_digit_char) linarith
    ultimately show ?thesis using False 1(2,3) \<open>n < 2 ^ 64\<close>
      by (subst digits.simps) (simp add: parse_digits_append)
  qed
qed

lemma from_str_radix_show:
  assumes "2 \<le> radix" and "radix \<le> 16"
  shows "from_str_radix (show_radix radix (unat a)) radix = Some a"
proof -
  obtain d ds where d: "digits radix (unat a) = d # ds"
    using digits_not_Nil [of radix "unat a"] by (cases "digits radix (unat a)") auto
  then have "d < 16" using digits_less [OF assms(1), of d "unat a"] assms(2) by simp
  then have "digit_char d \<noteq> CHR ''+''" by (rule digit_char_not_plus)
  then show ?thesis
    using parse_show [OF assms, of "unat a"] d by (simp add: from_str_radix_def show_radix_def)
qed

section \<open>Splitting\<close>

text \<open>\<open>slice::split\<close>: the pieces between the elements that satisfy a predicate.\<close>

fun split_on :: "('a \<Rightarrow> bool) \<Rightarrow> 'a list \<Rightarrow> 'a list list" where
  "split_on p [] = [[]]"
| "split_on p (x # xs) =
    (if p x then [] # split_on p xs else (x # hd (split_on p xs)) # tl (split_on p xs))"

lemma split_on_free: "\<forall>x \<in> set xs. \<not> p x \<Longrightarrow> split_on p xs = [xs]"
  by (induction xs) auto

lemma split_on_piece: "\<forall>x \<in> set xs. \<not> p x \<Longrightarrow> p y \<Longrightarrow> split_on p (xs @ y # ys) = xs # split_on p ys"
  by (induction xs) auto

end
