(* ===== verification/Heap_Allocator.thy ===== *)
theory Heap_Allocator
  imports Kernel_Memory Format
begin

text \<open>
  The clients of the page allocator: the global allocator (\<open>src/memory/allocator.rs\<close>) and the
  mapping handler for the ACPI tables (\<open>src/acpi.rs\<close>). Both are generic in their page
  allocator in the source and are used with \<open>GLOBAL_PAGE_ALLOCATOR\<close>; so they are modelled here.
  \<open>Layout\<close> and \<open>align_of::<T>()\<close> promise an alignment that is a power of two.
\<close>

section \<open>The global allocator\<close>

record layout =
  layout_size :: nat
  layout_align :: nat

definition next_multiple_of :: "u64 \<Rightarrow> u64 \<Rightarrow> u64 run" where
  "next_multiple_of x k =
     bnd (chk_rem x k) (\<lambda>r.
     if r = 0 then Inr x
     else bnd (chk_sub k r) (\<lambda>d. chk_add x d))"

text \<open>\<open>((size + (page_size % align)) / page_size) + 1\<close>\<close>

definition pages_needed :: "nat \<Rightarrow> nat \<Rightarrow> nat run" where
  "pages_needed sz align =
     (if align = 0 then Inl DivisionByZero
      else bnd (usize_add sz (page_size mod align)) (\<lambda>x. usize_add (x div page_size) 1))"

definition heap_alloc :: "layout \<Rightarrow> vm \<Rightarrow> (u64 \<times> vm) run" where
  "heap_alloc l st =
     bnd (pages_needed (layout_size l) (layout_align l)) (\<lambda>n.
     bnd (alloc_pages allocate_frame n st) (\<lambda>(r, st).
     case r of
       None \<Rightarrow> Inr (0, st)
     | Some allocation \<Rightarrow>
         bnd (as_virt_addr allocation) (\<lambda>v.
         bnd (next_multiple_of (virt_u64 v) (of_nat (layout_align l))) (\<lambda>ptr.
         Inr (ptr, st)))))"

definition heap_dealloc :: "u64 \<Rightarrow> layout \<Rightarrow> vm \<Rightarrow> vm run" where
  "heap_dealloc ptr l st =
     bnd (pages_needed (layout_size l) (layout_align l)) (\<lambda>n.
     bnd (page_from (VirtAddr ptr)) (\<lambda>p.
     dealloc_pages free_frame \<lparr>first_page = p, page_amount = n\<rparr> st))"

text \<open>
  A request of the standard library through the global allocator: a null pointer ends in \<open>handle_alloc_error\<close>.
\<close>

definition alloc_or_abort :: "layout \<Rightarrow> vm \<Rightarrow> (u64 \<times> vm) run" where
  "alloc_or_abort l st =
    bnd (heap_alloc l st) (\<lambda>(ptr, st).
    if ptr = 0 then Inl (Explicit (''memory allocation of '' @ show_dec (layout_size l) @ '' bytes failed'')) else Inr (ptr, st))"

section \<open>Mapping the ACPI tables\<close>

record physical_mapping =
  physical_start :: nat
  virtual_start :: u64
  region_length :: nat
  mapped_length :: nat

definition map_physical_region :: "nat \<Rightarrow> nat \<Rightarrow> nat \<Rightarrow> vm \<Rightarrow> (physical_mapping \<times> vm) run" where
  "map_physical_region align physical_address sz st =
     bnd (pages_needed sz align) (\<lambda>n.
     bnd (map_physical allocate_frame free_frame alloc_phy_addr (PhyAddr (of_nat physical_address)) n st)
       (\<lambda>(r, st).
     bnd (case r of None \<Rightarrow> Inl (Explicit ''ACPI TABLES SHOULDN'T BE IN USABLE MEMORY'') | Some av \<Rightarrow> Inr av)
       (\<lambda>(alloc, v).
     bnd (next_multiple_of (virt_u64 v) (of_nat align)) (\<lambda>ptr.
     bnd (if ptr = 0 then Inl UnwrapNone else Inr ()) (\<lambda>_.
     bnd (usize_mul (page_amount alloc) page_size) (\<lambda>len.
     Inr (\<lparr>physical_start = physical_address, virtual_start = ptr, region_length = sz,
           mapped_length = len\<rparr>, st)))))))"

definition unmap_physical_region :: "physical_mapping \<Rightarrow> vm \<Rightarrow> vm run" where
  "unmap_physical_region region st =
     bnd (page_allocation_new (VirtAddr (virtual_start region)) (mapped_length region div page_size)) (\<lambda>al.
     dealloc_pages free_frame al st)"

section \<open>Lemmas\<close>

lemma pages_needed_eq:
  assumes "align dvd 4096" and "sz < 2 ^ 64"
  shows "pages_needed sz align = Inr (sz div 4096 + 1)"
proof -
  have "align \<noteq> 0" using assms(1) by (intro notI) simp
  moreover have "sz div 4096 + 1 < 2 ^ 64" using assms(2) by simp
  ultimately show ?thesis using assms by (simp add: pages_needed_def page_size_def usize_add_def)
qed

lemma next_multiple_of_dvd:
  assumes "k dvd unat x" and "0 < k" and "k < 2 ^ 64"
  shows "next_multiple_of x (of_nat k) = Inr x"
proof -
  have k: "unat (of_nat k :: u64) = k" using assms(3) by (intro unat_of_nat_less) simp
  then have nz: "(of_nat k :: u64) \<noteq> 0" using assms(2) by (metis less_irrefl unat_0)
  have "unat (x mod of_nat k) = 0" using assms(1) by (simp add: unat_mod k)
  then have "x mod of_nat k = 0" by (simp add: unat_eq_zero)
  with nz show ?thesis by (simp add: next_multiple_of_def chk_rem_def)
qed

lemma dvd_4096:
  assumes "align dvd (4096 :: nat)"
  shows "0 < align" and "align < 2 ^ 64"
  using dvd_pos_nat [OF _ assms] dvd_imp_le [OF assms] by auto

lemma page_aligned:
  assumes "page_ok p" and "align dvd 4096"
  shows "align dvd unat (num p * PAGE_SIZE)"
proof -
  have "unat (num p * PAGE_SIZE) = unat (num p) * 4096"
    using assms(1) by (simp add: page_ok_def unat_word_ariths)
  then show ?thesis using assms(2) by simp
qed

lemma page_from_low:
  assumes "unat (num p) < 2 ^ 36"
  shows "page_from (VirtAddr (num p * PAGE_SIZE)) = Inr p"
proof -
  have u: "unat (num p * PAGE_SIZE) = unat (num p) * 4096" using assms by (simp add: unat_word_ariths)
  then have "is_valid (VirtAddr (num p * PAGE_SIZE))" using assms by (simp add: is_valid_iff)
  moreover have "unat (num p * PAGE_SIZE div PAGE_SIZE) = unat (num p)" unfolding unat_div u by simp
  then have "num p * PAGE_SIZE div PAGE_SIZE = num p" by (simp only: word_unat_eq_iff)
  ultimately show ?thesis by (simp add: page_from_eq)
qed

text \<open>A byte belongs to one frame, so no two bytes of mapped pages share memory when the frames are distinct.\<close>

lemma frame_byte_eq:
  assumes "frame_ok f" and "frame_ok g" and "a < 4096" and "b < 4096"
    and "phy_u64 f + of_nat a = phy_u64 g + of_nat b"
  shows "f = g" and "a = b"
proof -
  have u: "unat (phy_u64 h + of_nat k) = unat (phy_u64 h) + k" if "frame_ok h" "k < 4096" for h and k :: nat
  proof -
    have "unat (phy_u64 h) < 4503599627370496" using that(1) by (simp add: frame_ok_def)
    then show ?thesis using that(2) by (simp add: unat_word_ariths)
  qed
  have sum: "unat (phy_u64 f) + a = unat (phy_u64 g) + b"
    using u [OF assms(1,3)] u [OF assms(2,4)] assms(5) by simp
  obtain x y where xy: "unat (phy_u64 f) = 4096 * x" "unat (phy_u64 g) = 4096 * y"
    using assms(1,2) by (auto simp: frame_ok_def elim!: dvdE)
  have "(4096 * x + a) mod 4096 = (4096 * y + b) mod 4096" using sum xy by simp
  then show "a = b" using assms(3,4) by simp
  then show "f = g" using sum by (intro phy_addr.expand) (simp add: word_unat_eq_iff)
qed

lemma frame_bytes_inj:
  assumes "\<forall>f\<in>set fs. frame_ok f" and "distinct fs"
  shows "inj_on (\<lambda>i. phy_u64 (fs ! (i div 4096)) + of_nat (i mod 4096)) {..<length fs * 4096}"
proof (rule inj_onI)
  fix i j
  assume ij: "i \<in> {..<length fs * 4096}" "j \<in> {..<length fs * 4096}"
    and eq: "phy_u64 (fs ! (i div 4096)) + of_nat (i mod 4096) =
      phy_u64 (fs ! (j div 4096)) + of_nat (j mod 4096)"
  have l: "i div 4096 < length fs" "j div 4096 < length fs"
    using ij by (auto simp: less_mult_imp_div_less)
  have "fs ! (i div 4096) = fs ! (j div 4096)" "i mod 4096 = j mod 4096"
    using frame_byte_eq [OF _ _ _ _ eq] assms(1) l by simp_all
  then show "i = j" using l assms(2) by (metis div_mult_mod_eq nth_eq_iff_index_eq)
qed

lemma heap_alloc_pages:
  assumes ok: "vm_ok G (m, inner)" and n: "n = layout_size l div 4096 + 1" and al: "layout_align l dvd 4096"
    and room: "4 * n \<le> free_count (physical_allocator inner)" and run: "free_run m (last_page_alloc inner) r n"
  obtains p fs m' inner' where "heap_alloc l (m, inner) = Inr (num p * PAGE_SIZE, m', inner')"
    and "vm_ok (set fs \<union> G) (m', inner')" and "page_ok p" and "canonical_num p + n < 2 ^ 36"
    and "unat (num p) + n < 2 ^ 36"
    and "\<forall>q\<in>set (pages_from p n). view m (root m) q = Unmapped"
    and "length fs = n" and "distinct fs" and "\<forall>f\<in>set fs. frame_ok f" and "set fs \<inter> G = {}"
    and "root m' = root m" and "view m' (root m) = map_pages (view m (root m)) (pages_from p n) fs"
    and "\<forall>j<n. view m' (root m) (page_plus p j) = Mapped (page_entry_for (fs ! j))"
    and "layout_align l dvd unat (num p * PAGE_SIZE)" and "pages_needed (layout_size l) (layout_align l) = Inr n"
    and "vm_kept {} (4 * n) (m, inner) (m', inner')"
    and "\<exists>k\<le>r. p = page_plus (last_page_alloc inner) k" and "last_page_alloc inner' = page_plus p (n - 1)"
    and "root_kept (root m) (level4_idx ` set (pages_from p n)) m m'"
proof -
  have n0: "0 < n" using n by simp
  obtain p fs m' inner' where a:
    "alloc_pages allocate_frame n (m, inner) = Inr (Some \<lparr>first_page = p, page_amount = n\<rparr>, m', inner')"
    "vm_ok (set fs \<union> G) (m', inner')" "page_ok p" "canonical_num p + n < 2 ^ 36" "unat (num p) + n < 2 ^ 36"
    "\<forall>q\<in>set (pages_from p n). view m (root m) q = Unmapped"
    "length fs = n" "distinct fs" "set fs \<inter> used_frames (physical_allocator inner) = {}"
    "hhdm m' = hhdm m" "cr3 m' = cr3 m" "view m' (root m) = map_pages (view m (root m)) (pages_from p n) fs"
    "vm_kept {} (4 * n) (m, inner) (m', inner')"
    "\<exists>k\<le>r. p = page_plus (last_page_alloc inner) k" "last_page_alloc inner' = page_plus p (n - 1)"
    "root_kept (root m) (level4_idx ` set (pages_from p n)) m m'"
    by (rule vm_alloc_pages [OF ok n0 room run])
  have sz: "layout_size l < 2 ^ 64"
    using run n by (simp add: free_run_def) linarith
  note pn = pages_needed_eq [OF al sz, folded n]
  have pa: "layout_align l dvd unat (num p * PAGE_SIZE)" by (rule page_aligned [OF a(3) al])
  have fok: "\<forall>f\<in>set fs. frame_ok f"
    using vm_okD(1,4) [OF a(2)] phys.used_pool phys.pool_ok by blast
  have "heap_alloc l (m, inner) = Inr (num p * PAGE_SIZE, m', inner')"
    using a(1,3) next_multiple_of_dvd [OF pa dvd_4096 [OF al]]
    by (simp add: heap_alloc_def pn as_virt_addr_def virt_from_page_ok)
  moreover have "set fs \<inter> G = {}" using vm_okD(4) [OF ok] a(9) by blast
  moreover have "\<forall>j<n. view m' (root m) (page_plus p j) = Mapped (page_entry_for (fs ! j))"
    using mapped_pages(1) [OF a(3,4,7)] by (simp add: a(12))
  ultimately show ?thesis using that [OF _ a(2-8) fok _ root_cong [OF a(10,11)] a(12) _ pa pn a(13-16)] by blast
qed

lemma acpi_map:
  assumes ok: "vm_ok G (m, inner)" and n: "n = sz div 4096 + 1" and sz: "sz < 2 ^ 64"
    and al: "align dvd 4096" "align dvd physical_address" and pa: "physical_address < 2 ^ 64"
    and np: "np = n + (if physical_address mod 4096 = 0 then 0 else 1)"
    and room: "4 * np \<le> free_count (physical_allocator inner)"
    and frames: "frames_free (m, inner) (of_nat physical_address) np"
    and run: "free_run m (last_page_alloc inner) r np"
  obtains region p fs m1 inner1 where
    "map_physical_region align physical_address sz (m, inner) = Inr (region, m1, inner1)"
    and "\<forall>i < sz. translate m1 (virtual_start region + of_nat i) = Some (of_nat (physical_address + i))"
    and "page_from (VirtAddr (virtual_start region)) = Inr p" and "mapped_length region div page_size = np"
    and "vm_ok (set fs \<union> G) (m1, inner1)" and "page_ok p" and "canonical_num p + np < 2 ^ 36"
    and "length fs = np" and "distinct fs" and "set fs \<inter> G = {}" and "root m1 = root m"
    and "\<forall>q\<in>set (pages_from p np). view m (root m) q = Unmapped"
    and "view m1 (root m) = map_pages (view m (root m)) (pages_from p np) fs"
    and "\<forall>j<np. view m1 (root m1) (page_plus p j) = Mapped (page_entry_for (fs ! j))"
    and "vm_kept (set fs) (4 * np) (m, inner) (m1, inner1)" and "last_page_alloc inner1 = last_page_alloc inner"
    and "fs = range_frames (of_nat physical_address) np"
proof -
  let ?a = "of_nat physical_address :: u64"
  define d where "d = unat ?a mod 4096"
  define f where "f = PhyAddr (of_nat (unat ?a - d))"
  have ua: "unat ?a = physical_address" using pa by (intro unat_of_nat_less) simp
  have np0: "0 < np" "np = n + (if d = 0 then 0 else 1)" "n * 4096 \<le> np * 4096" using np n ua by (auto simp: d_def)
  note fr = frames_freeD(1) [OF frames d_def f_def]
  obtain p m1 inner1 where mp:
    "map_physical allocate_frame free_frame alloc_phy_addr (PhyAddr ?a) n (m, inner) =
       Inr (Some (\<lparr>first_page = p, page_amount = np\<rparr>, VirtAddr (num p * PAGE_SIZE + of_nat d)), m1, inner1)"
    "vm_ok (set (frames_from f np) \<union> G) (m1, inner1)" "page_ok p" "canonical_num p + np < 2 ^ 36"
    "unat (num p) + np < 2 ^ 36" "0 < unat (num p)"
    "\<forall>q\<in>set (pages_from p np). view m (root m) q = Unmapped" "hhdm m1 = hhdm m" "cr3 m1 = cr3 m"
    "view m1 (root m) = map_pages (view m (root m)) (pages_from p np) (frames_from f np)"
    "vm_kept (set (frames_from f np)) (4 * np) (m, inner) (m1, inner1)" "last_page_alloc inner1 = last_page_alloc inner"
    by (rule vm_map_physical [OF ok d_def f_def np0(2,1) room frames run])
  have rt: "root m1 = root m" by (rule root_cong) (fact mp)+
  have map: "\<forall>j<np. view m1 (root m1) (page_plus p j) = Mapped (page_entry_for (frames_from f np ! j))"
    using mapped_pages(1) [OF mp(3,4), of "frames_from f np"] by (simp add: rt mp(10))
  note fp = frames_from_pool [OF vm_okD(1) [OF ok], of np f]
  let ?v = "num p * PAGE_SIZE + of_nat d"
  have d4: "d < 4096" by (simp add: d_def)
  have pv: "unat ?v = unat (num p) * 4096 + d" "Page (?v div PAGE_SIZE) = p"
    using page_of_run(1,2) [OF mp(3,4) _ refl, of d] d4 np0(1) by auto
  let ?region = "\<lparr>physical_start = physical_address, virtual_start = ?v, region_length = sz, mapped_length = np * 4096\<rparr>"
  have "align dvd d" using al by (simp add: d_def ua dvd_mod)
  then have "align dvd unat ?v" unfolding pv(1) using al(1) by simp
  then have "next_multiple_of ?v (of_nat align) = Inr ?v"
    by (rule next_multiple_of_dvd [OF _ dvd_4096 [OF al(1)]])
  moreover have "?v \<noteq> 0" using pv(1) mp(6) by (metis add_is_0 mult_is_0 neq0_conv unat_0 zero_neq_numeral)
  moreover have "np * 4096 < 2 ^ 64" using mp(5) by simp
  ultimately have r: "map_physical_region align physical_address sz (m, inner) = Inr (?region, m1, inner1)"
    using mp(1) by (simp add: map_physical_region_def pages_needed_eq [OF al(1) sz, folded n] usize_mul_def page_size_def)
  have tr: "translate m1 (?v + of_nat i) = Some (of_nat (physical_address + i))" if "i < sz" for i
  proof -
    have "sz < n * 4096" using n by (simp add: dividend_less_div_times)
    then have "d + i < np * 4096" using that np0(2) d4 by auto
    then have "translate m1 (?v + of_nat i) = Some (?a + of_nat i)"
      by (rule translate_frames [OF mp(3,4) d_def f_def _ map]) (use fp(2) fr in auto)
    then show ?thesis by simp
  qed
  have dj: "distinct (frames_from f np)" "set (frames_from f np) \<inter> G = {}"
    using fp(1) fr vm_okD(4) [OF ok] by (auto simp: set_frames_from)
  have "is_valid (VirtAddr ?v)" using pv(1) mp(5) d4 by (simp add: is_valid_iff)
  then have pf: "page_from (VirtAddr (virtual_start ?region)) = Inr p" using pv(2) by (simp add: page_from_eq)
  show ?thesis
    by (rule that [OF r _ pf _ mp(2,3,4) length_frames_from dj rt mp(7,10) map mp(11,12)])
       (use tr in \<open>simp_all add: page_size_def range_frames_def f_def d_def\<close>)
qed

section \<open>Properties\<close>

text \<open>
  C10. \<open>GlobalAlloc::alloc\<close> for every layout aligned to at most a page: it returns an address
  with the alignment of the layout; every byte of the block was unmapped before, is mapped
  now, and no two bytes of the block share memory.
\<close>

theorem heap_alloc_correct:
  assumes "vm_ok G (m, inner)" and "n = layout_size l div 4096 + 1" and "layout_align l dvd 4096"
    and "4 * n \<le> free_count (physical_allocator inner)" and "free_run m (last_page_alloc inner) r n"
  shows "\<exists>ptr m' inner'. heap_alloc l (m, inner) = Inr (ptr, m', inner') \<and>
    layout_align l dvd unat ptr \<and> unat ptr + layout_size l < 2 ^ 64 \<and>
    (\<forall>i<layout_size l. translate m (ptr + of_nat i) = None \<and> translate m' (ptr + of_nat i) \<noteq> None) \<and>
    inj_on (\<lambda>i. translate m' (ptr + of_nat i)) {..<layout_size l}"
proof -
  obtain p fs m' inner' where a: "heap_alloc l (m, inner) = Inr (num p * PAGE_SIZE, m', inner')"
    "vm_ok (set fs \<union> G) (m', inner')" "page_ok p" "canonical_num p + n < 2 ^ 36"
    "unat (num p) + n < 2 ^ 36"
    "\<forall>q\<in>set (pages_from p n). view m (root m) q = Unmapped"
    "length fs = n" "distinct fs" "\<forall>f\<in>set fs. frame_ok f" "root m' = root m"
    "\<forall>j<n. view m' (root m) (page_plus p j) = Mapped (page_entry_for (fs ! j))"
    "layout_align l dvd unat (num p * PAGE_SIZE)"
    by (rule heap_alloc_pages [OF assms])
  let ?ptr = "num p * PAGE_SIZE"
  have sz: "layout_size l < n * 4096" using assms(2) by (simp add: dividend_less_div_times)
  have map: "\<forall>j<n. view m' (root m') (page_plus p j) = Mapped (page_entry_for (fs ! j))"
    using a(10,11) by simp
  have t: "translate m' (?ptr + of_nat i) = Some (phy_u64 (fs ! (i div 4096)) + of_nat (i mod 4096))"
    if "i < n * 4096" for i
    by (rule translate_run [OF a(3,4) that refl map]) (use a(7,9) in auto)
  have "inj_on (\<lambda>i. translate m' (?ptr + of_nat i)) {..<n * 4096}"
    using frame_bytes_inj [OF a(9,8)] by (simp add: inj_on_def t a(7))
  then have "inj_on (\<lambda>i. translate m' (?ptr + of_nat i)) {..<layout_size l}"
    by (rule inj_on_subset) (use sz in auto)
  moreover have "translate m (?ptr + of_nat i) = None" if "i < n * 4096" for i
    using page_of_run(2,3) [OF a(3,4) that refl] a(6) by (simp add: translate_def set_pages_from)
  moreover have "unat ?ptr + layout_size l < 2 ^ 64"
    using page_of_run(1) [OF a(3,4) _ refl, of 0] sz a(5) by simp
  moreover have "i < n * 4096" if "i < layout_size l" for i using sz that by (rule less_trans [rotated])
  ultimately show ?thesis using a(1,12) t
    by (intro exI [of _ ?ptr] exI [of _ m'] exI [of _ inner'] conjI allI impI) auto
qed

theorem heap_alloc_correct_witness:
  "\<exists>ptr m' inner'. heap_alloc \<lparr>layout_size = 10000, layout_align = 8\<rparr> (boot_machine, boot_inner) = Inr (ptr, m', inner') \<and>
    8 dvd unat ptr \<and> inj_on (\<lambda>i. translate m' (ptr + of_nat i)) {..<10000}"
  using heap_alloc_correct [of "{}" boot_machine boot_inner 3 "\<lparr>layout_size = 10000, layout_align = 8\<rparr>" 0]
    boot_facts by (auto simp: BITMAP_SIZE_def)

text \<open>
  Freeing a block with the layout it was allocated with restores the address space.
\<close>

lemma heap_dealloc_alloc:
  assumes "vm_ok G (m, inner)" and "n = layout_size l div 4096 + 1" and "layout_align l dvd 4096"
    and "4 * n \<le> free_count (physical_allocator inner)" and "free_run m (last_page_alloc inner) r n"
  shows "\<exists>ptr m1 inner1 m2 inner2. heap_alloc l (m, inner) = Inr (ptr, m1, inner1) \<and>
    heap_dealloc ptr l (m1, inner1) = Inr (m2, inner2) \<and>
    view m2 (root m2) = view m (root m) \<and> vm_ok G (m2, inner2)"
proof -
  obtain p fs m1 inner1 where a: "heap_alloc l (m, inner) = Inr (num p * PAGE_SIZE, m1, inner1)"
    "vm_ok (set fs \<union> G) (m1, inner1)" "page_ok p" "canonical_num p + n < 2 ^ 36"
    "unat (num p) + n < 2 ^ 36"
    "\<forall>q\<in>set (pages_from p n). view m (root m) q = Unmapped"
    "length fs = n" "distinct fs" "set fs \<inter> G = {}" "root m1 = root m"
    "view m1 (root m) = map_pages (view m (root m)) (pages_from p n) fs"
    "\<forall>j<n. view m1 (root m) (page_plus p j) = Mapped (page_entry_for (fs ! j))"
    "pages_needed (layout_size l) (layout_align l) = Inr n"
    by (rule heap_alloc_pages [OF assms])
  have "0 < n" using assms(2) by simp
  moreover have "\<forall>j<n. view m1 (root m1) (page_plus p j) = Mapped (page_entry_for (fs ! j))"
    using a(10,12) by simp
  ultimately obtain m2 inner2 where d:
    "dealloc_pages free_frame \<lparr>first_page = p, page_amount = n\<rparr> (m1, inner1) = Inr (m2, inner2)"
    "vm_ok G (m2, inner2)" "hhdm m2 = hhdm m1" "cr3 m2 = cr3 m1"
    "view m2 (root m1) = unmap_pages (view m1 (root m1)) (pages_from p n)"
    by (rule vm_dealloc_pages [OF a(2) _ a(3,4,7,8,9)])
  have "heap_dealloc (num p * PAGE_SIZE) l (m1, inner1) = Inr (m2, inner2)"
    using d(1) a(5) page_from_low [of p] by (simp add: heap_dealloc_def a(13))
  moreover have "unmap_pages (map_pages (view m (root m)) (pages_from p n) fs) (pages_from p n) = view m (root m)"
    by (rule unmap_map_pages) (use a(6,7) in \<open>auto intro: view_canonical\<close>)
  ultimately show ?thesis using a(1,10,11) d(2,5) root_cong [OF d(3,4)]
    by (intro exI [of _ "num p * PAGE_SIZE"] exI [of _ m1] exI [of _ inner1] exI [of _ m2] exI [of _ inner2]) simp
qed

lemma next_multiple_of_next:
  assumes "0 < k" and "unat x + k < 2 ^ 64"
  shows "\<exists>y. next_multiple_of x (of_nat k) = Inr y \<and> k dvd unat y \<and> unat x \<le> unat y \<and> unat y < unat x + k"
proof (cases "k dvd unat x")
  case True
  then show ?thesis using assms next_multiple_of_dvd [OF True] by (intro exI [of _ x]) simp
next
  case False
  define r where "r = unat x mod k"
  have r: "0 < r" "r < k" "r \<le> unat x" using False assms(1) by (auto simp: r_def mod_greater_zero_iff_not_dvd)
  have k: "unat (of_nat k :: u64) = k" using assms(2) by (intro unat_of_nat_less) simp
  have ur: "unat (x mod of_nat k) = r" by (simp add: unat_mod k r_def)
  have nz: "(of_nat k :: u64) \<noteq> 0" "x mod of_nat k \<noteq> 0" using k ur r(1) assms(1) by (auto simp flip: unat_eq_zero)
  have "x mod of_nat k \<le> of_nat k" using r(2) by (simp add: word_le_nat_alt k ur)
  then have d: "chk_sub (of_nat k) (x mod of_nat k) = Inr (of_nat k - x mod of_nat k)"
    "unat (of_nat k - x mod of_nat k) = k - r"
    by (simp_all add: chk_sub_def unat_sub k ur)
  let ?y = "x + (of_nat k - x mod of_nat k)"
  have y: "unat ?y = unat x + (k - r)" using assms(2) r by (subst unat_add_lem [THEN iffD1]) (simp_all add: d(2))
  have "next_multiple_of x (of_nat k) = Inr ?y"
    using nz assms(2) r by (simp add: next_multiple_of_def chk_rem_def d chk_add_def)
  moreover have "unat x + (k - r) = unat x div k * k + k"
    using r div_mult_mod_eq [of "unat x" k] by (simp only: r_def [symmetric])
  then have "k dvd unat ?y" unfolding y by simp
  ultimately show ?thesis using y r(1,2) by (intro exI [of _ ?y]) simp
qed

text \<open>The bytes at and above the start of a run of pages that has been mapped.\<close>

lemma run_byte:
  assumes p: "page_ok p" "unat (num p) + n < 2 ^ 36" "canonical_num p + n < 2 ^ 36"
    and v: "view m' (root m') = map_pages (view m (root m)) (pages_from p n) fs" "length fs = n"
    and un: "\<forall>q\<in>set (pages_from p n). view m (root m) q = Unmapped"
    and a: "unat (num p) * 4096 \<le> unat a" "unat a < 2 ^ 48"
  shows "if unat a < (unat (num p) + n) * 4096 then translate m a = None \<and> translate m' a \<noteq> None
    else translate m' a = translate m a"
proof (cases "unat a < (unat (num p) + n) * 4096")
  case True
  define d where "d = unat a - unat (num p) * 4096"
  have "unat (num p * PAGE_SIZE) = unat (num p) * 4096" using p(2) by (simp add: unat_word_ariths)
  then have "a = num p * PAGE_SIZE + of_nat d" using a(1) by (simp add: d_def of_nat_diff word_unat_eq_iff unat_word_ariths)
  moreover have "d < n * 4096" using True a(1) by (simp add: d_def add_mult_distrib)
  ultimately have q: "Page (a div PAGE_SIZE) = page_plus p (d div 4096)" "d div 4096 < n"
    using page_of_run(2,3) [OF p(1,3)] by blast+
  then show ?thesis using True un mapped_pages(1) [OF p(1,3) v(2)] by (simp add: translate_def v(1) set_pages_from)
next
  case False
  have u: "unat (a div PAGE_SIZE) = unat a div 4096" by (simp add: unat_div)
  have "canonical_num (Page (a div PAGE_SIZE)) = unat a div 4096" "unat (num p) + n \<le> unat a div 4096"
    using False a(2) by (simp_all add: canonical_num_eq u)
  moreover have "canonical_num (page_plus p j) = unat (num p) + j" if "j < n" for j
    using page_plus_nums(2) [OF p(1), of j] p(2,3) that by (simp add: canonical_num_eq)
  ultimately have "canonical_num (Page (a div PAGE_SIZE)) \<notin> canonical_num ` set (pages_from p n)"
    by (auto simp: set_pages_from)
  then show ?thesis using False mapped_pages(2) [OF p(1,3) v(2)] by (simp add: translate_def v(1))
qed

text \<open>
  C39. No space is provided for an alignment above the page size: for every layout with such an alignment (a power of two below \<open>2 ^ 63\<close>) the
  allocator maps \<open>size / 4096 + 2\<close> pages from some page \<open>p\<close> on, whatever the alignment, and returns the next multiple of the alignment at or above their start. The
  bytes of the block that lie in these pages were unmapped and are mapped now; those at or above the end of the pages are as they were before the request. So the block is
  backed only as far as it lies below \<open>(p + n) * 4096\<close>, and not at all when the multiple is at or above this address.
\<close>

theorem heap_alloc_over_aligned:
  assumes "vm_ok G (m, inner)" and "layout_align l = 2 ^ e" and "12 < e" and "e < 63" and "n = layout_size l div 4096 + 2"
    and "4 * n \<le> free_count (physical_allocator inner)" and "free_run m (last_page_alloc inner) r n"
  shows "\<exists>p ptr m' inner'. heap_alloc l (m, inner) = Inr (ptr, m', inner') \<and>
    (\<exists>k\<le>r. p = page_plus (last_page_alloc inner) k) \<and>
    layout_align l dvd unat ptr \<and> unat (num p) * 4096 \<le> unat ptr \<and> unat ptr < unat (num p) * 4096 + layout_align l \<and>
    (\<forall>i. unat ptr + i < 2 ^ 48 \<longrightarrow>
      (if unat ptr + i < (unat (num p) + n) * 4096 then translate m (ptr + of_nat i) = None \<and> translate m' (ptr + of_nat i) \<noteq> None
       else translate m' (ptr + of_nat i) = translate m (ptr + of_nat i)))"
proof -
  have n0: "0 < n" using assms(5) by simp
  obtain p fs m' inner' where a:
    "alloc_pages allocate_frame n (m, inner) = Inr (Some \<lparr>first_page = p, page_amount = n\<rparr>, m', inner')"
    "vm_ok (set fs \<union> G) (m', inner')" "page_ok p" "canonical_num p + n < 2 ^ 36" "unat (num p) + n < 2 ^ 36"
    "\<exists>k\<le>r. p = page_plus (last_page_alloc inner) k"
    "\<forall>q\<in>set (pages_from p n). view m (root m) q = Unmapped" "length fs = n"
    "hhdm m' = hhdm m" "cr3 m' = cr3 m" "view m' (root m) = map_pages (view m (root m)) (pages_from p n) fs"
    by (rule vm_alloc_pages [OF assms(1) n0 assms(6,7)])
  have al: "4096 < layout_align l" "layout_align l \<le> 2 ^ 62"
    using power_strict_increasing [of 12 e "2 :: nat"] power_increasing [of e 62 "2 :: nat"] assms(2-4) by simp_all
  have pn: "pages_needed (layout_size l) (layout_align l) = Inr n"
    using al a(5) assms(5) by (simp add: pages_needed_def page_size_def usize_add_def) linarith
  let ?v = "num p * PAGE_SIZE"
  have v: "unat ?v = unat (num p) * 4096" using a(5) by (simp add: unat_word_ariths)
  obtain ptr where ptr: "next_multiple_of ?v (of_nat (layout_align l)) = Inr ptr" "layout_align l dvd unat ptr"
    "unat (num p) * 4096 \<le> unat ptr" "unat ptr < unat (num p) * 4096 + layout_align l"
    using next_multiple_of_next [of "layout_align l" ?v] al a(5) by (auto simp: v)
  have "heap_alloc l (m, inner) = Inr (ptr, m', inner')"
    using a(1,3) ptr(1) by (simp add: heap_alloc_def pn as_virt_addr_def virt_from_page_ok)
  moreover have "if unat ptr + i < (unat (num p) + n) * 4096 then translate m (ptr + of_nat i) = None \<and> translate m' (ptr + of_nat i) \<noteq> None
       else translate m' (ptr + of_nat i) = translate m (ptr + of_nat i)" if i: "unat ptr + i < 2 ^ 48" for i
  proof -
    have "unat (ptr + of_nat i) = unat ptr + i" using i by (simp add: unat_word_ariths unat_of_nat)
    then show ?thesis
      using run_byte [OF a(3,5,4) _ a(8,7), of m' "ptr + of_nat i"] a(11) root_cong [OF a(9,10)] ptr(3) i by simp
  qed
  ultimately show ?thesis using a(6) ptr(2-4) by blast
qed

theorem heap_alloc_over_aligned_witness:
  "\<exists>m' inner'. heap_alloc \<lparr>layout_size = 4096, layout_align = 16384\<rparr> (boot_machine, boot_inner) = Inr (0x4000, m', inner') \<and>
    translate m' 0x4000 = None"
proof -
  have n: "(3 :: nat) = layout_size \<lparr>layout_size = 4096, layout_align = 16384\<rparr> div 4096 + 2"
    and al: "layout_align \<lparr>layout_size = 4096, layout_align = 16384\<rparr> = 2 ^ 14" by simp_all
  obtain p ptr m' inner' where a:
    "heap_alloc \<lparr>layout_size = 4096, layout_align = 16384\<rparr> (boot_machine, boot_inner) = Inr (ptr, m', inner')"
    "\<exists>k\<le>0. p = page_plus (last_page_alloc boot_inner) k" "2 ^ 14 dvd unat ptr"
    "unat (num p) * 4096 \<le> unat ptr" "unat ptr < unat (num p) * 4096 + 2 ^ 14"
    "\<forall>i. unat ptr + i < 2 ^ 48 \<longrightarrow> (if unat ptr + i < (unat (num p) + 3) * 4096
      then translate boot_machine (ptr + of_nat i) = None \<and> translate m' (ptr + of_nat i) \<noteq> None
      else translate m' (ptr + of_nat i) = translate boot_machine (ptr + of_nat i))"
    using heap_alloc_over_aligned [OF boot_vm_ok al _ _ n, of 0] boot_facts by (auto simp: BITMAP_SIZE_def)
  have p: "p = Page 1" using a(2) by (simp add: boot_inner_def)
  obtain k where "unat ptr = 2 ^ 14 * k" using a(3) by (elim dvdE)
  then have u: "unat ptr = 16384" using a(4,5) by (cases "k = 1") (auto simp: p)
  then have "unat ptr = unat (0x4000 :: u64)" by simp
  then have "ptr = 0x4000" by (simp only: word_unat_eq_iff)
  then show ?thesis using a(1) a(6) [rule_format, of 0] by (auto simp: p translate_def boot_view)
qed

text \<open>
  Mapping an ACPI table and unmapping it again: the \<open>sz\<close> bytes at the physical address are
  visible at \<open>virtual_start\<close>, and unmapping restores the address space. The table is aligned
  for its type, and its frames are free in the bitmap and hold no page table.
\<close>

lemma acpi_map_unmap:
  assumes "vm_ok G (m, inner)" and "n = sz div 4096 + 1" and "sz < 2 ^ 64"
    and "align dvd 4096" "align dvd physical_address" and "physical_address < 2 ^ 64"
    and "np = n + (if physical_address mod 4096 = 0 then 0 else 1)"
    and "4 * np \<le> free_count (physical_allocator inner)"
    and "frames_free (m, inner) (of_nat physical_address) np"
    and "free_run m (last_page_alloc inner) r np"
  shows "\<exists>region m1 inner1 m2 inner2.
    map_physical_region align physical_address sz (m, inner) = Inr (region, m1, inner1) \<and>
    (\<forall>i < sz. translate m1 (virtual_start region + of_nat i) = Some (of_nat (physical_address + i))) \<and>
    unmap_physical_region region (m1, inner1) = Inr (m2, inner2) \<and>
    view m2 (root m2) = view m (root m) \<and> vm_ok G (m2, inner2)"
proof -
  obtain region p fs m1 inner1 where a:
    "map_physical_region align physical_address sz (m, inner) = Inr (region, m1, inner1)"
    "\<forall>i < sz. translate m1 (virtual_start region + of_nat i) = Some (of_nat (physical_address + i))"
    "page_from (VirtAddr (virtual_start region)) = Inr p" "mapped_length region div page_size = np"
    "vm_ok (set fs \<union> G) (m1, inner1)" "page_ok p" "canonical_num p + np < 2 ^ 36"
    "length fs = np" "distinct fs" "set fs \<inter> G = {}" "root m1 = root m"
    "\<forall>q\<in>set (pages_from p np). view m (root m) q = Unmapped"
    "view m1 (root m) = map_pages (view m (root m)) (pages_from p np) fs"
    "\<forall>j<np. view m1 (root m1) (page_plus p j) = Mapped (page_entry_for (fs ! j))"
    by (rule acpi_map [OF assms])
  have "0 < np" using assms(2,7) by simp
  then obtain m2 inner2 where de:
    "dealloc_pages free_frame \<lparr>first_page = p, page_amount = np\<rparr> (m1, inner1) = Inr (m2, inner2)"
    "vm_ok G (m2, inner2)" "hhdm m2 = hhdm m1" "cr3 m2 = cr3 m1"
    "view m2 (root m1) = unmap_pages (view m1 (root m1)) (pages_from p np)"
    by (rule vm_dealloc_pages [OF a(5) _ a(6-10,14)])
  have un: "unmap_physical_region region (m1, inner1) = Inr (m2, inner2)"
    using de(1) a(3,4) by (simp add: unmap_physical_region_def page_allocation_new_def)
  have "unmap_pages (map_pages (view m (root m)) (pages_from p np) fs) (pages_from p np) = view m (root m)"
    by (rule unmap_map_pages) (use a(8,12) in \<open>auto intro: view_canonical\<close>)
  then have "view m2 (root m2) = view m (root m)"
    using de(5) root_cong [OF de(3,4)] by (simp add: a(11,13))
  with a(1,2) un de(2) show ?thesis
    by (intro exI [of _ region] exI [of _ m1] exI [of _ inner1] exI [of _ m2] exI [of _ inner2]) simp
qed

end
