(* ===== verification/Memory_System.thy ===== *)
theory Memory_System
  imports Heap_Allocator
begin

text \<open>
  The memory system as a whole: any sequence of requests of its clients (pages for the kernel, blocks of the
  heap, registers of devices, ACPI tables) and of their releases, interleaved with what the
  processor does to its translation cache.

  The state is that of the page allocator (\<open>vm\<close>), the cached translations and the list of live
  allocations, newest first. A request is a step when there are frames for it and for the tables it may need and a run
  of free pages, and when its frames, for a physical range, are free and hold no page table; the requests themselves are the
  functions of \<open>virt.rs\<close>, \<open>allocator.rs\<close> and \<open>acpi.rs\<close>.

  Lemmas: in every reachable state the live allocations are mapped and share no memory, the cached translations are
  those of the tables, and every live allocation can be released.
\<close>

section \<open>Steps\<close>

definition has_room :: "vm \<Rightarrow> nat \<Rightarrow> bool" where
  "has_room st n \<longleftrightarrow> 0 < n \<and> 4 * n \<le> free_count (physical_allocator (snd st)) \<and>
    (\<exists>r. free_run (fst st) (last_page_alloc (snd st)) r n)"

definition whole_pages :: "u64 \<Rightarrow> nat \<Rightarrow> nat" where
  "whole_pages a n = n + (if unat a mod 4096 = 0 then 0 else 1)"

text \<open>A request that was granted and the allocation it returned.\<close>

inductive granted :: "vm \<Rightarrow> page_allocation \<Rightarrow> vm \<Rightarrow> bool" where
  pages: "has_room st n \<Longrightarrow> alloc_pages allocate_frame n st = Inr (Some al, st') \<Longrightarrow> granted st al st'"
| device: "0 < n \<Longrightarrow> has_room st (whole_pages a n) \<Longrightarrow> frames_free st a (whole_pages a n) \<Longrightarrow>
    map_physical allocate_frame free_frame alloc_phy_addr (PhyAddr a) n st = Inr (Some (al, v), st') \<Longrightarrow>
    granted st al st'"
| heap: "layout_align l dvd 4096 \<Longrightarrow> has_room st (layout_size l div 4096 + 1) \<Longrightarrow>
    heap_alloc l st = Inr (ptr, st') \<Longrightarrow>
    page_allocation_new (VirtAddr ptr) (layout_size l div 4096 + 1) = Inr al \<Longrightarrow> granted st al st'"
| acpi: "sz < 2 ^ 64 \<Longrightarrow> pa < 2 ^ 64 \<Longrightarrow> align dvd 4096 \<Longrightarrow> align dvd pa \<Longrightarrow>
    has_room st (whole_pages (of_nat pa) (sz div 4096 + 1)) \<Longrightarrow>
    frames_free st (of_nat pa) (whole_pages (of_nat pa) (sz div 4096 + 1)) \<Longrightarrow>
    map_physical_region align pa sz st = Inr (region, st') \<Longrightarrow>
    page_allocation_new (VirtAddr (virtual_start region)) (mapped_length region div page_size) = Inr al \<Longrightarrow>
    granted st al st'"

text \<open>The release of an allocation, through the function of the client that made it.\<close>

inductive released :: "vm \<Rightarrow> page_allocation \<Rightarrow> vm \<Rightarrow> bool" where
  pages: "dealloc_pages free_frame al st = Inr st' \<Longrightarrow> released st al st'"
| heap: "pages_needed (layout_size l) (layout_align l) = Inr n \<Longrightarrow> page_allocation_new (VirtAddr ptr) n = Inr al \<Longrightarrow>
    heap_dealloc ptr l st = Inr st' \<Longrightarrow> released st al st'"
| acpi: "page_allocation_new (VirtAddr (virtual_start region)) (mapped_length region div page_size) = Inr al \<Longrightarrow>
    unmap_physical_region region st = Inr st' \<Longrightarrow> released st al st'"

lemma released_dealloc: "released st al st' \<longleftrightarrow> dealloc_pages free_frame al st = Inr st'"
  by (auto intro: released.pages elim!: released.cases
      simp: heap_dealloc_def unmap_physical_region_def page_allocation_new_def bnd_eq_Inr_iff)

text \<open>The translation cache: \<open>invlpg\<close> drops what is cached for the page of its address.\<close>

type_synonym tlb = "(page \<times> page_table_entry) set"

definition flush :: "u64 list \<Rightarrow> tlb \<Rightarrow> tlb" where
  "flush as c = {(p, e) \<in> c. \<forall>a \<in> set as. canonical_num (Page (a div PAGE_SIZE)) \<noteq> canonical_num p}"

definition new_invalidations :: "vm \<Rightarrow> vm \<Rightarrow> u64 list" where
  "new_invalidations st st' = drop (length (invalidated (fst st))) (invalidated (fst st'))"

type_synonym memory_state = "vm \<times> tlb \<times> page_allocation list"

inductive memory_step :: "memory_state \<Rightarrow> memory_state \<Rightarrow> bool" where
  grant: "granted st al st' \<Longrightarrow>
    memory_step (st, c, live) (st', flush (new_invalidations st st') c, al # live)"
| release: "al \<in> set live \<Longrightarrow> released st al st' \<Longrightarrow>
    memory_step (st, c, live) (st', flush (new_invalidations st st') c, remove1 al live)"
| walk: "view (fst st) (root (fst st)) p = Mapped e \<Longrightarrow> memory_step (st, c, live) (st, insert (p, e) c, live)"
| evict: "c' \<subseteq> c \<Longrightarrow> memory_step (st, c, live) (st, c', live)"

abbreviation memory_reachable :: "vm \<Rightarrow> memory_state \<Rightarrow> bool" where
  "memory_reachable st0 \<equiv> memory_step\<^sup>*\<^sup>* (st0, {}, [])"

section \<open>What a grant does\<close>

definition block_pages :: "page_allocation \<Rightarrow> nat set" where
  "block_pages b = canonical_num ` set (pages_from (first_page b) (page_amount b))"

definition block_ok :: "page_allocation \<Rightarrow> bool" where
  "block_ok b \<longleftrightarrow> 0 < page_amount b \<and> page_ok (first_page b) \<and> canonical_num (first_page b) + page_amount b < 2 ^ 36"

definition grown :: "phy_addr set \<Rightarrow> vm \<Rightarrow> page_allocation \<Rightarrow> phy_addr list \<Rightarrow> vm \<Rightarrow> bool" where
  "grown G st b fs st' \<longleftrightarrow> block_ok b \<and> length fs = page_amount b \<and> distinct fs \<and> set fs \<inter> G = {} \<and>
    vm_ok (set fs \<union> G) st' \<and> vm_kept (set fs) (4 * page_amount b) st st' \<and> root (fst st') = root (fst st) \<and>
    view (fst st') (root (fst st)) =
      map_pages (view (fst st) (root (fst st))) (pages_from (first_page b) (page_amount b)) fs \<and>
    (\<forall>q \<in> set (pages_from (first_page b) (page_amount b)). view (fst st) (root (fst st)) q = Unmapped)"

lemma grown_pages:
  assumes "vm_ok G st" and "has_room st n" and "alloc_pages allocate_frame n st = Inr (Some al, st')"
  shows "\<exists>fs. grown G st al fs st'"
proof -
  obtain m inner where st: "st = (m, inner)" by fastforce
  obtain r where r: "0 < n" "4 * n \<le> free_count (physical_allocator inner)" "free_run m (last_page_alloc inner) r n"
    using assms(2) by (auto simp: has_room_def st)
  obtain p fs m' inner' where a:
    "alloc_pages allocate_frame n (m, inner) = Inr (Some \<lparr>first_page = p, page_amount = n\<rparr>, m', inner')"
    "vm_ok (set fs \<union> G) (m', inner')" "page_ok p" "canonical_num p + n < 2 ^ 36"
    "\<forall>q\<in>set (pages_from p n). view m (root m) q = Unmapped"
    "length fs = n" "distinct fs" "set fs \<inter> used_frames (physical_allocator inner) = {}"
    "hhdm m' = hhdm m" "cr3 m' = cr3 m"
    "view m' (root m) = map_pages (view m (root m)) (pages_from p n) fs"
    "vm_kept {} (4 * n) (m, inner) (m', inner')"
    by (rule vm_alloc_pages [OF assms(1) [unfolded st] r])
  have "set fs \<inter> G = {}" using vm_okD(4) [OF assms(1) [unfolded st]] a(8) by blast
  then show ?thesis
    using a r(1) assms(3) root_cong [OF a(9,10)] vm_kept_mono by (intro exI [of _ fs]) (auto simp: grown_def block_ok_def st)
qed

lemma grown_device:
  assumes "vm_ok G st" and n: "0 < n" and "has_room st (whole_pages a n)" and "frames_free st a (whole_pages a n)"
    and "map_physical allocate_frame free_frame alloc_phy_addr (PhyAddr a) n st = Inr (Some (al, v), st')"
  shows "grown G st al (range_frames a (whole_pages a n)) st'" and "last_page_alloc (snd st') = last_page_alloc (snd st)"
proof -
  obtain m inner where st: "st = (m, inner)" by fastforce
  define d where "d = unat a mod 4096"
  define f where "f = PhyAddr (of_nat (unat a - d))"
  define np where "np = n + (if d = 0 then 0 else 1)"
  have wp: "whole_pages a n = np" by (simp add: whole_pages_def np_def d_def)
  obtain r where r: "0 < np" "4 * np \<le> free_count (physical_allocator inner)" "free_run m (last_page_alloc inner) r np"
    using assms(3) by (auto simp: has_room_def st wp)
  have free: "frames_free (m, inner) a np" using assms(4) by (simp add: wp st)
  note fr = frames_freeD(1) [OF free d_def f_def]
  obtain p m' inner' where mp:
    "map_physical allocate_frame free_frame alloc_phy_addr (PhyAddr a) n (m, inner) =
       Inr (Some (\<lparr>first_page = p, page_amount = np\<rparr>, VirtAddr (num p * PAGE_SIZE + of_nat d)), m', inner')"
    "vm_ok (set (frames_from f np) \<union> G) (m', inner')" "page_ok p" "canonical_num p + np < 2 ^ 36"
    "\<forall>q\<in>set (pages_from p np). view m (root m) q = Unmapped" "hhdm m' = hhdm m" "cr3 m' = cr3 m"
    "view m' (root m) = map_pages (view m (root m)) (pages_from p np) (frames_from f np)"
    "vm_kept (set (frames_from f np)) (4 * np) (m, inner) (m', inner')" "last_page_alloc inner' = last_page_alloc inner"
    by (rule vm_map_physical [OF assms(1) [unfolded st] d_def f_def np_def r(1,2) free r(3)])
  have "distinct (frames_from f np)" "set (frames_from f np) \<inter> G = {}"
    using frames_from_pool(1) [OF vm_okD(1) [OF assms(1) [unfolded st]], of np f] fr
      vm_okD(4) [OF assms(1) [unfolded st]] by (auto simp: set_frames_from)
  then show "grown G st al (range_frames a (whole_pages a n)) st'"
    using mp r(1) assms(5) root_cong [OF mp(6,7)]
    by (auto simp: grown_def block_ok_def st wp range_frames_def f_def d_def)
  show "last_page_alloc (snd st') = last_page_alloc (snd st)" using mp(1,10) assms(5) by (auto simp: st)
qed

lemma grown_heap:
  assumes "vm_ok G st" and "layout_align l dvd 4096" and "has_room st (layout_size l div 4096 + 1)"
    and "heap_alloc l st = Inr (ptr, st')"
    and "page_allocation_new (VirtAddr ptr) (layout_size l div 4096 + 1) = Inr al"
  shows "\<exists>fs. grown G st al fs st'"
proof -
  obtain m inner where st: "st = (m, inner)" by fastforce
  define n where "n = layout_size l div 4096 + 1"
  obtain r where r: "4 * n \<le> free_count (physical_allocator inner)" "free_run m (last_page_alloc inner) r n"
    using assms(3) by (auto simp: has_room_def st n_def)
  obtain p fs m' inner' where a: "heap_alloc l (m, inner) = Inr (num p * PAGE_SIZE, m', inner')"
    "vm_ok (set fs \<union> G) (m', inner')" "page_ok p" "canonical_num p + n < 2 ^ 36" "unat (num p) + n < 2 ^ 36"
    "\<forall>q\<in>set (pages_from p n). view m (root m) q = Unmapped"
    "length fs = n" "distinct fs" "set fs \<inter> G = {}" "root m' = root m"
    "view m' (root m) = map_pages (view m (root m)) (pages_from p n) fs"
    "vm_kept {} (4 * n) (m, inner) (m', inner')"
    by (rule heap_alloc_pages [OF assms(1) [unfolded st] n_def assms(2) r])
  have "page_from (VirtAddr (num p * PAGE_SIZE)) = Inr p" using a(5) by (intro page_from_low) simp
  then have "al = \<lparr>first_page = p, page_amount = n\<rparr>" and "st' = (m', inner')"
    using a(1) assms(4,5) by (simp_all add: st page_allocation_new_def n_def)
  then show ?thesis using a n_def vm_kept_mono by (intro exI [of _ fs]) (auto simp: grown_def block_ok_def st)
qed

lemma grown_acpi:
  assumes "vm_ok G st" and "sz < 2 ^ 64" and "pa < 2 ^ 64" and "align dvd 4096" and "align dvd pa"
    and "has_room st (whole_pages (of_nat pa) (sz div 4096 + 1))"
    and "frames_free st (of_nat pa) (whole_pages (of_nat pa) (sz div 4096 + 1))"
    and "map_physical_region align pa sz st = Inr (region, st')"
    and "page_allocation_new (VirtAddr (virtual_start region)) (mapped_length region div page_size) = Inr al"
  shows "grown G st al (range_frames (of_nat pa) (whole_pages (of_nat pa) (sz div 4096 + 1))) st'"
    and "last_page_alloc (snd st') = last_page_alloc (snd st)"
proof -
  obtain m inner where st: "st = (m, inner)" by fastforce
  define n where "n = sz div 4096 + 1"
  define np where "np = n + (if pa mod 4096 = 0 then 0 else 1)"
  have ua: "unat (of_nat pa :: u64) = pa" using assms(3) by (intro unat_of_nat_less) simp
  then have wp: "whole_pages (of_nat pa) (sz div 4096 + 1) = np" by (simp add: whole_pages_def np_def n_def)
  obtain r where r: "0 < np" "4 * np \<le> free_count (physical_allocator inner)" "free_run m (last_page_alloc inner) r np"
    using assms(6) [unfolded wp] by (auto simp: has_room_def st)
  have fr: "frames_free (m, inner) (of_nat pa) np" using assms(7) [unfolded wp] by (simp add: st)
  obtain reg p fs m1 inner1 where a:
    "map_physical_region align pa sz (m, inner) = Inr (reg, m1, inner1)"
    "page_from (VirtAddr (virtual_start reg)) = Inr p" "mapped_length reg div page_size = np"
    "vm_ok (set fs \<union> G) (m1, inner1)" "page_ok p" "canonical_num p + np < 2 ^ 36"
    "length fs = np" "distinct fs" "set fs \<inter> G = {}" "root m1 = root m"
    "\<forall>q\<in>set (pages_from p np). view m (root m) q = Unmapped"
    "view m1 (root m) = map_pages (view m (root m)) (pages_from p np) fs"
    "vm_kept (set fs) (4 * np) (m, inner) (m1, inner1)" "last_page_alloc inner1 = last_page_alloc inner"
    "fs = range_frames (of_nat pa) np"
    by (rule acpi_map [OF assms(1) [unfolded st] n_def assms(2,4,5,3) np_def r(2) fr r(3)])
  have "al = \<lparr>first_page = p, page_amount = np\<rparr>" and s': "st' = (m1, inner1)"
    using a(1-3) assms(8,9) by (auto simp: st page_allocation_new_def)
  then show "grown G st al (range_frames (of_nat pa) (whole_pages (of_nat pa) (sz div 4096 + 1))) st'"
    using a(1-13) a(15) r(1) unfolding wp by (auto simp: grown_def block_ok_def st)
  show "last_page_alloc (snd st') = last_page_alloc (snd st)" using a(14) by (simp add: st s')
qed

lemma granted_grown: "granted st al st' \<Longrightarrow> vm_ok G st \<Longrightarrow> \<exists>fs. grown G st al fs st'"
  by (induction rule: granted.induct)
    (blast intro: grown_pages, blast intro: grown_device, blast intro: grown_heap, blast intro: grown_acpi)

section \<open>The invariant\<close>

definition block_mapped :: "machine \<Rightarrow> page_allocation \<Rightarrow> phy_addr list \<Rightarrow> bool" where
  "block_mapped m b fs \<longleftrightarrow> block_ok b \<and> length fs = page_amount b \<and>
    (\<forall>j < page_amount b. view m (root m) (page_plus (first_page b) j) = Mapped (page_entry_for (fs ! j)))"

text \<open>\<open>fss\<close> are the frames of the live allocations.\<close>

definition live_inv :: "vm \<Rightarrow> vm \<Rightarrow> page_allocation list \<Rightarrow> phy_addr list list \<Rightarrow> bool" where
  "live_inv st0 st live fss \<longleftrightarrow> vm_ok (set (concat fss)) st \<and> outside_kept (set (concat fss)) st0 st \<and> distinct (concat fss) \<and>
    list_all2 (block_mapped (fst st)) live fss \<and>
    (\<forall>q. view (fst st) (root (fst st)) q \<noteq> view (fst st0) (root (fst st0)) q \<longrightarrow>
      (\<exists>b \<in> set live. canonical_num q \<in> block_pages b)) \<and>
    (\<forall>b \<in> set live. \<forall>q. canonical_num q \<in> block_pages b \<longrightarrow> view (fst st0) (root (fst st0)) q = Unmapped)"

lemma live_invD:
  assumes "live_inv st0 st live fss"
  shows "vm_ok (set (concat fss)) st" and "distinct (concat fss)" and "list_all2 (block_mapped (fst st)) live fss"
    and "(\<And>b. b \<in> set live \<Longrightarrow> canonical_num q \<notin> block_pages b) \<Longrightarrow>
      view (fst st) (root (fst st)) q = view (fst st0) (root (fst st0)) q"
    and "b \<in> set live \<Longrightarrow> canonical_num q \<in> block_pages b \<Longrightarrow> view (fst st0) (root (fst st0)) q = Unmapped"
    and "outside_kept (set (concat fss)) st0 st"
  using assms unfolding live_inv_def by blast+

lemma view_in_block:
  assumes "canonical_num q \<in> block_pages b"
  shows "\<exists>j < page_amount b. view m t q = view m t (page_plus (first_page b) j)"
proof -
  obtain j where "j < page_amount b" "canonical_num q = canonical_num (page_plus (first_page b) j)"
    using assms by (auto simp: block_pages_def set_pages_from)
  then show ?thesis using view_canonical by blast
qed

lemma mapped_not_unmapped:
  assumes "block_mapped m b fs" and "canonical_num q \<in> block_pages b"
  shows "view m (root m) q \<noteq> Unmapped"
  using assms(1) view_in_block [OF assms(2), of m "root m"] by (auto simp: block_mapped_def)

lemma live_inv_grown:
  assumes inv: "live_inv st0 st live fss" and g: "grown (set (concat fss)) st b fs st'"
  shows "live_inv st0 st' (b # live) (fs # fss)"
proof -
  note I = live_invD [OF inv]
  let ?v = "view (fst st) (root (fst st))" and ?v' = "view (fst st') (root (fst st'))"
  have G: "block_ok b" "length fs = page_amount b" "distinct fs" "set fs \<inter> set (concat fss) = {}"
    "vm_ok (set fs \<union> set (concat fss)) st'" "?v' = map_pages ?v (pages_from (first_page b) (page_amount b)) fs"
    "\<forall>q \<in> set (pages_from (first_page b) (page_amount b)). ?v q = Unmapped"
    using g by (auto simp: grown_def)
  have new: "block_mapped (fst st') b fs"
    using mapped_pages(1) G(1,2,6) by (auto simp: block_mapped_def block_ok_def)
  have un: "?v q = Unmapped" if "canonical_num q \<in> block_pages b" for q
    using G(7) view_in_block [OF that, of "fst st" "root (fst st)"] by (auto simp: set_pages_from)
  have other: "?v' q = ?v q" if "canonical_num q \<notin> block_pages b" for q
    using that map_pages_other by (simp add: G(6) block_pages_def)
  have old: "block_mapped (fst st') a hs" if "block_mapped (fst st) a hs" for a hs
  proof -
    have "canonical_num q \<notin> block_pages b" if "q \<in> set (pages_from (first_page a) (page_amount a))" for q
      using mapped_not_unmapped [OF \<open>block_mapped (fst st) a hs\<close>] un that by (fastforce simp: block_pages_def)
    then show ?thesis using that other by (auto simp: block_mapped_def set_pages_from)
  qed
  have "list_all2 (block_mapped (fst st')) (b # live) (fs # fss)"
    using new list_all2_mono [OF I(3), of "block_mapped (fst st')"] old by simp
  moreover have "view (fst st0) (root (fst st0)) q = Unmapped" if "canonical_num q \<in> block_pages b" for q
  proof -
    have "canonical_num q \<notin> block_pages a" if "a \<in> set live" for a
      using mapped_not_unmapped un [OF \<open>canonical_num q \<in> block_pages b\<close>] I(3) that
      by (metis in_set_conv_nth list_all2_conv_all_nth)
    then show ?thesis using I(4) un that by metis
  qed
  moreover have "outside_kept (set (concat (fs # fss))) st0 st'"
    using outside_kept_trans [OF I(6), of "set fs" st'] g by (simp add: grown_def vm_kept_def)
  ultimately show ?thesis
    unfolding live_inv_def using G(3-5) I(2) other inv [unfolded live_inv_def] by auto
qed

lemma live_inv_release_at:
  assumes inv: "live_inv st0 st (xs @ b # ys) (ms @ fs # ns)" and len: "length xs = length ms"
  shows "\<exists>st'. dealloc_pages free_frame b st = Inr st' \<and> live_inv st0 st' (xs @ ys) (ms @ ns) \<and>
    new_invalidations st st' = map (\<lambda>p. num p * PAGE_SIZE) (pages_from (first_page b) (page_amount b)) \<and>
    view (fst st') (root (fst st')) = unmap_pages (view (fst st) (root (fst st))) (pages_from (first_page b) (page_amount b)) \<and>
    vm_kept {} 0 st st' \<and> last_page_alloc (snd st') = last_page_alloc (snd st) \<and> root_kept (root (fst st)) {} (fst st) (fst st') \<and>
    root (fst st') = root (fst st)"
proof -
  note I = live_invD [OF inv]
  obtain m inner where st: "st = (m, inner)" by fastforce
  have fss: "list_all2 (block_mapped m) xs ms" "block_mapped m b fs" "list_all2 (block_mapped m) ys ns"
    using I(3) len by (auto simp: st list_all2_append)
  let ?G = "set (concat (ms @ ns))" and ?p = "first_page b" and ?n = "page_amount b"
  have B: "0 < ?n" "page_ok ?p" "canonical_num ?p + ?n < 2 ^ 36" "length fs = ?n"
    "\<forall>j<?n. view m (root m) (page_plus ?p j) = Mapped (page_entry_for (fs ! j))"
    using fss(2) by (auto simp: block_mapped_def block_ok_def)
  have D: "distinct fs" "set fs \<inter> ?G = {}" "distinct (concat (ms @ ns))" "vm_ok (set fs \<union> ?G) (m, inner)"
    using I(1,2) by (auto simp: st Un_ac)
  obtain m' inner' where de: "dealloc_pages free_frame \<lparr>first_page = ?p, page_amount = ?n\<rparr> (m, inner) = Inr (m', inner')"
    "vm_ok ?G (m', inner')" "hhdm m' = hhdm m" "cr3 m' = cr3 m"
    "view m' (root m) = unmap_pages (view m (root m)) (pages_from ?p ?n)"
    "invalidated m' = invalidated m @ map (\<lambda>p. num p * PAGE_SIZE) (pages_from ?p ?n)"
    "used_frames (physical_allocator inner') = used_frames (physical_allocator inner) - set fs"
    "vm_kept {} 0 (m, inner) (m', inner')" "last_page_alloc inner' = last_page_alloc inner" "root_kept (root m) {} m m'"
    by (rule vm_dealloc_pages [OF D(4) B(1-4) D(1,2) B(5)])
  let ?F = "set (concat (ms @ fs # ns))"
  have "outside_kept ?F st0 (m', inner')" using outside_kept_trans [OF I(6), of "{}"] de(8) by (simp add: vm_kept_def st)
  then have "outside_kept (?F - set fs) st0 (m', inner')"
    by (rule outside_kept_Diff) (simp add: de(7) Diff_Int_distrib2 Int_commute)
  moreover have "?F - set fs = ?G" using D(2) by auto
  ultimately have out: "outside_kept ?G st0 (m', inner')" by simp
  have rt: "root m' = root m" by (rule root_cong) (fact de)+
  have v': "view m' (root m') q = (if canonical_num q \<in> block_pages b then Unmapped else view m (root m) q)" for q
    by (simp add: rt de(5) unmap_pages_def block_pages_def)
  have apart: "view m (root m) q \<noteq> Mapped (page_entry_for f)" if q: "canonical_num q \<in> block_pages b" and f: "f \<in> ?G" for q f
  proof -
    obtain j where j: "j < ?n" "view m (root m) q = Mapped (page_entry_for (fs ! j))"
      using B(5) view_in_block [OF q, of m "root m"] by auto
    have "fs ! j \<in> set fs" using j(1) B(4) by simp
    then have "frame_ok (fs ! j)" "frame_ok f" "fs ! j \<noteq> f"
      using vm_okD(1,4) [OF D(4)] phys.used_pool phys.pool_ok f D(2) by blast+
    then show ?thesis using addr_page_entry_for j(2) by (metis mapping_view.inject)
  qed
  have keep: "block_mapped m' a hs" if "block_mapped m a hs" "set hs \<subseteq> ?G" for a hs
  proof -
    have "canonical_num (page_plus (first_page a) j) \<notin> block_pages b" if "j < page_amount a" for j
      using apart [of "page_plus (first_page a) j" "hs ! j"] \<open>block_mapped m a hs\<close> \<open>set hs \<subseteq> ?G\<close> that
      by (auto simp: block_mapped_def subset_iff)
    then show ?thesis using that(1) v' by (simp add: block_mapped_def)
  qed
  have "list_all2 (block_mapped m') (xs @ ys) (ms @ ns)"
    by (intro list_all2_appendI list.rel_mono_strong [OF fss(1)] list.rel_mono_strong [OF fss(3)] keep) auto
  moreover have "view m' (root m') q = view (fst st0) (root (fst st0)) q"
    if "\<And>a. a \<in> set (xs @ ys) \<Longrightarrow> canonical_num q \<notin> block_pages a" for q
    using that v' [of q] I(4) [of q] I(5) [of b q] by (auto simp: st)
  ultimately have "live_inv st0 (m', inner') (xs @ ys) (ms @ ns)"
    unfolding live_inv_def using de(2) D(3) I(5) out by auto
  moreover have "dealloc_pages free_frame b (m, inner) = Inr (m', inner')" using de(1) by (cases b) simp
  ultimately show ?thesis using de(5,6,8-10) rt
    by (intro exI [of _ "(m', inner')"]) (auto simp: st new_invalidations_def)
qed

lemma live_inv_released:
  assumes inv: "live_inv st0 st live fss" and b: "b \<in> set live"
  shows "\<exists>st' fss'. dealloc_pages free_frame b st = Inr st' \<and> live_inv st0 st' (remove1 b live) fss' \<and>
    new_invalidations st st' = map (\<lambda>p. num p * PAGE_SIZE) (pages_from (first_page b) (page_amount b)) \<and>
    view (fst st') (root (fst st')) = unmap_pages (view (fst st) (root (fst st))) (pages_from (first_page b) (page_amount b))"
proof -
  obtain xs ys where live: "live = xs @ b # ys" "b \<notin> set xs" using split_list_first [OF b] by blast
  obtain ms fs ns where fss: "fss = ms @ fs # ns" "length xs = length ms"
    using live_invD(3) [OF inv] by (auto simp: live(1) list_all2_append1 list_all2_Cons1 list_all2_lengthD)
  show ?thesis
    using live_inv_release_at [OF inv [unfolded live(1) fss(1)] fss(2)] live by (auto simp: remove1_append)
qed

section \<open>Reachable states\<close>

definition coherent :: "machine \<Rightarrow> tlb \<Rightarrow> bool" where
  "coherent m c \<longleftrightarrow> (\<forall>(p, e) \<in> c. view m (root m) p = Mapped e)"

lemma coherentI: "(\<And>p e. (p, e) \<in> c \<Longrightarrow> view m (root m) p = Mapped e) \<Longrightarrow> coherent m c"
  by (auto simp: coherent_def)

lemma coherentD: "coherent m c \<Longrightarrow> (p, e) \<in> c \<Longrightarrow> view m (root m) p = Mapped e"
  by (auto simp: coherent_def)

lemma coherent_grown:
  assumes "coherent (fst st) c" and "grown G st b fs st'"
  shows "coherent (fst st') (flush as c)"
proof (rule coherentI)
  fix p e
  assume "(p, e) \<in> flush as c"
  then have pe: "view (fst st) (root (fst st)) p = Mapped e" using coherentD [OF assms(1)] by (auto simp: flush_def)
  then have "canonical_num p \<notin> canonical_num ` set (pages_from (first_page b) (page_amount b))"
    using assms(2) view_canonical [of p _ "fst st" "root (fst st)"] by (fastforce simp: grown_def)
  then show "view (fst st') (root (fst st')) p = Mapped e"
    using assms(2) pe by (simp add: grown_def map_pages_other)
qed

lemma page_of_invalidation:
  assumes "page_ok p"
  shows "canonical_num (Page (num p * PAGE_SIZE div PAGE_SIZE)) = canonical_num p"
proof -
  have "unat (num p * PAGE_SIZE) = unat (num p) * 4096" using assms by (simp add: page_ok_def unat_word_ariths)
  then have "unat (num p * PAGE_SIZE div PAGE_SIZE) = unat (num p)" by (simp add: unat_div)
  then show ?thesis by (simp add: canonical_num_eq)
qed

lemma coherent_released:
  assumes "coherent (fst st) c" and "block_ok b"
    and "as = map (\<lambda>p. num p * PAGE_SIZE) (pages_from (first_page b) (page_amount b))"
    and "view (fst st') (root (fst st')) = unmap_pages (view (fst st) (root (fst st))) (pages_from (first_page b) (page_amount b))"
  shows "coherent (fst st') (flush as c)"
proof (rule coherentI)
  fix p e
  assume pe: "(p, e) \<in> flush as c"
  have "canonical_num p \<noteq> canonical_num q" if "q \<in> set (pages_from (first_page b) (page_amount b))" for q
  proof -
    have "page_ok q" using that assms(2) page_plus_nums(3) by (auto simp: set_pages_from block_ok_def)
    then show ?thesis using pe that page_of_invalidation [of q] by (auto simp: flush_def assms(3))
  qed
  then show "view (fst st') (root (fst st')) p = Mapped e"
    using pe coherentD [OF assms(1)] by (auto simp: assms(4) unmap_pages_def flush_def)
qed

text \<open>The invariant of all states.\<close>

definition memory_inv :: "vm \<Rightarrow> memory_state \<Rightarrow> bool" where
  "memory_inv st0 s \<longleftrightarrow> (case s of (st, c, live) \<Rightarrow>
    coherent (fst st) c \<and> (\<exists>fss. live_inv st0 st live fss))"

lemma live_block_ok: "live_inv st0 st live fss \<Longrightarrow> b \<in> set live \<Longrightarrow> block_ok b"
  using live_invD(3) by (fastforce simp: in_set_conv_nth list_all2_conv_all_nth block_mapped_def)

lemma memory_inv_step:
  assumes "memory_step s s'" and "memory_inv st0 s"
  shows "memory_inv st0 s'"
  using assms
proof (induction rule: memory_step.induct)
  case (grant st al st' c live)
  then obtain fss where inv: "coherent (fst st) c" "live_inv st0 st live fss" by (auto simp: memory_inv_def)
  obtain fs where g: "grown (set (concat fss)) st al fs st'"
    using granted_grown [OF grant(1) live_invD(1) [OF inv(2)]] by blast
  show ?case
    using coherent_grown [OF inv(1) g] live_inv_grown [OF inv(2) g] by (auto simp: memory_inv_def)
next
  case (release al live st st' c)
  then obtain fss where inv: "coherent (fst st) c" "live_inv st0 st live fss" by (auto simp: memory_inv_def)
  have de: "dealloc_pages free_frame al st = Inr st'" using release(2) by (simp add: released_dealloc)
  obtain fss' where r: "live_inv st0 st' (remove1 al live) fss'"
    "new_invalidations st st' = map (\<lambda>p. num p * PAGE_SIZE) (pages_from (first_page al) (page_amount al))"
    "view (fst st') (root (fst st')) = unmap_pages (view (fst st) (root (fst st))) (pages_from (first_page al) (page_amount al))"
    using live_inv_released [OF inv(2) release(1)] de by auto
  show ?case
    using coherent_released [OF inv(1) live_block_ok [OF inv(2) release(1)] r(2,3)] r(1) by (auto simp: memory_inv_def)
qed (auto simp: memory_inv_def coherent_def)

lemma memory_inv_reachable:
  assumes "memory_reachable st0 s" and "vm_ok {} st0"
  shows "memory_inv st0 s"
  using assms(1)
proof (induction rule: rtranclp_induct)
  case base
  have "live_inv st0 st0 [] []" using assms(2) outside_kept_refl by (simp add: live_inv_def)
  then show ?case by (auto simp: memory_inv_def coherent_def)
next
  case (step s s')
  then show ?case using memory_inv_step by blast
qed

section \<open>Properties\<close>

definition block_byte :: "page_allocation \<Rightarrow> nat \<Rightarrow> u64" where
  "block_byte b i = num (first_page b) * PAGE_SIZE + of_nat i"

lemma live_blockE:
  assumes "live_inv st0 st live fss" and "k < length live"
  shows "block_mapped (fst st) (live ! k) (fss ! k)" and "k < length fss" and "f \<in> set (fss ! k) \<Longrightarrow> frame_ok f"
proof -
  obtain m inner where st: "st = (m, inner)" by fastforce
  show "block_mapped (fst st) (live ! k) (fss ! k)" and k: "k < length fss"
    using live_invD(3) [OF assms(1)] assms(2) by (auto simp: list_all2_conv_all_nth)
  have "set (fss ! k) \<subseteq> set (concat fss)" using nth_mem [OF k] by auto
  then show "f \<in> set (fss ! k) \<Longrightarrow> frame_ok f"
    using vm_okD(1,4) [OF live_invD(1) [OF assms(1), unfolded st]] phys.used_pool phys.pool_ok by blast
qed

lemma live_byte:
  assumes inv: "live_inv st0 st live fss" and k: "k < length live" and i: "i < page_amount (live ! k) * 4096"
  shows "translate (fst st) (block_byte (live ! k) i) =
      Some (phy_u64 (fss ! k ! (i div 4096)) + of_nat (i mod 4096))"
    and "i div 4096 < length (fss ! k)" and "translate (fst st0) (block_byte (live ! k) i) = None"
proof -
  let ?b = "live ! k"
  note B = live_blockE [OF inv k]
  have ok: "page_ok (first_page ?b)" "canonical_num (first_page ?b) + page_amount ?b < 2 ^ 36"
    and len: "length (fss ! k) = page_amount ?b"
    and map: "\<forall>j<page_amount ?b. view (fst st) (root (fst st)) (page_plus (first_page ?b) j) = Mapped (page_entry_for (fss ! k ! j))"
    using B(1) by (auto simp: block_mapped_def block_ok_def)
  show "translate (fst st) (block_byte ?b i) = Some (phy_u64 (fss ! k ! (i div 4096)) + of_nat (i mod 4096))"
    by (rule translate_run [OF ok i block_byte_def map]) (use B(3) len in auto)
  note pg = page_of_run [OF ok i block_byte_def]
  show "i div 4096 < length (fss ! k)" using pg(3) len by simp
  have "canonical_num (page_plus (first_page ?b) (i div 4096)) \<in> block_pages ?b"
    using pg(3) by (auto simp: block_pages_def set_pages_from)
  then show "translate (fst st0) (block_byte ?b i) = None"
    using live_invD(5) [OF inv nth_mem [OF k]] by (simp add: translate_def pg(2))
qed

lemma distinct_concat_nth:
  assumes "distinct (concat xss)" and "k < length xss" and "l < length xss"
    and "a < length (xss ! k)" and "b < length (xss ! l)" and "xss ! k ! a = xss ! l ! b"
  shows "k = l" and "a = b"
proof -
  have "\<not> (i < j \<and> j < length xss \<and> x \<in> set (xss ! i) \<and> x \<in> set (xss ! j))" for i j x
    using assms(1)
  proof (induction xss arbitrary: i j)
    case (Cons xs xss)
    then show ?case by (cases i; cases j) (fastforce dest: nth_mem)+
  qed simp
  from this [of k l "xss ! k ! a"] this [of l k "xss ! k ! a"] show kl: "k = l"
    using assms by (metis nat_neq_iff nth_mem)
  have "distinct (xss ! k)" using assms(1,2) by (simp add: distinct_concat_iff)
  then show "a = b" using assms kl by (simp add: nth_eq_iff_index_eq)
qed

text \<open>
  C1. Isolation: after any sequence of requests and releases of all clients, every byte of every live
  allocation is mapped, at an address that was not mapped at the start; no two bytes of live allocations, of the same or
  of different ones, share a byte of physical memory; and every live allocation can be released without a panic.
\<close>

theorem memory_isolated:
  assumes "vm_ok {} st0" and "memory_reachable st0 (st, c, live)"
  shows "(\<forall>k < length live. \<forall>i < page_amount (live ! k) * 4096.
      translate (fst st0) (block_byte (live ! k) i) = None \<and> translate (fst st) (block_byte (live ! k) i) \<noteq> None) \<and>
    (\<forall>k < length live. \<forall>l < length live.
      \<forall>i < page_amount (live ! k) * 4096. \<forall>j < page_amount (live ! l) * 4096.
      translate (fst st) (block_byte (live ! k) i) = translate (fst st) (block_byte (live ! l) j) \<longrightarrow> k = l \<and> i = j) \<and>
    (\<forall>b \<in> set live. \<exists>st'. dealloc_pages free_frame b st = Inr st')"
proof -
  obtain fss where inv: "live_inv st0 st live fss"
    using memory_inv_reachable [OF assms(2,1)] by (auto simp: memory_inv_def)
  have "k = l \<and> i = j"
    if k: "k < length live" and l: "l < length live" and i: "i < page_amount (live ! k) * 4096"
      and j: "j < page_amount (live ! l) * 4096"
      and eq: "translate (fst st) (block_byte (live ! k) i) = translate (fst st) (block_byte (live ! l) j)" for k l i j
  proof -
    note bi = live_byte [OF inv k i] and bj = live_byte [OF inv l j]
    have eq': "phy_u64 (fss ! k ! (i div 4096)) + of_nat (i mod 4096) = phy_u64 (fss ! l ! (j div 4096)) + of_nat (j mod 4096)"
      using eq bi(1) bj(1) by simp
    have f: "fss ! k ! (i div 4096) = fss ! l ! (j div 4096)" and m: "i mod 4096 = j mod 4096"
      using frame_byte_eq [OF _ _ _ _ eq'] live_blockE(3) [OF inv k] live_blockE(3) [OF inv l] bi(2) bj(2) by simp_all
    from distinct_concat_nth [OF live_invD(2) [OF inv] live_blockE(2) [OF inv k] live_blockE(2) [OF inv l] bi(2) bj(2) f]
    show ?thesis using m by (metis div_mult_mod_eq)
  qed
  moreover have "\<exists>st'. dealloc_pages free_frame b st = Inr st'" if "b \<in> set live" for b
    using live_inv_released [OF inv that] by blast
  ultimately show ?thesis using live_byte(1,3) [OF inv] by blast
qed

text \<open>A state with one live allocation of three pages, and the state after its release.\<close>

lemma example_memory_state:
  obtains st b where "memory_reachable (boot_machine, boot_inner) (st, {}, [b])" and "page_amount b = 3"
    and "granted (boot_machine, boot_inner) b st"
proof -
  obtain p fs m' inner' where
    al: "alloc_pages allocate_frame 3 (boot_machine, boot_inner) = Inr (Some \<lparr>first_page = p, page_amount = 3\<rparr>, m', inner')"
    by (rule vm_alloc_pages [OF boot_vm_ok, of 3 0]) (use boot_facts in \<open>auto simp: BITMAP_SIZE_def\<close>)
  have "has_room (boot_machine, boot_inner) 3"
    using boot_free boot_free_run [of 3] by (auto simp: has_room_def BITMAP_SIZE_def)
  then have g: "granted (boot_machine, boot_inner) \<lparr>first_page = p, page_amount = 3\<rparr> (m', inner')"
    using al by (rule granted.pages)
  have "flush as {} = {}" for as by (simp add: flush_def)
  then have "memory_reachable (boot_machine, boot_inner) ((m', inner'), {}, [\<lparr>first_page = p, page_amount = 3\<rparr>])"
    using memory_step.grant [OF g, of "{}" "[]"] by (simp add: r_into_rtranclp)
  then show ?thesis using that g by simp
qed

theorem memory_isolated_witness:
  "\<exists>st b. memory_reachable (boot_machine, boot_inner) (st, {}, [b]) \<and>
    translate (fst st) (block_byte b 0) \<noteq> None \<and> translate (fst st) (block_byte b 0) \<noteq> translate (fst st) (block_byte b 5000)"
proof -
  obtain st b where r: "memory_reachable (boot_machine, boot_inner) (st, {}, [b])" "page_amount b = 3"
    by (rule example_memory_state)
  note iso = memory_isolated [OF boot_vm_ok r(1)]
  have "translate (fst st) (block_byte b 0) \<noteq> None"
    using iso [THEN conjunct1, rule_format, of 0 0] r(2) by simp
  moreover have "translate (fst st) (block_byte b 0) \<noteq> translate (fst st) (block_byte b 5000)"
    using iso [THEN conjunct2, THEN conjunct1, rule_format, of 0 0 0 5000] r(2) by auto
  ultimately show ?thesis using r(1) by blast
qed

text \<open>
  C3. No stale translation: whatever the processor caches and whenever it does, in every reachable
  state the cached translations are those of the page tables.
\<close>

theorem tlb_coherent:
  assumes "vm_ok {} st0" and "memory_reachable st0 (st, c, live)" and "(p, e) \<in> c"
  shows "view (fst st) (root (fst st)) p = Mapped e"
  using memory_inv_reachable [OF assms(2,1)] assms(3) by (auto simp: memory_inv_def dest: coherentD)

theorem tlb_coherent_witness:
  "\<exists>st b c e. memory_reachable (boot_machine, boot_inner) (st, c, [b]) \<and> (first_page b, e) \<in> c \<and>
    view (fst st) (root (fst st)) (first_page b) = Mapped e"
proof -
  obtain st b where r: "memory_reachable (boot_machine, boot_inner) (st, {}, [b])" "page_amount b = 3"
    by (rule example_memory_state)
  obtain fss where inv: "live_inv (boot_machine, boot_inner) st [b] fss"
    using memory_inv_reachable [OF r(1) boot_vm_ok] by (auto simp: memory_inv_def)
  have "view (fst st) (root (fst st)) (first_page b) = Mapped (page_entry_for (fss ! 0 ! 0))"
    using live_blockE(1) [OF inv, of 0] r(2) by (fastforce simp: block_mapped_def)
  note walk = memory_step.walk [OF this, of "{}" "[b]"]
  from tlb_coherent [OF boot_vm_ok rtranclp.rtrancl_into_rtrancl [OF r(1) walk]] show ?thesis
    using rtranclp.rtrancl_into_rtrancl [OF r(1) walk] by blast
qed

text \<open>
  C4. Nothing stays mapped: once all allocations have been released, in whatever order, the address space
  is the one at the start.
\<close>

theorem memory_restored:
  assumes "vm_ok {} st0" and "memory_reachable st0 (st, c, [])"
  shows "view (fst st) (root (fst st)) = view (fst st0) (root (fst st0))"
proof -
  obtain fss where "live_inv st0 st [] fss"
    using memory_inv_reachable [OF assms(2,1)] by (auto simp: memory_inv_def)
  then show ?thesis using live_invD(4) by (intro ext) fastforce
qed

theorem memory_restored_witness:
  "\<exists>st b st' c. granted (boot_machine, boot_inner) b st \<and> released st b st' \<and>
    memory_reachable (boot_machine, boot_inner) (st', c, []) \<and>
    view (fst st') (root (fst st')) = view boot_machine (root boot_machine)"
proof -
  obtain st b where r: "memory_reachable (boot_machine, boot_inner) (st, {}, [b])"
    and g: "granted (boot_machine, boot_inner) b st" by (rule example_memory_state)
  obtain fss where inv: "live_inv (boot_machine, boot_inner) st [b] fss"
    using memory_inv_reachable [OF r boot_vm_ok] by (auto simp: memory_inv_def)
  obtain st' where de: "released st b st'"
    using live_inv_released [OF inv, of b] by (auto simp: released_dealloc)
  have "memory_step (st, {}, [b]) (st', flush (new_invalidations st st') {}, [])"
    using memory_step.release [of b "[b]", OF _ de] by simp
  then have r': "memory_reachable (boot_machine, boot_inner) (st', flush (new_invalidations st st') {}, [])"
    using r by (rule rtranclp.rtrancl_into_rtrancl [rotated])
  then show ?thesis using memory_restored [OF boot_vm_ok r', unfolded fst_conv] g de by blast
qed

end
