(* ===== verification/Handlers.thy ===== *)
theory Handlers
  imports Kernel_Prelude
begin

text \<open>
  The assembly wrappers that \<open>src/idt.rs\<close> generates around interrupt and trap handlers
  (\<open>interrupt_handler_fn\<close>, \<open>trap_handler_fn\<close> and \<open>trap_handler_fn_with_error\<close>), as lists of
  instructions executed on the registers and the stack of a processor.

  The processor's delivery of an interrupt and the compiled body of a handler are not in the
  repository. \<open>delivered\<close> states what the processor does when it enters a handler without a
  change of stack: it aligns the stack pointer to 16 bytes and pushes \<open>ss\<close>, \<open>rsp\<close>,
  \<open>rflags\<close>, \<open>cs\<close>, \<open>rip\<close> and, for some exceptions, an error code. \<open>sysv_callee\<close> states what
  the C calling convention promises of a function that returns.

  Lemmas: the interrupt wrapper is transparent to the interrupted code; the trap wrappers leave
  the registers on the stack in the documented order and pass the error code; none of the
  wrappers aligns the stack as the convention demands.
\<close>

section \<open>Processor state and instructions\<close>

datatype reg = RAX | RBX | RCX | RDX | RSI | RDI | RBP | RSP
  | R8 | R9 | R10 | R11 | R12 | R13 | R14 | R15

text \<open>Memory is accessed by aligned quadwords only; \<open>quad\<close> holds the quadword at an address.\<close>

record cpu_state =
  regs :: "reg \<Rightarrow> u64"
  quad :: "u64 \<Rightarrow> u64"
  rip :: u64
  cs :: u64
  ss :: u64
  rflags :: u64

datatype instr =
    Push reg
  | Pop reg
  | Cld
  | XorSelf reg
  | SubRsp u64
  | AddRsp u64
  | LoadRdi u64
  | Call
  | Iretq

definition pushq :: "u64 \<Rightarrow> cpu_state \<Rightarrow> cpu_state" where
  "pushq v s =
    s\<lparr>regs := (regs s)(RSP := regs s RSP - 8), quad := (quad s)(regs s RSP - 8 := v)\<rparr>"

text \<open>
  One instruction. The called function is a parameter: it runs with the return address on top of
  the stack and comes back with \<open>ret\<close>, which removes it. The status flags that \<open>sub\<close>,
  \<open>add\<close> and \<open>xor\<close> set are not tracked; the direction flag is bit 10 of \<open>rflags\<close>.
\<close>

fun exec1 :: "u64 \<Rightarrow> (cpu_state \<Rightarrow> cpu_state) \<Rightarrow> instr \<Rightarrow> cpu_state \<Rightarrow> cpu_state" where
  "exec1 ra f (Push r) s = pushq (regs s r) s"
| "exec1 ra f (Pop r) s =
    s\<lparr>regs := (regs s)(RSP := regs s RSP + 8, r := quad s (regs s RSP))\<rparr>"
| "exec1 ra f Cld s = s\<lparr>rflags := rflags s AND NOT 0x400\<rparr>"
| "exec1 ra f (XorSelf r) s = s\<lparr>regs := (regs s)(r := 0)\<rparr>"
| "exec1 ra f (SubRsp n) s = s\<lparr>regs := (regs s)(RSP := regs s RSP - n)\<rparr>"
| "exec1 ra f (AddRsp n) s = s\<lparr>regs := (regs s)(RSP := regs s RSP + n)\<rparr>"
| "exec1 ra f (LoadRdi n) s = s\<lparr>regs := (regs s)(RDI := quad s (regs s RSP + n))\<rparr>"
| "exec1 ra f Call s =
    (let t = f (pushq ra s) in t\<lparr>regs := (regs t)(RSP := regs t RSP + 8)\<rparr>)"
| "exec1 ra f Iretq s =
    (let p = regs s RSP in
     s\<lparr>rip := quad s p, cs := quad s (p + 8), rflags := quad s (p + 16),
       regs := (regs s)(RSP := quad s (p + 24)), ss := quad s (p + 32)\<rparr>)"

fun exec :: "u64 \<Rightarrow> (cpu_state \<Rightarrow> cpu_state) \<Rightarrow> instr list \<Rightarrow> cpu_state \<Rightarrow> cpu_state" where
  "exec ra f [] s = s"
| "exec ra f (i # is) s = exec ra f is (exec1 ra f i s)"

section \<open>The wrappers\<close>

definition interrupt_handler_fn :: "instr list" where
  "interrupt_handler_fn =
    [Push RDI, Push RSI, Push RDX, Push RCX, Push RAX, Push R8, Push R9, Push R10, Push R11,
     Cld, SubRsp 8, Call, AddRsp 8,
     Pop R11, Pop R10, Pop R9, Pop R8, Pop RAX, Pop RCX, Pop RDX, Pop RSI, Pop RDI, Iretq]"

definition trap_handler_fn :: "instr list" where
  "trap_handler_fn =
    [Push RDI, Push RSI, Push RDX, Push RCX, Push RAX, Push R8, Push R9, Push R10, Push R11,
     Cld, SubRsp 8, Call]"

definition trap_handler_fn_with_error :: "instr list" where
  "trap_handler_fn_with_error =
    [Push RDI, Push RSI, Push RDX, Push RCX, Push RAX, Push R8, Push R9, Push R10, Push R11,
     LoadRdi (8 * 9), Cld, Call]"

lemmas wrappers = interrupt_handler_fn_def trap_handler_fn_def trap_handler_fn_with_error_def

text \<open>The state in which a wrapper reaches its call.\<close>

definition at_call :: "instr list \<Rightarrow> cpu_state \<Rightarrow> cpu_state" where
  "at_call prog s = exec 0 id (takeWhile (\<lambda>i. i \<noteq> Call) prog) s"

section \<open>What the processor and the calling convention promise\<close>

definition delivered :: "cpu_state \<Rightarrow> u64 option \<Rightarrow> cpu_state \<Rightarrow> bool" where
  "delivered s0 err s \<longleftrightarrow>
    (let p = (regs s0 RSP AND NOT 15) - 40 in
     quad s p = rip s0 \<and> quad s (p + 8) = cs s0 \<and> quad s (p + 16) = rflags s0 \<and>
     quad s (p + 24) = regs s0 RSP \<and> quad s (p + 32) = ss s0 \<and>
     (case err of
        None \<Rightarrow> regs s = (regs s0)(RSP := p)
      | Some e \<Rightarrow> regs s = (regs s0)(RSP := p - 8) \<and> quad s (p - 8) = e))"

definition callee_saved :: "reg list" where
  "callee_saved = [RBX, RBP, RSP, R12, R13, R14, R15]"

text \<open>
  A function that returns keeps the callee-saved registers and the frame of its caller: here the
  return address and the 15 quadwords above it, which are the wrapper's and the processor's.
\<close>

definition sysv_callee :: "(cpu_state \<Rightarrow> cpu_state) \<Rightarrow> bool" where
  "sysv_callee f \<longleftrightarrow>
    (\<forall>t. (\<forall>r \<in> set callee_saved. regs (f t) r = regs t r) \<and>
      (\<forall>k < 16. quad (f t) (regs t RSP + 8 * of_nat k) = quad t (regs t RSP + 8 * of_nat k)))"

section \<open>Stack addresses\<close>

lemma word_add_sub_numeral:
  fixes x :: u64
  shows "x + numeral a - numeral b = x + (numeral a - numeral b)"
    and "x + numeral a + numeral b = x + (numeral a + numeral b)"
  by simp_all

lemma stack_alignment: "(a AND NOT 15) AND 15 = (0 :: u64)"
  by (simp add: and.assoc)

lemma sysv_regs:
  assumes "sysv_callee f"
  shows "regs (f t) RBX = regs t RBX" "regs (f t) RBP = regs t RBP" "regs (f t) RSP = regs t RSP"
    "regs (f t) R12 = regs t R12" "regs (f t) R13 = regs t R13" "regs (f t) R14 = regs t R14"
    "regs (f t) R15 = regs t R15"
  using assms by (simp_all add: sysv_callee_def callee_saved_def)

lemma sysv_frame:
  assumes "sysv_callee f" and "regs t RSP = x" and "k < 16"
  shows "quad (f t) (x + 8 * of_nat k) = quad t (x + 8 * of_nat k)"
  using assms by (auto simp: sysv_callee_def)

section \<open>The interrupt wrapper\<close>


text \<open>The stack in which the handler of an interrupt is entered, from the return address up.\<close>

definition restored :: "reg list" where
  "restored = [R11, R10, R9, R8, RAX, RCX, RDX, RSI, RDI]"

lemma length_restored [simp]: "length restored = 9" and RSP_not_restored [simp]: "RSP \<notin> set restored"
  by (simp_all add: restored_def)

definition stack_words :: "cpu_state \<Rightarrow> u64 \<Rightarrow> nat \<Rightarrow> u64 list" where
  "stack_words s a n = map (\<lambda>k. quad s (a + 8 * of_nat k)) [0..<n]"

lemma stack_words_nth: "stack_words s a n = ws \<Longrightarrow> k < n \<Longrightarrow> quad s (a + 8 * of_nat k) = ws ! k"
  by (auto simp: stack_words_def)

lemma interrupt_entry_stack:
  fixes x :: u64
  assumes "regs s RSP = x + 88"
    and t_def: "t = pushq ra (at_call interrupt_handler_fn s)"
  shows "regs t RSP = x" and "r \<noteq> RSP \<Longrightarrow> regs t r = regs s r"
    and "stack_words t (x + 16) 9 = map (regs s) restored"
    and "stack_words t (x + 88) 5 = stack_words s (x + 88) 5"
  using assms(1)
  by (simp_all add: t_def at_call_def interrupt_handler_fn_def pushq_def word_add_sub_numeral upt_rec
      restored_def stack_words_def)

text \<open>A sequence of \<open>pop\<close> reads consecutive quadwords into its registers.\<close>

lemma exec_append: "exec ra f (p @ q) s = exec ra f q (exec ra f p s)"
  by (induction p arbitrary: s) auto

lemma exec_pops:
  assumes "RSP \<notin> set rs" and "regs u RSP = y"
    and "\<forall>k < length rs. quad u (y + 8 * of_nat k) = v (rs ! k)"
  shows "exec ra f (map Pop rs) u =
    u\<lparr>regs := \<lambda>r. if r = RSP then y + 8 * of_nat (length rs) else if r \<in> set rs then v r else regs u r\<rparr>"
  using assms
proof (induction rs arbitrary: u y)
  case Nil
  then show ?case by (auto simp: fun_eq_iff intro!: cpu_state.equality)
next
  case (Cons r rs)
  let ?u = "u\<lparr>regs := (regs u)(RSP := y + 8, r := v r)\<rparr>"
  have "quad u y = v r" using Cons.prems(3) by force
  then have step: "exec1 ra f (Pop r) u = ?u" using Cons.prems(2) by simp
  have "\<forall>k < length rs. quad ?u (y + 8 + 8 * of_nat k) = v (rs ! k)"
  proof (intro allI impI)
    fix k assume "k < length rs"
    then show "quad ?u (y + 8 + 8 * of_nat k) = v (rs ! k)"
      using Cons.prems(3) [THEN spec [of _ "Suc k"]] by (simp add: algebra_simps)
  qed
  moreover have "regs ?u RSP = y + 8" using Cons.prems(1) by auto
  ultimately have "exec ra f (map Pop rs) ?u = ?u\<lparr>regs := \<lambda>q. if q = RSP then y + 8 + 8 * of_nat (length rs)
      else if q \<in> set rs then v q else regs ?u q\<rparr>"
    using Cons.prems(1) by (intro Cons.IH) auto
  also have "\<dots> = u\<lparr>regs := \<lambda>q. if q = RSP then y + 8 * of_nat (length (r # rs))
      else if q \<in> set (r # rs) then v q else regs u q\<rparr>"
    using Cons.prems(1) by (auto simp: fun_eq_iff algebra_simps)
  finally show ?case using step by simp
qed

lemma sysv_window:
  assumes "sysv_callee f" and "regs t RSP = x" and "i + n \<le> 16"
  shows "stack_words (f t) (x + 8 * of_nat i) n = stack_words t (x + 8 * of_nat i) n"
proof -
  have eq: "x + 8 * of_nat i + 8 * of_nat k = x + 8 * of_nat (i + k)" for k
    by (simp add: algebra_simps)
  have "quad (f t) (x + 8 * of_nat i + 8 * of_nat k) = quad t (x + 8 * of_nat i + 8 * of_nat k)" if "k < n" for k
    unfolding eq using assms(3) that by (intro sysv_frame [OF assms(1,2)]) simp
  then show ?thesis by (simp add: stack_words_def)
qed

text \<open>The instructions after the call undo those before it.\<close>

lemma exec_no_call: "Call \<notin> set p \<Longrightarrow> exec ra f p s = exec 0 id p s"
proof (induction p arbitrary: s)
  case (Cons i p)
  then show ?case by (cases i) simp_all
qed simp

lemma call_add: "exec ra f [Call, AddRsp 8] s = exec1 ra f (AddRsp 16) (f (pushq ra s))"
  by (simp add: Let_def word_add_sub_numeral)

lemma interrupt_wrapper_split:
  "exec ra f interrupt_handler_fn s =
    exec1 ra f Iretq (exec ra f (map Pop restored)
      (exec1 ra f (AddRsp 16) (f (pushq ra (at_call interrupt_handler_fn s)))))"
proof -
  let ?p = "takeWhile (\<lambda>i. i \<noteq> Call) interrupt_handler_fn"
  have "Call \<notin> set ?p" using set_takeWhileD by fastforce
  then have pre: "exec ra f ?p s = at_call interrupt_handler_fn s"
    unfolding at_call_def by (rule exec_no_call)
  have split: "interrupt_handler_fn = ?p @ [Call, AddRsp 8] @ map Pop restored @ [Iretq]"
    by (simp add: interrupt_handler_fn_def restored_def)
  show ?thesis
    by (subst split) (simp only: exec_append pre call_add exec.simps(2) [of ra f Iretq] exec.simps(1))
qed

lemma interrupt_return:
  fixes x :: u64
  assumes "regs u RSP = x" and "stack_words u (x + 16) 9 = map v restored"
    and "stack_words u (x + 88) 5 = [a, b, c, d, e]"
  shows "exec1 ra f Iretq (exec ra f (map Pop restored) (exec1 ra f (AddRsp 16) u)) =
    u\<lparr>rip := a, cs := b, rflags := c, ss := e,
      regs := \<lambda>r. if r = RSP then d else if r \<in> set restored then v r else regs u r\<rparr>"
proof -
  let ?u = "u\<lparr>regs := (regs u)(RSP := x + 16)\<rparr>"
  have "quad ?u (x + 16 + 8 * of_nat k) = v (restored ! k)" if "k < 9" for k
    using stack_words_nth [OF assms(2) that] that by simp
  then have "exec ra f (map Pop restored) ?u = ?u\<lparr>regs := \<lambda>r. if r = RSP then x + 16 + 8 * of_nat (length restored)
      else if r \<in> set restored then v r else regs ?u r\<rparr>"
    by (intro exec_pops) simp_all
  moreover have "x + 16 + 8 * of_nat (length restored) = x + 88" by simp
  ultimately show ?thesis
    using assms(1,3) by (simp add: stack_words_def word_add_sub_numeral Let_def upt_rec fun_eq_iff)
qed

lemma interrupt_wrapper_resumes:
  assumes del: "delivered s0 None s" and f: "sysv_callee f"
  shows "let s' = exec ra f interrupt_handler_fn s in
    regs s' = regs s0 \<and> rip s' = rip s0 \<and> cs s' = cs s0 \<and> ss s' = ss s0 \<and> rflags s' = rflags s0"
proof -
  define x where "x = (regs s0 RSP AND NOT 15) - 128"
  define t where "t = pushq ra (at_call interrupt_handler_fn s)"
  have p: "(regs s0 RSP AND NOT 15) - 40 = x + 88" by (simp add: x_def)
  have s: "regs s = (regs s0)(RSP := x + 88)"
    and frame: "stack_words s (x + 88) 5 = [rip s0, cs s0, rflags s0, regs s0 RSP, ss s0]"
    using del unfolding delivered_def p
    by (simp_all add: stack_words_def word_add_sub_numeral upt_rec Let_def)
  then have "regs s RSP = x + 88" by simp
  note entry = interrupt_entry_stack [OF this t_def]
  have rsp: "regs (f t) RSP = x" using sysv_regs(3) [OF f] entry(1) by simp
  have "stack_words (f t) (x + 16) 9 = map (regs s) restored"
    using sysv_window [OF f entry(1), of 2 9] entry(3) by simp
  moreover have "stack_words (f t) (x + 88) 5 = [rip s0, cs s0, rflags s0, regs s0 RSP, ss s0]"
    using sysv_window [OF f entry(1), of 11 5] entry(4) frame by simp
  ultimately have ret: "exec ra f interrupt_handler_fn s = (f t)\<lparr>rip := rip s0, cs := cs s0, rflags := rflags s0,
      ss := ss s0, regs := \<lambda>r. if r = RSP then regs s0 RSP else if r \<in> set restored then regs s r
      else regs (f t) r\<rparr>"
    unfolding interrupt_wrapper_split t_def [symmetric] by (rule interrupt_return [OF rsp])
  have "regs (f t) r = regs s0 r" if "r \<noteq> RSP" and "r \<notin> set restored" for r
    using that sysv_regs [OF f, of t] entry(2) [of r] s by (cases r) (simp_all add: restored_def)
  then show ?thesis
    unfolding ret using s by (auto simp: fun_eq_iff)
qed

text \<open>
  C11. An interrupt is invisible to the code it interrupts: when the processor enters the wrapper and
  the handler keeps the C calling convention, \<open>iretq\<close> resumes the interrupted instruction with
  every general purpose register, the stack pointer, the segments and the flags it had.
\<close>

theorem interrupt_wrapper_transparent:
  assumes del: "delivered s0 None s" and f: "sysv_callee f"
  shows "let s' = exec ra f interrupt_handler_fn s in
    regs s' = regs s0 \<and> rip s' = rip s0 \<and> cs s' = cs s0 \<and> ss s' = ss s0 \<and> rflags s' = rflags s0"
  by (rule interrupt_wrapper_resumes [OF assms])

text \<open>
  Delivery by the documented rules as a function, for concrete instances.
\<close>

definition deliver :: "cpu_state \<Rightarrow> u64 option \<Rightarrow> cpu_state" where
  "deliver s0 err =
    (let s = s0\<lparr>regs := (regs s0)(RSP := regs s0 RSP AND NOT 15)\<rparr>;
         s1 = pushq (rip s0) (pushq (cs s0) (pushq (rflags s0) (pushq (regs s0 RSP) (pushq (ss s0) s)))) in
     case err of None \<Rightarrow> s1 | Some e \<Rightarrow> pushq e s1)"

lemma delivered_deliver: "delivered s0 err (deliver s0 err)"
  by (cases err) (simp_all add: delivered_def deliver_def pushq_def Let_def)

definition cpu0 :: cpu_state where
  "cpu0 = \<lparr>regs = (\<lambda>_. 0)(RAX := 1, RBX := 2, RSP := 0x8004), quad = (\<lambda>_. 0), rip = 0x1000,
    cs = 0x28, ss = 0x30, rflags = 0x202\<rparr>"

definition clobber :: "cpu_state \<Rightarrow> cpu_state" where
  "clobber t = t\<lparr>regs := (regs t)(RAX := 7, R11 := 9), rflags := 0\<rparr>"

lemma sysv_clobber: "sysv_callee clobber"
  by (simp add: sysv_callee_def clobber_def callee_saved_def)

theorem interrupt_wrapper_transparent_witness:
  "regs (exec 0x2000 clobber interrupt_handler_fn (deliver cpu0 None)) RAX = 1 \<and>
   regs (exec 0x2000 clobber interrupt_handler_fn (deliver cpu0 None)) RSP = 0x8004 \<and>
   rip (exec 0x2000 clobber interrupt_handler_fn (deliver cpu0 None)) = 0x1000"
  using interrupt_wrapper_transparent [OF delivered_deliver [of cpu0 None] sysv_clobber, of "0x2000"]
  by (simp add: Let_def cpu0_def)

section \<open>The trap wrappers\<close>

lemma frame_base: "a - 40 = (a - 120) + 80" for a :: u64
  by simp

lemmas stack_simps = stack_words_def word_add_sub_numeral upt_rec pushq_def at_call_def Let_def and.assoc

text \<open>
  A trap handler is entered with the registers of the trapped code on the stack in the documented
  order, \<open>rdi\<close> pushed first and \<open>r11\<close> last, above them the frame of the processor, and the
  direction flag clear. Without an error code eight bytes of padding precede them; with an error code
  there is no padding, and the code is passed as the first argument.
\<close>

lemma trap_wrapper_entry:
  "(delivered s0 None s \<longrightarrow>
      (let t = at_call trap_handler_fn s in
       stack_words t (regs t RSP + 8) 14 =
         map (regs s0) [R11, R10, R9, R8, RAX, RCX, RDX, RSI, RDI] @
         [rip s0, cs s0, rflags s0, regs s0 RSP, ss s0] \<and>
       rflags t AND 0x400 = 0)) \<and>
    (delivered s0 (Some e) s \<longrightarrow>
      (let t = at_call trap_handler_fn_with_error s in
       regs t RDI = e \<and>
       stack_words t (regs t RSP) 15 =
         map (regs s0) [R11, R10, R9, R8, RAX, RCX, RDX, RSI, RDI] @
         [e, rip s0, cs s0, rflags s0, regs s0 RSP, ss s0] \<and>
       rflags t AND 0x400 = 0))"
  unfolding delivered_def frame_base by (simp add: stack_simps wrappers)

lemma uint_and_15: "uint (w AND 15) = uint w mod 16" for w :: u64
  using take_bit_eq_mask [of 4 "uint w"] take_bit_eq_mod [of 4 "uint w"]
  by (simp add: unsigned_and_eq mask_eq_exp_minus_1)

lemma and_15_diff:
  fixes a b :: u64
  assumes "a AND 15 = 0"
  shows "(a - b) AND 15 = (- b) AND 15"
proof -
  have a: "uint a mod 16 = 0" using assms uint_and_15 [of a] by simp
  have "uint (a - b) mod 16 = (uint a - uint b) mod 16"
    by (simp add: uint_word_ariths mod_mod_cancel)
  also have "\<dots> = (- uint b) mod 16"
    using a by (metis diff_0 mod_diff_left_eq)
  also have "\<dots> = uint (- b) mod 16"
    by (simp add: uint_word_ariths mod_mod_cancel)
  finally show ?thesis
    by (simp only: uint_and_15 [symmetric] word_uint_eq_iff)
qed

text \<open>
  C37. Contrary to the comments of the wrappers, no handler is called with the stack the C calling
  convention demands: at the call the stack pointer is 8 modulo 16, in the wrappers for
  interrupts and traps without an error code as well as in the one with an error code.
\<close>

theorem handler_call_misaligned:
  "(delivered s0 None s \<longrightarrow>
      regs (at_call interrupt_handler_fn s) RSP AND 15 = 8 \<and> regs (at_call trap_handler_fn s) RSP AND 15 = 8) \<and>
   (delivered s0 (Some e) s \<longrightarrow> regs (at_call trap_handler_fn_with_error s) RSP AND 15 = 8)"
  using and_15_diff [OF stack_alignment, of "regs s0 RSP"]
  by (auto simp: delivered_def at_call_def wrappers pushq_def Let_def)

theorem handler_call_misaligned_witness:
  "regs (at_call interrupt_handler_fn (deliver cpu0 None)) RSP AND 15 = 8 \<and>
   regs (at_call trap_handler_fn_with_error (deliver cpu0 (Some 5))) RSP AND 15 = 8"
  using handler_call_misaligned [of cpu0 "deliver cpu0 None"] delivered_deliver [of cpu0 None]
    handler_call_misaligned [of cpu0 "deliver cpu0 (Some 5)" 5] delivered_deliver [of cpu0 "Some 5"]
  by simp

end
