(* ===== verification/Arch_Regs.thy ===== *)
theory Arch_Regs
  imports Handlers Memory_System
begin

text \<open>
  The register functions of \<open>src/arch_x86_64.rs\<close>. Each is one or two instructions of inline assembly, with the
  registers that the compiler picks as arguments. \<open>thread\<close> holds the general registers and the stack, \<open>cached\<close>
  the translations that the processor keeps; a write of \<open>cr3\<close> drops those that are not global.

  Lemmas: each function returns the register it names and disturbs only the register picked for the result,
  \<open>rflags\<close> besides that the quadword below the stack; \<open>reload_cr3\<close> reads \<open>cr3\<close> where it means to write it.
\<close>

record core =
  thread :: cpu_state
  cr2_reg :: u64
  cr3_reg :: u64
  cached :: tlb

datatype asm_instr =
    MovImm reg u64
  | MovFromCs reg
  | MovFromCr2 reg
  | MovFromCr3 reg
  | MovToCr3 reg
  | MovFromRbp reg
  | LeaRip reg
  | Pushf
  | PopReg reg

definition set_gpr :: "reg \<Rightarrow> u64 \<Rightarrow> core \<Rightarrow> core" where
  "set_gpr r v c = c\<lparr>thread := (thread c)\<lparr>regs := (regs (thread c))(r := v)\<rparr>\<rparr>"

text \<open>The 16-bit move from \<open>cs\<close> keeps the upper bits of its target; \<open>rip\<close> is the address after the instruction.\<close>

fun asm_step :: "asm_instr \<Rightarrow> core \<Rightarrow> core" where
  "asm_step (MovImm r v) c = set_gpr r v c"
| "asm_step (MovFromCs r) c = set_gpr r (regs (thread c) r AND NOT (mask 16) OR cs (thread c) AND mask 16) c"
| "asm_step (MovFromCr2 r) c = set_gpr r (cr2_reg c) c"
| "asm_step (MovFromCr3 r) c = set_gpr r (cr3_reg c) c"
| "asm_step (MovToCr3 r) c =
    c\<lparr>cr3_reg := regs (thread c) r, cached := {(p, e) \<in> cached c. contains (flags e) GLOBAL}\<rparr>"
| "asm_step (MovFromRbp r) c = set_gpr r (regs (thread c) RBP) c"
| "asm_step (LeaRip r) c = set_gpr r (rip (thread c)) c"
| "asm_step Pushf c = c\<lparr>thread := pushq (rflags (thread c)) (thread c)\<rparr>"
| "asm_step (PopReg r) c = c\<lparr>thread := exec1 0 id (Pop r) (thread c)\<rparr>"

definition asm_block :: "asm_instr list \<Rightarrow> core \<Rightarrow> core" where
  "asm_block is c = fold asm_step is c"

definition out_reg :: "reg \<Rightarrow> core \<Rightarrow> u64 \<times> core" where
  "out_reg r c = (regs (thread c) r, c)"

definition arch_cs :: "reg \<Rightarrow> core \<Rightarrow> u16 \<times> core" where
  "arch_cs r c = (let (out, c) = out_reg r (asm_block [MovFromCs r] c) in (ucast out, c))"

definition arch_cr2 :: "reg \<Rightarrow> core \<Rightarrow> u64 \<times> core" where
  "arch_cr2 r c = out_reg r (asm_block [MovFromCr2 r] c)"

definition arch_cr3 :: "reg \<Rightarrow> core \<Rightarrow> u64 \<times> core" where
  "arch_cr3 r c = out_reg r (asm_block [MovFromCr3 r] c)"

definition arch_rbp :: "reg \<Rightarrow> core \<Rightarrow> u64 \<times> core" where
  "arch_rbp r c = out_reg r (asm_block [MovFromRbp r] c)"

definition arch_rip :: "reg \<Rightarrow> core \<Rightarrow> u64 \<times> core" where
  "arch_rip r c = out_reg r (asm_block [LeaRip r] c)"

definition arch_rflags :: "reg \<Rightarrow> core \<Rightarrow> u64 \<times> core" where
  "arch_rflags r c = out_reg r (asm_block [Pushf, PopReg r] c)"

text \<open>The operands of the last two moves are inputs: the registers hold 3 and the value of \<open>cr3\<close> before them.\<close>

definition reload_cr3 :: "reg \<Rightarrow> reg \<Rightarrow> reg \<Rightarrow> core \<Rightarrow> core" where
  "reload_cr3 r0 r1 r2 c =
    (let (v, c) = arch_cr3 r0 c;
         c = asm_block [MovImm r1 3, MovFromCr3 r1] c;
         c = asm_block [MovImm r2 v, MovFromCr3 r2] c
     in c)"

lemmas arch_defs = arch_cs_def arch_cr2_def arch_cr3_def arch_rbp_def arch_rip_def arch_rflags_def
  out_reg_def asm_block_def set_gpr_def

lemma low_16_bits: "ucast (a AND NOT (mask 16) OR b AND mask 16) = (ucast b :: u16)" for a b :: u64
proof (rule bit_word_eqI)
  fix n assume "n < LENGTH(16)"
  then show "bit (ucast (a AND NOT (mask 16) OR b AND mask 16) :: u16) n = bit (ucast b :: u16) n"
    by (auto simp: bit_simps)
qed

lemma arch_reads:
  "fst (arch_cs r c) = ucast (cs (thread c))" "fst (arch_cr2 r c) = cr2_reg c" "fst (arch_cr3 r c) = cr3_reg c"
  "fst (arch_rbp r c) = regs (thread c) RBP" "fst (arch_rip r c) = rip (thread c)"
  "fst (arch_rflags r c) = rflags (thread c)"
  by (simp_all add: arch_defs low_16_bits pushq_def)

text \<open>The flags are read through the stack, which is back where it was: only the quadword below it has changed.\<close>

lemma arch_rflags_stack:
  assumes "r \<noteq> RSP" and "snd (arch_rflags r c) = c'"
  shows "thread c' = (thread c)\<lparr>regs := (regs (thread c))(r := rflags (thread c)),
    quad := (quad (thread c))(regs (thread c) RSP - 8 := rflags (thread c))\<rparr>"
  using assms by (auto simp: arch_defs pushq_def fun_upd_twist)

lemma reload_cr3_drops_nothing:
  "cr3_reg (reload_cr3 r0 r1 r2 c) = cr3_reg c \<and> cached (reload_cr3 r0 r1 r2 c) = cached c"
  by (simp add: reload_cr3_def arch_defs)

text \<open>Reading \<open>cr3\<close> and writing it back, as the name promises, keeps the global translations only.\<close>

lemma mov_to_cr3_drops:
  assumes "(p, e) \<in> cached c" and "\<not> contains (flags e) GLOBAL"
  shows "(p, e) \<notin> cached (asm_block [MovFromCr3 r, MovToCr3 r] c)"
    and "(p, e) \<in> cached (reload_cr3 r0 r1 r2 c)"
  using assms reload_cr3_drops_nothing by (auto simp: arch_defs)

end
