(* ===== verification/Console.thy ===== *)
theory Console
  imports Kernel_Prelude
begin

text \<open>
  The screen (\<open>src/screen.rs\<close>) and the text console on it (\<open>src/console.rs\<close>).

  A screen is the geometry the boot loader reports and the bytes of its framebuffer by offset; a
  pixel is written as the four little-endian bytes of its colour. The font is the 4096-byte file
  \<open>AIXOID9.F16\<close>, 16 bytes for each character, and is a parameter.

  Lemmas: on a screen whose width is not 8 modulo 9 the console never panics, keeps its cursor in
  the screen and stays in the framebuffer; a printed character is its glyph, and nothing else
  changes; on the other widths filling a line panics.
\<close>

section \<open>Screen\<close>

datatype color = Color (color_u32: u32)

definition red :: color where "red = Color 0xFF0000"
definition green :: color where "green = Color 0xFF00"
definition blue :: color where "blue = Color 0xFF"
definition white :: color where "white = Color 0xFFFFFF"
definition black :: color where "black = Color 0"

record screen =
  width :: nat
  height :: nat
  bytes_per_pixel :: nat
  bytes_per_row :: nat
  vram :: "nat \<Rightarrow> u8"

text \<open>What the boot loader reports of a framebuffer.\<close>

record framebuffer =
  fb_bpp :: u16
  fb_pitch :: u64
  fb_height :: u64
  fb_width :: u64
  fb_bytes :: "nat \<Rightarrow> u8"

definition screen_new :: "framebuffer \<Rightarrow> screen" where
  "screen_new fb = \<lparr>width = unat (fb_width fb), height = unat (fb_height fb),
    bytes_per_pixel = unat (fb_bpp fb div 8), bytes_per_row = unat (fb_pitch fb), vram = fb_bytes fb\<rparr>"

definition color_byte :: "color \<Rightarrow> nat \<Rightarrow> u8" where
  "color_byte c k = ucast (drop_bit (8 * k) (color_u32 c))"

definition write_pixel :: "nat \<Rightarrow> color \<Rightarrow> screen \<Rightarrow> screen" where
  "write_pixel offset c s =
    s\<lparr>vram := \<lambda>k. if offset \<le> k \<and> k < offset + 4 then color_byte c (k - offset) else vram s k\<rparr>"

definition draw_pixel :: "nat \<Rightarrow> nat \<Rightarrow> color \<Rightarrow> screen \<Rightarrow> screen run" where
  "draw_pixel x y c s =
    bnd (assert_that (x < width s \<and> y < height s)) (\<lambda>_.
    bnd (usize_mul x (bytes_per_pixel s)) (\<lambda>a.
    bnd (usize_mul y (bytes_per_row s)) (\<lambda>b.
    bnd (usize_add a b) (\<lambda>pixel_offset.
    Inr (write_pixel pixel_offset c s)))))"

definition draw_row :: "color \<Rightarrow> nat \<Rightarrow> screen \<Rightarrow> screen run" where
  "draw_row c y s =
    bnd (usize_mul y (bytes_per_row s)) (\<lambda>offset.
    bnd (for_list (\<lambda>_ (offset, s).
          bnd (usize_add offset (bytes_per_pixel s)) (\<lambda>next. Inr (next, write_pixel offset c s)))
        [0..<width s] (offset, s)) (\<lambda>(offset, s).
    Inr s))"

definition draw_all :: "color \<Rightarrow> screen \<Rightarrow> screen run" where
  "draw_all c s = for_list (draw_row c) [0..<height s] s"

section \<open>Console\<close>

definition CHAR_WIDTH :: nat where "CHAR_WIDTH = 8"
definition CHAR_HEIGHT :: nat where "CHAR_HEIGHT = 16"
definition SPACE_BETWEEN_CHARS :: nat where "SPACE_BETWEEN_CHARS = 1"

lemmas char_sizes = CHAR_WIDTH_def CHAR_HEIGHT_def SPACE_BETWEEN_CHARS_def

record console =
  screen :: screen
  cursor_pos :: "nat \<times> nat"
  bg_color :: color
  fg_color :: color

definition console_new :: "screen \<Rightarrow> color \<Rightarrow> color \<Rightarrow> console run" where
  "console_new s bg fg =
    bnd (draw_all bg s) (\<lambda>s. Inr \<lparr>screen = s, cursor_pos = (0, 0), bg_color = bg, fg_color = fg\<rparr>)"

definition console_clear :: "console \<Rightarrow> console run" where
  "console_clear con =
    bnd (draw_all (bg_color con) (screen con)) (\<lambda>s. Inr (con\<lparr>screen := s, cursor_pos := (0, 0)\<rparr>))"

definition font_byte :: "u8 list \<Rightarrow> nat \<Rightarrow> u8 run" where
  "font_byte font pos = (if pos < length font then Inr (font ! pos) else Inl IndexOutOfBounds)"

text \<open>One row of a glyph, bit by bit, then all its rows.\<close>

definition draw_glyph_row :: "u8 \<Rightarrow> nat \<Rightarrow> nat \<Rightarrow> color \<Rightarrow> color \<Rightarrow> screen \<Rightarrow> screen run" where
  "draw_glyph_row display_byte x y fg bg s =
    for_list (\<lambda>i s.
        let is_set = display_byte AND push_bit i 1 \<noteq> 0 in
        bnd (usize_add x (CHAR_WIDTH - i)) (\<lambda>px.
        if is_set then draw_pixel px y fg s else draw_pixel px y bg s))
      [0..<CHAR_WIDTH] s"

definition draw_char :: "u8 list \<Rightarrow> u8 \<Rightarrow> nat \<Rightarrow> nat \<Rightarrow> color \<Rightarrow> color \<Rightarrow> screen \<Rightarrow> screen run" where
  "draw_char font c x y fg bg s =
    bnd (usize_mul (unat c) CHAR_HEIGHT) (\<lambda>pos.
    bnd (for_list (\<lambda>_ (y, pos, s).
          bnd (font_byte font pos) (\<lambda>display_byte.
          bnd (draw_glyph_row display_byte x y fg bg s) (\<lambda>s.
          bnd (usize_add y 1) (\<lambda>y.
          bnd (usize_add pos 1) (\<lambda>pos.
          Inr (y, pos, s))))))
        [0..<CHAR_HEIGHT] (y, pos, s)) (\<lambda>(y, pos, s).
    Inr s))"

text \<open>The start of the next line, or the first line when no further line fits.\<close>

definition next_line :: "screen \<Rightarrow> nat \<Rightarrow> nat run" where
  "next_line s y =
    bnd (usize_add y CHAR_HEIGHT) (\<lambda>y.
    bnd (usize_add y CHAR_HEIGHT) (\<lambda>bottom.
    Inr (if bottom > height s then 0 else y)))"

definition print_char_colored :: "u8 list \<Rightarrow> u8 \<Rightarrow> color \<Rightarrow> color \<Rightarrow> console \<Rightarrow> console run" where
  "print_char_colored font c fg bg con =
    (case cursor_pos con of (x, y) \<Rightarrow>
     if c = 10 then bnd (next_line (screen con) y) (\<lambda>y. Inr (con\<lparr>cursor_pos := (0, y)\<rparr>))
     else
       bnd (draw_char font c x y fg bg (screen con)) (\<lambda>s.
       bnd (usize_add x (CHAR_WIDTH + SPACE_BETWEEN_CHARS)) (\<lambda>x.
       bnd (usize_add x CHAR_WIDTH) (\<lambda>right.
       if right > width s then bnd (next_line s y) (\<lambda>y. Inr (con\<lparr>screen := s, cursor_pos := (0, y)\<rparr>))
       else Inr (con\<lparr>screen := s, cursor_pos := (x, y)\<rparr>)))))"

definition print_char :: "u8 list \<Rightarrow> u8 \<Rightarrow> console \<Rightarrow> console run" where
  "print_char font c con = print_char_colored font c (fg_color con) (bg_color con) con"

text \<open>A string is the list of its code points; those that are not ASCII are skipped.\<close>

definition as_ascii :: "nat \<Rightarrow> u8 option" where
  "as_ascii cp = (if cp < 128 then Some (of_nat cp) else None)"

definition write_str :: "u8 list \<Rightarrow> nat list \<Rightarrow> console \<Rightarrow> console run" where
  "write_str font s con =
    for_list (\<lambda>cp con. case as_ascii cp of Some a \<Rightarrow> print_char font a con | None \<Rightarrow> Inr con) s con"

text \<open>The console is an output for text.\<close>

interpretation con_text: text_writer "write_str font" for font
  unfolding write_str_def by unfold_locales (simp_all add: for_list_append)

section \<open>What the screen shows\<close>

definition pixel_offset :: "screen \<Rightarrow> nat \<Rightarrow> nat \<Rightarrow> nat" where
  "pixel_offset s x y = x * bytes_per_pixel s + y * bytes_per_row s"

definition pixel :: "screen \<Rightarrow> nat \<times> nat \<Rightarrow> u8 list" where
  "pixel s p = map (\<lambda>k. vram s (pixel_offset s (fst p) (snd p) + k)) [0..<4]"

definition color_bytes :: "color \<Rightarrow> u8 list" where
  "color_bytes c = map (color_byte c) [0..<4]"

definition on_screen :: "screen \<Rightarrow> nat \<times> nat \<Rightarrow> bool" where
  "on_screen s p \<longleftrightarrow> fst p < width s \<and> snd p < height s"

text \<open>A screen whose rows and pixels lie apart and whose framebuffer fits the address space.\<close>

definition screen_ok :: "screen \<Rightarrow> bool" where
  "screen_ok s \<longleftrightarrow> 4 \<le> bytes_per_pixel s \<and> width s * bytes_per_pixel s \<le> bytes_per_row s \<and>
    bytes_per_row s * height s < 2 ^ 64"

definition same_geometry :: "screen \<Rightarrow> screen \<Rightarrow> bool" where
  "same_geometry s s' \<longleftrightarrow> width s' = width s \<and> height s' = height s \<and>
    bytes_per_pixel s' = bytes_per_pixel s \<and> bytes_per_row s' = bytes_per_row s"

text \<open>
  \<open>s'\<close> is \<open>s\<close> painted with a partial picture: the pixels of the picture have its colours, all
  others are as before, and no byte behind the framebuffer has changed.
\<close>

definition paints :: "screen \<Rightarrow> (nat \<times> nat \<rightharpoonup> color) \<Rightarrow> screen \<Rightarrow> bool" where
  "paints s P s' \<longleftrightarrow> same_geometry s s' \<and>
    (\<forall>p. on_screen s p \<longrightarrow> pixel s' p = (case P p of Some c \<Rightarrow> color_bytes c | None \<Rightarrow> pixel s p)) \<and>
    (\<forall>k \<ge> bytes_per_row s * height s. vram s' k = vram s k)"

lemma paints_nothing: "(\<And>p. P p = None) \<Longrightarrow> paints s P s"
  by (simp add: paints_def same_geometry_def)

lemma paints_trans: "paints s P s' \<Longrightarrow> paints s' Q s'' \<Longrightarrow> paints s (P ++ Q) s''"
  by (auto simp: paints_def same_geometry_def on_screen_def map_add_def split: option.splits)

lemma paints_geometry:
  assumes "paints s P s'"
  shows "width s' = width s" "height s' = height s" "bytes_per_pixel s' = bytes_per_pixel s"
    "bytes_per_row s' = bytes_per_row s" "screen_ok s' = screen_ok s" "on_screen s' p = on_screen s p"
  using assms by (simp_all add: paints_def same_geometry_def screen_ok_def on_screen_def)

lemma row_bound:
  assumes "screen_ok s" and "on_screen s (x, y)"
  shows "x * bytes_per_pixel s + bytes_per_pixel s \<le> bytes_per_row s"
    and "y * bytes_per_row s + bytes_per_row s \<le> bytes_per_row s * height s"
proof -
  have "(x + 1) * bytes_per_pixel s \<le> width s * bytes_per_pixel s"
    using assms(2) by (intro mult_le_mono1) (simp add: on_screen_def)
  then show "x * bytes_per_pixel s + bytes_per_pixel s \<le> bytes_per_row s"
    using assms(1) by (simp add: screen_ok_def)
  have "(y + 1) * bytes_per_row s \<le> height s * bytes_per_row s"
    using assms(2) by (intro mult_le_mono1) (simp add: on_screen_def)
  then show "y * bytes_per_row s + bytes_per_row s \<le> bytes_per_row s * height s"
    by (simp add: mult.commute)
qed

lemma screen_small:
  assumes "screen_ok s" and "on_screen s p"
  shows "4 * width s < 2 ^ 64" and "4 * height s < 2 ^ 64"
proof -
  have ok: "4 \<le> bytes_per_pixel s" "width s * bytes_per_pixel s \<le> bytes_per_row s" "bytes_per_row s * height s < 2 ^ 64"
    and pos: "1 \<le> width s" "1 \<le> height s" using assms by (auto simp: screen_ok_def on_screen_def)
  have w: "width s * 4 \<le> width s * bytes_per_pixel s" using ok(1) by (rule mult_le_mono2)
  then have "width s * 4 \<le> bytes_per_row s" using ok(2) by (rule le_trans)
  moreover have "bytes_per_row s * 1 \<le> bytes_per_row s * height s" using pos(2) by (rule mult_le_mono2)
  ultimately show "4 * width s < 2 ^ 64" using ok(3) by linarith
  have "4 \<le> bytes_per_row s" using w ok(2) pos(1) by linarith
  then have "4 * height s \<le> bytes_per_row s * height s" by (rule mult_le_mono1)
  then show "4 * height s < 2 ^ 64" using ok(3) by (rule le_less_trans)
qed

lemma pixel_in_framebuffer:
  assumes "screen_ok s" and "on_screen s (x, y)"
  shows "pixel_offset s x y + 4 \<le> bytes_per_row s * height s"
  using row_bound [OF assms] assms(1) by (simp add: pixel_offset_def screen_ok_def)

text \<open>Different pixels of the screen occupy different bytes.\<close>

lemma pixels_apart_ordered:
  assumes "screen_ok s" and "on_screen s (x, y)" and "on_screen s (x', y')" and "y < y' \<or> y = y' \<and> x < x'"
  shows "pixel_offset s x y + 4 \<le> pixel_offset s x' y'"
proof (cases "y = y'")
  case True
  then have "(x + 1) * bytes_per_pixel s \<le> x' * bytes_per_pixel s"
    using assms(4) by (intro mult_le_mono1) auto
  then show ?thesis using assms(1) True by (simp add: pixel_offset_def screen_ok_def)
next
  case False
  then have "(y + 1) * bytes_per_row s \<le> y' * bytes_per_row s"
    using assms(4) by (intro mult_le_mono1) auto
  then show ?thesis using row_bound(1) [OF assms(1,2)] assms(1) by (simp add: pixel_offset_def screen_ok_def)
qed

lemma pixels_apart:
  assumes "screen_ok s" and "on_screen s (x, y)" and "on_screen s (x', y')" and "(x, y) \<noteq> (x', y')"
  shows "pixel_offset s x y + 4 \<le> pixel_offset s x' y' \<or> pixel_offset s x' y' + 4 \<le> pixel_offset s x y"
proof (cases "y < y' \<or> y = y' \<and> x < x'")
  case True
  then show ?thesis using pixels_apart_ordered [OF assms(1-3)] by simp
next
  case False
  then have "y' < y \<or> y' = y \<and> x' < x" using assms(4) by auto
  then show ?thesis using pixels_apart_ordered [OF assms(1,3,2)] by simp
qed

lemma pixel_offset_vram [simp]: "pixel_offset (s\<lparr>vram := f\<rparr>) x y = pixel_offset s x y"
  by (simp add: pixel_offset_def)

lemma write_pixel_paints:
  assumes ok: "screen_ok s" and on: "on_screen s (x, y)"
  shows "paints s [(x, y) \<mapsto> c] (write_pixel (pixel_offset s x y) c s)"
proof -
  let ?s = "write_pixel (pixel_offset s x y) c s"
  have "pixel ?s (x, y) = color_bytes c"
    by (simp add: pixel_def color_bytes_def write_pixel_def)
  moreover have "pixel ?s (x', y') = pixel s (x', y')" if "on_screen s (x', y')" "(x', y') \<noteq> (x, y)" for x' y'
    using pixels_apart [OF ok on that(1)] that(2) by (auto simp: pixel_def write_pixel_def)
  moreover have "vram ?s k = vram s k" if "bytes_per_row s * height s \<le> k" for k
    using that pixel_in_framebuffer [OF ok on] by (simp add: write_pixel_def)
  ultimately show ?thesis
    by (auto simp: paints_def same_geometry_def write_pixel_def)
qed

lemma draw_pixel_paints:
  assumes ok: "screen_ok s" and on: "on_screen s (x, y)"
  obtains s' where "draw_pixel x y c s = Inr s'" and "paints s [(x, y) \<mapsto> c] s'"
proof
  have "bytes_per_row s * height s < 2 ^ 64" using ok by (simp add: screen_ok_def)
  then show "draw_pixel x y c s = Inr (write_pixel (pixel_offset s x y) c s)"
    using row_bound [OF ok on] on
    by (simp add: draw_pixel_def on_screen_def usize_mul_def usize_add_def pixel_offset_def)
qed (rule write_pixel_paints [OF ok on])

lemma draw_pixel_off_screen: "\<not> on_screen s (x, y) \<Longrightarrow> draw_pixel x y c s = Inl AssertFailed"
  by (auto simp: draw_pixel_def on_screen_def assert_that_def)

section \<open>Painting the whole screen\<close>

lemma draw_row_paints:
  assumes ok: "screen_ok s" and y: "y < height s"
  shows "\<exists>s'. draw_row c y s = Inr s' \<and> paints s (\<lambda>(a, b). if b = y \<and> a < width s then Some c else None) s'"
proof -
  let ?row = "\<lambda>i (a, b). if b = y \<and> a < i then Some c else None"
  let ?I = "\<lambda>i (offset, s'). offset = y * bytes_per_row s + i * bytes_per_pixel s \<and> paints s (?row i) s'"
  let ?body = "\<lambda>_ :: nat. \<lambda>(offset, s). bnd (usize_add offset (bytes_per_pixel s))
    (\<lambda>next. Inr (next, write_pixel offset c s))"
  have fits: "y * bytes_per_row s + bytes_per_row s \<le> bytes_per_row s * height s" "bytes_per_row s * height s < 2 ^ 64"
    using ok row_bound(2) [OF ok, of 0 y] y mult_le_mono1 [of "y + 1" "height s" "bytes_per_row s"]
    by (auto simp: screen_ok_def on_screen_def mult.commute)
  have step: "\<exists>t'. ?body i t = Inr t' \<and> ?I (Suc i) t'"
    if i: "i < width s" and I: "?I i t" for i t
  proof -
    obtain s' where t: "t = (y * bytes_per_row s + i * bytes_per_pixel s, s')" and p: "paints s (?row i) s'"
      using I by (cases t) auto
    have on: "on_screen s' (i, y)" using i y paints_geometry [OF p] by (simp add: on_screen_def)
    have "screen_ok s'" using ok paints_geometry(5) [OF p] by simp
    note step = write_pixel_paints [OF this on, of c]
    have off: "pixel_offset s' i y = y * bytes_per_row s + i * bytes_per_pixel s"
      using paints_geometry [OF p] by (simp add: pixel_offset_def)
    have "y * bytes_per_row s + i * bytes_per_pixel s + bytes_per_pixel s < 2 ^ 64"
      using row_bound(1) [OF ok, of i y] i y fits by (simp add: on_screen_def)
    moreover have "?row i ++ [(i, y) \<mapsto> c] = ?row (Suc i)" by (auto simp: map_add_def fun_eq_iff less_Suc_eq)
    ultimately show ?thesis
      using paints_trans [OF p step] off paints_geometry(3) [OF p] by (simp add: t usize_add_def add_ac)
  qed
  have "?I 0 (y * bytes_per_row s, s)" by (auto intro: paints_nothing)
  then have "\<exists>t'. for_list ?body [0..<width s] (y * bytes_per_row s, s) = Inr t' \<and> ?I (width s) t'"
    by (rule for_upt_inv [where I = ?I]) (rule step)
  then obtain t' s' where "for_list ?body [0..<width s] (y * bytes_per_row s, s) = Inr (t', s')"
    "paints s (?row (width s)) s'" by (elim exE conjE) (simp split: prod.splits)
  then show ?thesis using fits unfolding draw_row_def by (simp add: usize_mul_def)
qed

lemma draw_all_paints:
  assumes ok: "screen_ok s"
  shows "\<exists>s'. draw_all c s = Inr s' \<and> paints s (\<lambda>p. if on_screen s p then Some c else None) s'"
proof -
  let ?rows = "\<lambda>i (a, b). if b < i \<and> a < width s then Some c else None"
  have "\<exists>t'. draw_row c i t = Inr t' \<and> paints s (?rows (Suc i)) t'"
    if i: "i < height s" and p: "paints s (?rows i) t" for i t
  proof -
    have "screen_ok t" "i < height t" using ok i paints_geometry [OF p] by simp_all
    then obtain t' where t': "draw_row c i t = Inr t'"
      "paints t (\<lambda>(a, b). if b = i \<and> a < width t then Some c else None) t'" using draw_row_paints by blast
    moreover have "?rows i ++ (\<lambda>(a, b). if b = i \<and> a < width t then Some c else None) = ?rows (Suc i)"
      using paints_geometry [OF p] by (auto simp: map_add_def fun_eq_iff less_Suc_eq)
    ultimately show ?thesis using paints_trans [OF p t'(2)] by auto
  qed
  moreover have "paints s (?rows 0) s" by (rule paints_nothing) auto
  ultimately obtain s' where "draw_all c s = Inr s'" "paints s (?rows (height s)) s'"
    unfolding draw_all_def using for_upt_inv [of "\<lambda>i. paints s (?rows i)" s "height s" "draw_row c"] by blast
  moreover have "?rows (height s) = (\<lambda>p. if on_screen s p then Some c else None)"
    by (auto simp: on_screen_def fun_eq_iff)
  ultimately show ?thesis by auto
qed

section \<open>Glyphs\<close>

text \<open>
  The glyph of a character at a position: eight columns, of which the first lies one pixel right of the
  position, by sixteen rows; the most significant bit of a font byte is the leftmost pixel.
\<close>

definition glyph :: "u8 list \<Rightarrow> u8 \<Rightarrow> nat \<Rightarrow> nat \<Rightarrow> color \<Rightarrow> color \<Rightarrow> (nat \<times> nat \<rightharpoonup> color)" where
  "glyph font c x y fg bg = (\<lambda>(a, b).
    if x < a \<and> a \<le> x + 8 \<and> y \<le> b \<and> b < y + 16
    then Some (if bit (font ! (16 * unat c + (b - y))) (x + 8 - a) then fg else bg) else None)"

lemma and_one_bit: "w AND push_bit i 1 \<noteq> 0 \<longleftrightarrow> bit w i" for w :: u8
  by (simp only: bit_iff_and_push_bit_not_eq_0)

lemma draw_glyph_row_paints:
  assumes ok: "screen_ok s" and x: "x + 8 < width s" and y: "y < height s"
  shows "\<exists>s'. draw_glyph_row d x y fg bg s = Inr s' \<and>
    paints s (\<lambda>(a, b). if b = y \<and> x < a \<and> a \<le> x + 8
      then Some (if bit d (x + 8 - a) then fg else bg) else None) s'"
proof -
  let ?row = "\<lambda>i (a, b). if b = y \<and> x + 8 - i < a \<and> a \<le> x + 8
    then Some (if bit d (x + 8 - a) then fg else bg) else None"
  have step: "\<exists>t'. (let is_set = d AND push_bit i 1 \<noteq> 0 in
      bnd (usize_add x (CHAR_WIDTH - i)) (\<lambda>px. if is_set then draw_pixel px y fg t else draw_pixel px y bg t)) =
      Inr t' \<and> paints s (?row (Suc i)) t'"
    if i: "i < 8" and p: "paints s (?row i) t" for i t
  proof -
    let ?c = "if bit d i then fg else bg"
    have t: "screen_ok t" "on_screen t (x + (8 - i), y)"
      using ok x y paints_geometry [OF p] by (simp_all add: on_screen_def)
    obtain t' where t': "draw_pixel (x + (8 - i)) y ?c t = Inr t'" "paints t [(x + (8 - i), y) \<mapsto> ?c] t'"
      by (rule draw_pixel_paints [OF t])
    have "width s < 2 ^ 64" using screen_small(1) [OF ok, of "(x, y)"] x y by (simp add: on_screen_def)
    then have add: "usize_add x (CHAR_WIDTH - i) = Inr (x + (8 - i))" using x by (simp add: CHAR_WIDTH_def)
    have "?row i ++ [(x + (8 - i), y) \<mapsto> ?c] = ?row (Suc i)"
    proof
      fix p :: "nat \<times> nat"
      obtain a b where "p = (a, b)" by (cases p)
      moreover have "a = x + (8 - i) \<Longrightarrow> x + 8 - a = i" using i by simp
      ultimately show "(?row i ++ [(x + (8 - i), y) \<mapsto> ?c]) p = ?row (Suc i) p"
        using i by (auto simp: map_add_def)
    qed
    then have "paints s (?row (Suc i)) t'" using paints_trans [OF p t'(2)] by simp
    then show ?thesis
      unfolding Let_def and_one_bit add bnd_Inr using t'(1) by (intro exI [of _ t']) (cases "bit d i"; simp)
  qed
  have "paints s (?row 0) s" by (rule paints_nothing) auto
  then have "\<exists>s'. draw_glyph_row d x y fg bg s = Inr s' \<and> paints s (?row CHAR_WIDTH) s'"
    unfolding draw_glyph_row_def
    by (rule for_upt_inv [where I = "\<lambda>i. paints s (?row i)"]) (rule step, simp_all add: CHAR_WIDTH_def)
  then show ?thesis by (simp add: CHAR_WIDTH_def)
qed

lemma draw_char_paints:
  assumes ok: "screen_ok s" and x: "x + 8 < width s" and y: "y + 16 \<le> height s"
    and font: "length font = 4096"
  shows "\<exists>s'. draw_char font c x y fg bg s = Inr s' \<and> paints s (glyph font c x y fg bg) s'"
proof -
  let ?rows = "\<lambda>r (a, b). if x < a \<and> a \<le> x + 8 \<and> y \<le> b \<and> b < y + r
    then Some (if bit (font ! (16 * unat c + (b - y))) (x + 8 - a) then fg else bg) else None"
  let ?I = "\<lambda>r (y', pos, s'). y' = y + r \<and> pos = 16 * unat c + r \<and> paints s (?rows r) s'"
  let ?body = "\<lambda>_ :: nat. \<lambda>(y, pos, s). bnd (font_byte font pos) (\<lambda>display_byte.
    bnd (draw_glyph_row display_byte x y fg bg s) (\<lambda>s.
    bnd (usize_add y 1) (\<lambda>y. bnd (usize_add pos 1) (\<lambda>pos. Inr (y, pos, s)))))"
  have c: "unat c < 256" using unsigned_less [of c, where ?'a = nat] by simp
  have h: "height s < 2 ^ 64" using screen_small(2) [OF ok, of "(x, y)"] x y by (simp add: on_screen_def)
  have step: "\<exists>t'. ?body r t = Inr t' \<and> ?I (Suc r) t'" if r: "r < 16" and I: "?I r t" for r t
  proof -
    obtain s' where t: "t = (y + r, 16 * unat c + r, s')" and p: "paints s (?rows r) s'" using I by (cases t) auto
    have "screen_ok s'" "x + 8 < width s'" "y + r < height s'" using ok x y r paints_geometry [OF p] by simp_all
    from draw_glyph_row_paints [OF this] obtain s'' where
      s'': "draw_glyph_row (font ! (16 * unat c + r)) x (y + r) fg bg s' = Inr s''"
      "paints s' (\<lambda>(a, b). if b = y + r \<and> x < a \<and> a \<le> x + 8
        then Some (if bit (font ! (16 * unat c + r)) (x + 8 - a) then fg else bg) else None) s''" by blast
    have "?rows r ++ (\<lambda>(a, b). if b = y + r \<and> x < a \<and> a \<le> x + 8
        then Some (if bit (font ! (16 * unat c + r)) (x + 8 - a) then fg else bg) else None) = ?rows (Suc r)"
      by (auto simp: map_add_def fun_eq_iff less_Suc_eq)
    then have "paints s (?rows (Suc r)) s''" using paints_trans [OF p s''(2)] by simp
    moreover have "16 * unat c + r < 4096" "y + r + 1 < 2 ^ 64" using c r y h by simp_all
    ultimately show ?thesis using s''(1) font by (simp add: t font_byte_def usize_add_def)
  qed
  have "?I 0 (y, 16 * unat c, s)" by (auto intro: paints_nothing)
  then have "\<exists>t'. for_list ?body [0..<16] (y, 16 * unat c, s) = Inr t' \<and> ?I 16 t'"
    by (rule for_upt_inv [where I = ?I]) (rule step)
  then obtain y' pos s' where "for_list ?body [0..<16] (y, 16 * unat c, s) = Inr (y', pos, s')" "paints s (?rows 16) s'"
    by (elim exE conjE) (simp split: prod.splits)
  then show ?thesis
    using c unfolding draw_char_def CHAR_HEIGHT_def glyph_def by (simp add: usize_mul_def mult.commute)
qed

section \<open>The cursor\<close>

definition next_cursor :: "screen \<Rightarrow> u8 \<Rightarrow> nat \<times> nat \<Rightarrow> nat \<times> nat" where
  "next_cursor s c p =
    (if c \<noteq> 10 \<and> fst p + 17 \<le> width s then (fst p + 9, snd p)
     else (0, if snd p + 32 \<le> height s then snd p + 16 else 0))"

definition console_ok :: "console \<Rightarrow> bool" where
  "console_ok con \<longleftrightarrow> screen_ok (screen con) \<and> 9 dvd fst (cursor_pos con) \<and>
    fst (cursor_pos con) + 8 \<le> width (screen con) \<and> snd (cursor_pos con) + 16 \<le> height (screen con)"

text \<open>The columns fit when the last of them does not end at the edge of the screen.\<close>

definition columns_fit :: "screen \<Rightarrow> bool" where
  "columns_fit s \<longleftrightarrow> width s mod 9 \<noteq> 8"

lemma columns_fit_room:
  assumes "console_ok con" and "columns_fit (screen con)"
  shows "fst (cursor_pos con) + 8 < width (screen con)"
proof -
  obtain k where "fst (cursor_pos con) = 9 * k" using assms(1) by (auto simp: console_ok_def elim: dvdE)
  moreover have "(9 * k + 8) mod 9 = 8" by simp
  then have "9 * k + 8 \<noteq> width (screen con)" using assms(2) unfolding columns_fit_def by metis
  ultimately show ?thesis using assms(1) by (simp add: console_ok_def)
qed

lemma console_small:
  assumes "console_ok con"
  shows "4 * width (screen con) < 2 ^ 64" and "4 * height (screen con) < 2 ^ 64"
  using screen_small [of "screen con" "(0, 0)"] assms by (auto simp: console_ok_def on_screen_def)

lemma next_line_eq:
  assumes "y + 16 \<le> height s" and "4 * height s < 2 ^ 64"
  shows "next_line s y = Inr (if y + 32 \<le> height s then y + 16 else 0)"
  using assms by (simp add: next_line_def usize_add_def CHAR_HEIGHT_def not_less)

text \<open>What printing a character does to a console with room for it.\<close>

lemma print_char_result:
  assumes ok: "console_ok con" and room: "c \<noteq> 10 \<Longrightarrow> fst (cursor_pos con) + 8 < width (screen con)"
    and font: "length font = 4096"
  shows "\<exists>s'. print_char_colored font c fg bg con =
      Inr (con\<lparr>screen := s', cursor_pos := next_cursor (screen con) c (cursor_pos con)\<rparr>) \<and>
    paints (screen con) (if c = 10 then Map.empty
      else glyph font c (fst (cursor_pos con)) (snd (cursor_pos con)) fg bg) s'"
proof -
  obtain x y where cur: "cursor_pos con = (x, y)" by (cases "cursor_pos con")
  have s: "screen_ok (screen con)" and y: "y + 16 \<le> height (screen con)"
    using ok cur by (auto simp: console_ok_def)
  note small = console_small [OF ok]
  show ?thesis
  proof (cases "c = 10")
    case True
    then show ?thesis using cur next_line_eq [OF y small(2)]
      by (intro exI [of _ "screen con"]) (simp add: print_char_colored_def next_cursor_def paints_nothing)
  next
    case False
    then have x: "x + 8 < width (screen con)" using room cur by simp
    obtain s' where s': "draw_char font c x y fg bg (screen con) = Inr s'"
      "paints (screen con) (glyph font c x y fg bg) s'" using draw_char_paints [OF s x y font] by blast
    note geo = paints_geometry [OF s'(2)]
    have "next_line s' y = Inr (if y + 32 \<le> height (screen con) then y + 16 else 0)"
      using next_line_eq [of y s'] y small(2) geo by simp
    then show ?thesis using s' False cur x small(1) geo
      by (intro exI [of _ s']) (simp add: print_char_colored_def next_cursor_def usize_add_def char_sizes not_less)
  qed
qed

lemma next_cursor_ok:
  assumes ok: "console_ok con" and p: "paints (screen con) P s'"
  shows "console_ok (con\<lparr>screen := s', cursor_pos := next_cursor (screen con) c (cursor_pos con)\<rparr>)"
  using ok paints_geometry [OF p] by (auto simp: console_ok_def next_cursor_def)

lemma print_char_ok:
  assumes ok: "console_ok con" and fit: "columns_fit (screen con)" and font: "length font = 4096"
  obtains con' where "print_char font c con = Inr con'" and "console_ok con'"
    and "cursor_pos con' = next_cursor (screen con) c (cursor_pos con)"
    and "fg_color con' = fg_color con" and "bg_color con' = bg_color con"
    and "paints (screen con) (if c = 10 then Map.empty
      else glyph font c (fst (cursor_pos con)) (snd (cursor_pos con)) (fg_color con) (bg_color con)) (screen con')"
proof -
  from print_char_result [OF ok columns_fit_room [OF ok fit] font, of c "fg_color con" "bg_color con"]
  obtain s' where s': "print_char font c con =
      Inr (con\<lparr>screen := s', cursor_pos := next_cursor (screen con) c (cursor_pos con)\<rparr>)"
    "paints (screen con) (if c = 10 then Map.empty
      else glyph font c (fst (cursor_pos con)) (snd (cursor_pos con)) (fg_color con) (bg_color con)) s'"
    unfolding print_char_def by blast
  show thesis by (rule that [OF s'(1) next_cursor_ok [OF ok s'(2)]]) (simp_all add: s'(2))
qed

definition in_framebuffer_only :: "screen \<Rightarrow> screen \<Rightarrow> bool" where
  "in_framebuffer_only s s' \<longleftrightarrow> same_geometry s s' \<and> (\<forall>k \<ge> bytes_per_row s * height s. vram s' k = vram s k)"

lemma paints_in_framebuffer: "paints s P s' \<Longrightarrow> in_framebuffer_only s s'"
  by (simp add: paints_def in_framebuffer_only_def)

lemma in_framebuffer_trans: "in_framebuffer_only s s' \<Longrightarrow> in_framebuffer_only s' s'' \<Longrightarrow> in_framebuffer_only s s''"
  by (simp add: in_framebuffer_only_def same_geometry_def)

lemma write_str_ok:
  assumes "console_ok con" and "columns_fit (screen con)" and "length font = 4096"
  shows "\<exists>con'. write_str font cps con = Inr con' \<and> console_ok con' \<and>
    in_framebuffer_only (screen con) (screen con')"
  using assms
proof (induction cps arbitrary: con)
  case Nil
  then show ?case by (simp add: write_str_def in_framebuffer_only_def same_geometry_def)
next
  case (Cons cp cps)
  show ?case
  proof (cases "as_ascii cp")
    case None
    then show ?thesis using Cons by (simp add: write_str_def)
  next
    case (Some a)
    obtain con1 where c1: "print_char font a con = Inr con1" "console_ok con1"
      and p: "in_framebuffer_only (screen con) (screen con1)"
      by (rule print_char_ok [OF Cons.prems, of a]) (blast dest: paints_in_framebuffer)
    have "columns_fit (screen con1)"
      using p Cons.prems(2) by (simp add: columns_fit_def in_framebuffer_only_def same_geometry_def)
    from Cons.IH [OF c1(2) this Cons.prems(3)] obtain con' where "write_str font cps con1 = Inr con'"
      "console_ok con'" "in_framebuffer_only (screen con1) (screen con')" by blast
    then show ?thesis
      using c1(1) Some in_framebuffer_trans [OF p] by (intro exI [of _ con']) (simp add: write_str_def)
  qed
qed

section \<open>The edge of the screen\<close>

lemma for_upt_first_panics: "body 0 s = Inl e \<Longrightarrow> 0 < n \<Longrightarrow> for_list body [0..<n] s = Inl e"
  by (simp add: upt_conv_Cons)

lemma print_char_at_edge:
  assumes ok: "console_ok con" and edge: "fst (cursor_pos con) + 8 = width (screen con)" and c: "c \<noteq> 10"
    and font: "length font = 4096"
  shows "print_char font c con = Inl AssertFailed"
proof -
  obtain x y where cur: "cursor_pos con = (x, y)" by (cases "cursor_pos con")
  have c': "unat c * 16 < 4096" using unsigned_less [of c, where ?'a = nat] by simp
  have "usize_add x (CHAR_WIDTH - 0) = Inr (x + 8)"
    using console_small(1) [OF ok] edge cur by (simp add: CHAR_WIDTH_def)
  moreover have "draw_pixel (x + 8) y col (screen con) = Inl AssertFailed" for col
    using edge cur by (intro draw_pixel_off_screen) (simp add: on_screen_def)
  ultimately have row: "draw_glyph_row d x y fg bg (screen con) = Inl AssertFailed" for d fg bg
    unfolding draw_glyph_row_def
    by (intro for_upt_first_panics) (simp_all add: CHAR_WIDTH_def usize_add_def Let_def split: if_splits)
  then have "draw_char font c x y fg bg (screen con) = Inl AssertFailed" for fg bg
    unfolding draw_char_def using c' font
    by (simp add: usize_mul_def CHAR_HEIGHT_def font_byte_def upt_conv_Cons)
  then show ?thesis using c cur by (simp add: print_char_def print_char_colored_def)
qed

lemma fill_line:
  assumes "console_ok con" and "cursor_pos con = (9 * i, 0)" and "9 * (i + n) + 8 = width (screen con)"
    and font: "length font = 4096"
  shows "write_str font (replicate (Suc n) 65) con = Inl AssertFailed"
  using assms(1-3)
proof (induction n arbitrary: con i)
  case 0
  then show ?case using print_char_at_edge [OF 0(1) _ _ font, of 65] by (simp add: write_str_def as_ascii_def)
next
  case (Suc n)
  have "fst (cursor_pos con) + 8 < width (screen con)" using Suc.prems by simp
  from print_char_result [OF Suc.prems(1) this font, of 65 "fg_color con" "bg_color con"]
  obtain s' P where s': "print_char font 65 con =
      Inr (con\<lparr>screen := s', cursor_pos := next_cursor (screen con) 65 (cursor_pos con)\<rparr>)"
    and p: "paints (screen con) P s'" unfolding print_char_def by blast
  let ?con = "con\<lparr>screen := s', cursor_pos := next_cursor (screen con) 65 (cursor_pos con)\<rparr>"
  have "cursor_pos ?con = (9 * (i + 1), 0)" using Suc.prems by (simp add: next_cursor_def)
  moreover have "9 * (i + 1 + n) + 8 = width (screen ?con)"
    using Suc.prems(3) paints_geometry(1) [OF p] by simp
  ultimately have "write_str font (replicate (Suc n) 65) ?con = Inl AssertFailed"
    by (rule Suc.IH [OF next_cursor_ok [OF Suc.prems(1) p]])
  then show ?case using s' by (simp add: write_str_def as_ascii_def)
qed

lemma console_new_ok:
  assumes ok: "screen_ok s" and w: "8 \<le> width s" and h: "16 \<le> height s"
  obtains con where "console_new s bg fg = Inr con" and "console_ok con" and "cursor_pos con = (0, 0)"
    and "paints s (\<lambda>p. if on_screen s p then Some bg else None) (screen con)"
proof -
  obtain s' where s': "draw_all bg s = Inr s'" "paints s (\<lambda>p. if on_screen s p then Some bg else None) s'"
    using draw_all_paints [OF ok] by blast
  show thesis
  proof (rule that)
    show "console_new s bg fg = Inr \<lparr>screen = s', cursor_pos = (0, 0), bg_color = bg, fg_color = fg\<rparr>"
      using s'(1) by (simp add: console_new_def)
  qed (use s'(2) paints_geometry [OF s'(2)] ok w h in \<open>simp_all add: console_ok_def\<close>)
qed

section \<open>Properties\<close>

definition example_screen :: "nat \<Rightarrow> screen" where
  "example_screen w = \<lparr>width = w, height = 600, bytes_per_pixel = 4, bytes_per_row = 4 * w, vram = (\<lambda>_. 0)\<rparr>"

text \<open>
  C28. Printing a character other than a newline paints its glyph of 8 by 16 pixels, one pixel right of the
  cursor, in the foreground and background colours, and leaves every other pixel as it was; the cursor
  moves one column on, to the next line where the line is full, and to the first line at the bottom.
\<close>

theorem print_char_glyph:
  assumes "console_ok con" and "columns_fit (screen con)" and "length font = 4096" and "c \<noteq> 10"
  shows "\<exists>con'. print_char font c con = Inr con' \<and>
    cursor_pos con' = next_cursor (screen con) c (cursor_pos con) \<and>
    (\<forall>p. on_screen (screen con) p \<longrightarrow> pixel (screen con') p =
      (case glyph font c (fst (cursor_pos con)) (snd (cursor_pos con)) (fg_color con) (bg_color con) p of
         Some col \<Rightarrow> color_bytes col | None \<Rightarrow> pixel (screen con) p))"
proof -
  obtain con' where "print_char font c con = Inr con'"
    "cursor_pos con' = next_cursor (screen con) c (cursor_pos con)"
    "paints (screen con) (if c = 10 then Map.empty
      else glyph font c (fst (cursor_pos con)) (snd (cursor_pos con)) (fg_color con) (bg_color con)) (screen con')"
    by (rule print_char_ok [OF assms(1-3)])
  then show ?thesis using assms(4) by (intro exI [of _ con']) (simp add: paints_def)
qed

definition example_console :: console where
  "example_console = \<lparr>screen = example_screen 1024, cursor_pos = (9, 16), bg_color = black, fg_color = blue\<rparr>"

theorem print_char_glyph_witness:
  "\<exists>con'. print_char (replicate 4096 0x3C) 72 example_console = Inr con' \<and> cursor_pos con' = (18, 16) \<and>
    pixel (screen con') (10, 16) = color_bytes black \<and> pixel (screen con') (12, 16) = color_bytes blue"
proof -
  have "console_ok example_console" "columns_fit (screen example_console)"
    by (simp_all add: example_console_def example_screen_def console_ok_def screen_ok_def columns_fit_def)
  from print_char_glyph [OF this, of "replicate 4096 0x3C" 72] obtain con' where
    "print_char (replicate 4096 0x3C) 72 example_console = Inr con'"
    "cursor_pos con' = next_cursor (screen example_console) 72 (cursor_pos example_console)"
    and px: "\<forall>p. on_screen (screen example_console) p \<longrightarrow> pixel (screen con') p =
      (case glyph (replicate 4096 0x3C) 72 9 16 blue black p of
         Some col \<Rightarrow> color_bytes col | None \<Rightarrow> pixel (screen example_console) p)"
    by (auto simp: example_console_def)
  then show ?thesis
    using px [THEN spec, of "(10, 16)"] px [THEN spec, of "(12, 16)"]
    by (simp add: example_console_def example_screen_def on_screen_def glyph_def next_cursor_def bit_numeral_rec)
qed

text \<open>
  C38. On a screen whose width is 8 modulo 9, such as one of 800 by 600 pixels, a line of text that
  reaches the last column makes the console panic: the character would end one pixel off the screen.
\<close>

theorem console_line_panics:
  assumes "screen_ok s" and "width s mod 9 = 8" and "16 \<le> height s" and "length font = 4096"
  shows "\<exists>con. console_new s bg fg = Inr con \<and>
    write_str font (replicate (width s div 9 + 1) 65) con = Inl AssertFailed"
proof -
  have w: "9 * (width s div 9) + 8 = width s" using assms(2) mult_div_mod_eq [of 9 "width s"] by simp
  obtain con where con: "console_new s bg fg = Inr con" "console_ok con" "cursor_pos con = (0, 0)"
    and p: "paints s (\<lambda>p. if on_screen s p then Some bg else None) (screen con)"
    by (rule console_new_ok [OF assms(1) _ assms(3), of bg fg]) (use w in linarith)
  have "write_str font (replicate (Suc (width s div 9)) 65) con = Inl AssertFailed"
    using con(3) w paints_geometry(1) [OF p] by (intro fill_line [where i = 0, OF con(2) _ _ assms(4)]) simp_all
  then show ?thesis using con(1) by simp
qed

theorem console_line_panics_witness:
  "\<exists>con. console_new (example_screen 800) black blue = Inr con \<and>
    write_str (replicate 4096 0) (replicate 89 65) con = Inl AssertFailed"
  using console_line_panics [of "example_screen 800" "replicate 4096 0" black blue]
  by (simp add: example_screen_def screen_ok_def)

end
