(* ===== verification/Acpi.thy ===== *)
theory Acpi
  imports Memory_System
begin

text \<open>
  Reading the ACPI tables (\<open>tables\<close> of \<open>src/acpi.rs\<close> and its uses in the drivers). The ACPI library is a
  parameter: the record \<open>acpi\<close> has its functions, which reach the memory only through the kernel's handler,
  \<open>map_physical_region\<close> and \<open>unmap_physical_region\<close>. What the drivers rely on is the hypothesis \<open>acpi_answers\<close>.

  Lemmas: what a run of the library leaves of the memory system, and that a state with few
  live allocations has a run of free pages for the next one.
\<close>

section \<open>The tables\<close>

datatype madt_entry = IoApicEntry (io_apic_address: u32) (global_system_interrupt_base: u32) | OtherEntry

record madt =
  madt_lapic_address :: u32
  madt_entries :: "madt_entry list"

record hpet_info =
  base_address :: nat
  main_counter_is_64bits :: bool

text \<open>
  The answer of the boot loader and the functions of the library: \<open>'t\<close> is the type of \<open>AcpiTables\<close>, and a
  table that is found stays mapped until its mapping is dropped.
\<close>

record 't acpi =
  rsdp_address :: "u64 option"
  from_rsdp :: "u64 \<Rightarrow> vm \<Rightarrow> ('t option \<times> vm) run"
  find_madt :: "'t \<Rightarrow> vm \<Rightarrow> ((madt \<times> physical_mapping) option \<times> vm) run"
  hpet_info_new :: "'t \<Rightarrow> vm \<Rightarrow> (hpet_info option \<times> vm) run"
  drop_tables :: "'t \<Rightarrow> vm \<Rightarrow> vm run"

definition acpi_tables :: "'t acpi \<Rightarrow> vm \<Rightarrow> ('t \<times> vm) run" where
  "acpi_tables A st =
    bnd (unwrap (rsdp_address A)) (\<lambda>rsdp.
    bnd (from_rsdp A rsdp st) (\<lambda>(r, st).
    bnd (unwrap r) (\<lambda>t. Inr (t, st))))"

text \<open>\<open>tables().find_table::<Madt>().unwrap()\<close> and \<open>HpetInfo::new(&tables()).unwrap()\<close>, with the drop of the tables.\<close>

definition madt_table :: "'t acpi \<Rightarrow> vm \<Rightarrow> (madt \<times> physical_mapping \<times> vm) run" where
  "madt_table A st =
    bnd (acpi_tables A st) (\<lambda>(t, st).
    bnd (find_madt A t st) (\<lambda>(r, st).
    bnd (unwrap r) (\<lambda>(madt, region).
    bnd (drop_tables A t st) (\<lambda>st. Inr (madt, region, st)))))"

definition hpet_table :: "'t acpi \<Rightarrow> vm \<Rightarrow> (hpet_info \<times> vm) run" where
  "hpet_table A st =
    bnd (acpi_tables A st) (\<lambda>(t, st).
    bnd (hpet_info_new A t st) (\<lambda>(r, st).
    bnd (unwrap r) (\<lambda>info.
    bnd (drop_tables A t st) (\<lambda>st. Inr (info, st)))))"

section \<open>What the library does to the memory\<close>

definition region_block :: "physical_mapping \<Rightarrow> page_allocation run" where
  "region_block region =
    page_allocation_new (VirtAddr (virtual_start region)) (mapped_length region div page_size)"

text \<open>
  A run of the library from \<open>st\<close>: it maps ranges whose frames are in \<open>F\<close>, \<open>k\<close> pages in all, unmaps only
  what it has mapped, and holds the allocations \<open>own\<close> in the end.
\<close>

inductive acpi_run :: "phy_addr set \<Rightarrow> vm \<Rightarrow> nat \<Rightarrow> page_allocation list \<Rightarrow> vm \<Rightarrow> bool" for F st where
  start: "acpi_run F st 0 [] st"
| map: "acpi_run F st k own st1 \<Longrightarrow> sz < 2 ^ 64 \<Longrightarrow> pa < 2 ^ 64 \<Longrightarrow> align dvd 4096 \<Longrightarrow> align dvd pa \<Longrightarrow>
    n = whole_pages (of_nat pa) (sz div 4096 + 1) \<Longrightarrow> has_room st1 n \<Longrightarrow> frames_free st1 (of_nat pa) n \<Longrightarrow>
    set (range_frames (of_nat pa) n) \<subseteq> F \<Longrightarrow> map_physical_region align pa sz st1 = Inr (region, st2) \<Longrightarrow>
    region_block region = Inr b \<Longrightarrow> acpi_run F st (k + n) (b # own) st2"
| unmap: "acpi_run F st k own st1 \<Longrightarrow> region_block region = Inr b \<Longrightarrow> b \<in> set own \<Longrightarrow>
    unmap_physical_region region st1 = Inr st2 \<Longrightarrow> acpi_run F st k (remove1 b own) st2"

text \<open>
  What the drivers rely on: in a consistent state where the frames \<open>F\<close> of the tables are free and there is room for \<open>B\<close> pages,
  the library finds the two tables and maps at most \<open>B\<close> pages to do so, of which only the mapping of the table it returns is left.
\<close>

definition acpi_ready :: "phy_addr set \<Rightarrow> nat \<Rightarrow> vm \<Rightarrow> bool" where
  "acpi_ready F B st \<longleftrightarrow> (\<exists>G. vm_ok G st) \<and> has_room st B \<and>
    F \<subseteq> frames_of (physical_allocator (snd st)) - used_frames (physical_allocator (snd st)) \<and>
    tables_avoid (fst st) (root (fst st)) F"

definition acpi_answers :: "'t acpi \<Rightarrow> phy_addr set \<Rightarrow> nat \<Rightarrow> madt \<Rightarrow> hpet_info \<Rightarrow> bool" where
  "acpi_answers A F B madt info \<longleftrightarrow> (\<forall>st. acpi_ready F B st \<longrightarrow>
    (\<exists>region b k st'. madt_table A st = Inr (madt, region, st') \<and> region_block region = Inr b \<and>
      acpi_run F st k [b] st' \<and> k \<le> B) \<and>
    (\<exists>k st'. hpet_table A st = Inr (info, st') \<and> acpi_run F st k [] st' \<and> k \<le> B))"

section \<open>Lemmas\<close>

lemma flush_empty [simp]: "flush as {} = {}"
  by (simp add: flush_def)

lemma unmap_region_dealloc: "region_block region = Inr b \<Longrightarrow> unmap_physical_region region st = dealloc_pages free_frame b st"
  by (simp add: unmap_physical_region_def region_block_def)

definition held_pages :: "page_allocation list \<Rightarrow> nat" where
  "held_pages live = sum_list (map page_amount live)"

lemma range_frames_length [simp]: "length (range_frames a n) = n"
  by (simp add: range_frames_def)

lemma acpi_run_effect:
  assumes "acpi_run F st k own st'" and "live_inv st0 st live fss"
  shows "\<exists>gss. live_inv st0 st' (own @ live) (gss @ fss) \<and> length gss = length own \<and> set (concat gss) \<subseteq> F \<and>
    held_pages own \<le> k \<and> last_page_alloc (snd st') = last_page_alloc (snd st) \<and>
    free_count (physical_allocator (snd st)) \<le> free_count (physical_allocator (snd st')) + 4 * k \<and>
    memory_step\<^sup>*\<^sup>* (st, {}, live) (st', {}, own @ live)"
  using assms(1)
proof (induction rule: acpi_run.induct)
  case start
  then show ?case using assms(2) by (intro exI [of _ "[]"]) (simp add: held_pages_def)
next
  case (map k own st1 sz pa align n region st2 b)
  then obtain gss where gss: "live_inv st0 st1 (own @ live) (gss @ fss)" "length gss = length own" "set (concat gss) \<subseteq> F"
    "held_pages own \<le> k" "last_page_alloc (snd st1) = last_page_alloc (snd st)"
    "free_count (physical_allocator (snd st)) \<le> free_count (physical_allocator (snd st1)) + 4 * k"
    "memory_step\<^sup>*\<^sup>* (st, {}, live) (st1, {}, own @ live)" by blast
  let ?fs = "range_frames (of_nat pa) n"
  note g = grown_acpi [OF live_invD(1) [OF gss(1)] map(2-5) map(7,8) [unfolded map(6)] map(10)
      map(11) [unfolded region_block_def], folded map(6)]
  have b: "page_amount b = n" using g(1) by (simp add: grown_def)
  have "granted st1 b st2"
    by (rule granted.acpi [OF map(2-5) map(7,8) [unfolded map(6)] map(10) map(11) [unfolded region_block_def]])
  then have "memory_step (st1, {}, own @ live) (st2, {}, (b # own) @ live)"
    using memory_step.grant [of st1 b st2 "{}" "own @ live"] by simp
  then have "memory_step\<^sup>*\<^sup>* (st, {}, live) (st2, {}, (b # own) @ live)" using gss(7) by (rule rtranclp.rtrancl_into_rtrancl [rotated])
  moreover have "free_count (physical_allocator (snd st)) \<le> free_count (physical_allocator (snd st2)) + 4 * (k + n)"
    using g(1) gss(6) b by (simp add: grown_def vm_kept_def)
  ultimately show ?case using live_inv_grown [OF gss(1) g(1)] gss(2-5) g(2) b map(9)
    by (intro exI [of _ "?fs # gss"]) (simp add: held_pages_def)
next
  case (unmap k own st1 region b st2)
  then obtain gss where gss: "live_inv st0 st1 (own @ live) (gss @ fss)" "length gss = length own" "set (concat gss) \<subseteq> F"
    "held_pages own \<le> k" "last_page_alloc (snd st1) = last_page_alloc (snd st)"
    "free_count (physical_allocator (snd st)) \<le> free_count (physical_allocator (snd st1)) + 4 * k"
    "memory_step\<^sup>*\<^sup>* (st, {}, live) (st1, {}, own @ live)" by blast
  obtain xs ys where own: "own = xs @ b # ys" "b \<notin> set xs" using split_list_first [OF unmap(3)] by blast
  define ms fs ns where "ms = take (length xs) gss" and "fs = gss ! length xs" and "ns = drop (Suc (length xs)) gss"
  have split: "gss = ms @ fs # ns" "length xs = length ms"
    using gss(2) own(1) by (simp_all add: ms_def fs_def ns_def id_take_nth_drop)
  have de: "dealloc_pages free_frame b st1 = Inr st2" using unmap(2,4) by (simp add: unmap_region_dealloc)
  have r: "live_inv st0 st2 (remove1 b own @ live) ((ms @ ns) @ fss)" "vm_kept {} 0 st1 st2"
    "last_page_alloc (snd st2) = last_page_alloc (snd st1)"
    using live_inv_release_at [of st0 st1 xs b "ys @ live" ms fs "ns @ fss"] gss(1) own split de by (auto simp: remove1_append)
  have "memory_step (st1, {}, own @ live) (st2, {}, remove1 b own @ live)"
    using memory_step.release [of b "own @ live" st1 st2 "{}"] unmap(3) de by (simp add: released_dealloc remove1_append)
  then have "memory_step\<^sup>*\<^sup>* (st, {}, live) (st2, {}, remove1 b own @ live)" using gss(7) by (rule rtranclp.rtrancl_into_rtrancl [rotated])
  moreover have "held_pages (remove1 b own) \<le> k" using gss(4) own by (simp add: held_pages_def remove1_append)
  ultimately show ?case using r gss(2,3,5,6) own split
    by (intro exI [of _ "ms @ ns"]) (auto simp: vm_kept_def remove1_append)
qed

text \<open>Among \<open>k\<close> windows of \<open>n\<close> numbers, fewer than \<open>k\<close> numbers leave one untouched.\<close>

lemma free_window:
  fixes U :: "nat set"
  assumes "finite U" and "card U < k" and "0 < n"
  shows "\<exists>i<k. \<forall>j. i * n \<le> j \<and> j < i * n + n \<longrightarrow> j \<notin> U"
proof (rule ccontr)
  assume "\<not> ?thesis"
  then have "\<forall>i\<in>{..<k}. \<exists>j. j \<in> U \<and> j div n = i"
    using assms(3) by (metis add.commute div_nat_eqI lessThan_iff mult.commute mult_Suc_right)
  then have "{..<k} \<subseteq> (\<lambda>j. j div n) ` U" by (metis imageI subsetI)
  then have "card {..<k} \<le> card U" using assms(1) surj_card_le by blast
  then show False using assms(2) by simp
qed

lemma card_block_pages: "finite (block_pages b)" "card (block_pages b) \<le> page_amount b"
proof -
  have "length (pages_from (first_page b) (page_amount b)) = page_amount b" by simp
  then show "card (block_pages b) \<le> page_amount b" "finite (block_pages b)"
    unfolding block_pages_def by (metis card_image_le card_length finite_set le_trans) simp
qed

lemma card_held_pages: "card (\<Union> (block_pages ` set live)) \<le> held_pages live"
proof (induction live)
  case (Cons b live)
  have "card (block_pages b \<union> \<Union> (block_pages ` set live)) \<le> card (block_pages b) + card (\<Union> (block_pages ` set live))"
    by (rule card_Un_le)
  then show ?case using Cons.IH card_block_pages(2) [of b] by (simp add: held_pages_def)
qed (simp add: held_pages_def)

lemma room_left:
  assumes inv: "live_inv st0 st live fss" and last: "last_page_alloc (snd st) = last_page_alloc (snd st0)"
    and ok: "page_ok (last_page_alloc (snd st0))" and run: "free_run (fst st0) (last_page_alloc (snd st0)) r L"
    and L: "(held_pages live + 1) * n \<le> L" and n: "0 < n" and room: "4 * n \<le> free_count (physical_allocator (snd st))"
  shows "has_room st n"
proof -
  let ?p = "last_page_alloc (snd st0)" and ?W = "\<Union> (block_pages ` set live)" and ?k = "held_pages live + 1"
  have num: "canonical_num (page_plus ?p (r + j)) = canonical_num ?p + (r + j)" if "j < L" for j
    using page_plus_nums(2) [OF ok, of "r + j"] run that by (simp add: free_run_def)
  let ?U = "{j. j < L \<and> canonical_num (page_plus ?p (r + j)) \<in> ?W}"
  have "inj_on (\<lambda>j. canonical_num (page_plus ?p (r + j))) ?U" by (rule inj_onI) (auto simp: num)
  moreover have "finite ?W" using card_block_pages(1) by simp
  ultimately have "card ?U \<le> card ?W" by (intro card_inj_on_le) auto
  then have "card ?U < ?k" using card_held_pages [of live] by simp
  with free_window [OF _ this n] obtain i where i: "i < ?k" "\<forall>j. i * n \<le> j \<and> j < i * n + n \<longrightarrow> j \<notin> ?U" by auto
  have "Suc i * n \<le> ?k * n" using i(1) by (intro mult_le_mono1) simp
  then have "Suc i * n \<le> L" using L by (rule order_trans)
  then have top: "i * n + n \<le> L" by (simp add: add.commute)
  have "view (fst st) (root (fst st)) (page_plus ?p j) = Unmapped" if j: "r + i * n \<le> j" "j < r + i * n + n" for j
  proof -
    define k where "k = j - r"
    have k: "j = r + k" "i * n \<le> k" "k < i * n + n" using j by (auto simp: k_def)
    have "canonical_num (page_plus ?p j) \<notin> block_pages b" if "b \<in> set live" for b
      using i(2) top that k by auto
    moreover have "view (fst st0) (root (fst st0)) (page_plus ?p j) = Unmapped"
      using run k top by (simp add: free_run_def)
    ultimately show ?thesis using live_invD(4) [OF inv, of "page_plus ?p j"] by simp
  qed
  then have "free_run (fst st) ?p (r + i * n) n" using run top by (auto simp: free_run_def)
  then show ?thesis using n room last by (auto simp: has_room_def)
qed

section \<open>A library\<close>

text \<open>A library that finds the table of the interrupt controllers in one frame, and knows the timer.\<close>

definition example_madt :: madt where
  "example_madt = \<lparr>madt_lapic_address = 0xfee00000, madt_entries = [OtherEntry, IoApicEntry 0xfec00000 0]\<rparr>"

definition example_hpet_info :: hpet_info where
  "example_hpet_info = \<lparr>base_address = 0xfed00000, main_counter_is_64bits = True\<rparr>"

definition example_acpi :: "unit acpi" where
  "example_acpi = \<lparr>rsdp_address = Some 0x7fe00000, from_rsdp = (\<lambda>_ st. Inr (Some (), st)),
    find_madt = (\<lambda>_ st. bnd (map_physical_region 4 0x7fe00000 44 st) (\<lambda>(region, st). Inr (Some (example_madt, region), st))),
    hpet_info_new = (\<lambda>_ st. Inr (Some example_hpet_info, st)), drop_tables = (\<lambda>_ st. Inr st)\<rparr>"

lemma example_acpi_answers: "acpi_answers example_acpi {PhyAddr 0x7fe00000} 1 example_madt example_hpet_info"
  unfolding acpi_answers_def
proof (intro allI impI conjI)
  fix st assume ready: "acpi_ready {PhyAddr 0x7fe00000} 1 st"
  show "\<exists>k st'. hpet_table example_acpi st = Inr (example_hpet_info, st') \<and> acpi_run {PhyAddr 0x7fe00000} st k [] st' \<and> k \<le> 1"
    using acpi_run.start by (intro exI [of _ 0] exI [of _ st]) (simp add: hpet_table_def acpi_tables_def example_acpi_def)
  obtain m inner where st: "st = (m, inner)" by fastforce
  obtain G where ok: "vm_ok G (m, inner)" using ready by (auto simp: acpi_ready_def st)
  obtain r where r: "4 * 1 \<le> free_count (physical_allocator inner)" "free_run m (last_page_alloc inner) r 1"
    using ready by (auto simp: acpi_ready_def has_room_def st)
  have rf: "range_frames (of_nat 0x7fe00000) 1 = [PhyAddr 0x7fe00000]"
    by (simp add: range_frames_def frames_from_def frame_plus_def)
  then have fr: "frames_free (m, inner) (of_nat 0x7fe00000) 1"
    using ready unfolding frames_free_def acpi_ready_def st rf by simp
  obtain region p m1 inner1 where a: "map_physical_region 4 0x7fe00000 44 (m, inner) = Inr (region, m1, inner1)"
    "page_from (VirtAddr (virtual_start region)) = Inr p" "mapped_length region div page_size = 1"
    by (rule acpi_map [OF ok, of 1 44 4 "0x7fe00000" 1, OF _ _ _ _ _ _ r(1) fr r(2)]) simp_all
  let ?b = "\<lparr>first_page = p, page_amount = 1\<rparr>"
  have b: "region_block region = Inr ?b" using a(2,3) by (simp add: region_block_def page_allocation_new_def)
  have "acpi_run {PhyAddr 0x7fe00000} st (0 + 1) [?b] (m1, inner1)"
  proof (rule acpi_run.map [OF acpi_run.start])
    show "1 = whole_pages (of_nat 0x7fe00000) (44 div 4096 + 1)" by (simp add: whole_pages_def)
    show "set (range_frames (of_nat 0x7fe00000) 1) \<subseteq> {PhyAddr 0x7fe00000}" unfolding rf by simp
    show "has_room st 1" using ready by (simp add: acpi_ready_def)
    show "frames_free st (of_nat 0x7fe00000) 1" using fr by (simp only: st)
    show "map_physical_region 4 0x7fe00000 44 st = Inr (region, m1, inner1)" using a(1) by (simp only: st)
  qed (use b in simp_all)
  moreover have "madt_table example_acpi st = Inr (example_madt, region, m1, inner1)"
    using a(1) by (simp add: madt_table_def acpi_tables_def example_acpi_def st)
  ultimately show "\<exists>region b k st'. madt_table example_acpi st = Inr (example_madt, region, st') \<and>
      region_block region = Inr b \<and> acpi_run {PhyAddr 0x7fe00000} st k [b] st' \<and> k \<le> 1"
    using b by (intro exI [of _ region] exI [of _ ?b] exI [of _ 1] exI [of _ "(m1, inner1)"]) simp
qed

end
