(* ===== verification/Local_Apic.thy ===== *)
theory Local_Apic
  imports Acpi
begin

text \<open>
  The local interrupt controller (\<open>src/dev/local_apic.rs\<close>) and the mapping of a device's
  registers that the three device drivers share.

  The registers are 32-bit cells at their virtual addresses: a cell holds what was last
  written to it. The table that tells where the registers are comes from \<open>Acpi\<close>.
\<close>

section \<open>Mapping the registers of a device\<close>

definition map_device :: "u64 \<Rightarrow> vm \<Rightarrow> (virt_addr \<times> vm) run" where
  "map_device phys st =
    bnd (map_physical allocate_frame free_frame alloc_phy_addr (PhyAddr phys) 1 st) (\<lambda>(r, st).
    bnd (unwrap r) (\<lambda>(alloc, v).
    Inr (v, st)))"

section \<open>Local APIC\<close>

record lapic =
  lapic_addr :: u64
  lapic_regs :: "u64 \<Rightarrow> u32"

text \<open>The table stays mapped until the end of the closure.\<close>

definition local_apic_address :: "'t acpi \<Rightarrow> vm \<Rightarrow> (virt_addr \<times> vm) run" where
  "local_apic_address A st =
    bnd (madt_table A st) (\<lambda>(madt, region, st).
    let lapic_phy_addr = ucast (madt_lapic_address madt) in
    bnd (map_device lapic_phy_addr st) (\<lambda>(v, st).
    bnd (unmap_physical_region region st) (\<lambda>st.
    Inr (v, st))))"

definition lapic_read :: "u32 \<Rightarrow> lapic \<Rightarrow> u32 run" where
  "lapic_read register l =
    bnd (chk_add (lapic_addr l) (ucast register)) (\<lambda>a. Inr (lapic_regs l a))"

definition lapic_write :: "u32 \<Rightarrow> u32 \<Rightarrow> lapic \<Rightarrow> lapic run" where
  "lapic_write register val l =
    bnd (chk_add (lapic_addr l) (ucast register)) (\<lambda>a.
    Inr (l\<lparr>lapic_regs := (lapic_regs l)(a := val)\<rparr>))"

definition lapic_version :: "lapic \<Rightarrow> u32 run" where
  "lapic_version l = bnd (lapic_read 0x30 l) (\<lambda>v. Inr (v AND 0xff))"

definition lapic_id :: "lapic \<Rightarrow> u32 run" where
  "lapic_id l = bnd (lapic_read 0x20 l) (\<lambda>v. Inr (drop_bit 24 v))"

definition eoi :: "lapic \<Rightarrow> lapic run" where
  "eoi l = lapic_write 0xB0 0 l"

definition set_spurious_interrupt_irq :: "u8 \<Rightarrow> lapic \<Rightarrow> lapic run" where
  "set_spurious_interrupt_irq irq l =
    bnd (lapic_read 0xF0 l) (\<lambda>old.
    lapic_write 0xF0 ((old AND 0xffffff00) OR ucast irq) l)"

definition lapic_enable :: "lapic \<Rightarrow> lapic run" where
  "lapic_enable l = bnd (lapic_read 0xF0 l) (\<lambda>old. lapic_write 0xF0 (old OR 0x100) l)"

definition lapic_disable :: "lapic \<Rightarrow> lapic run" where
  "lapic_disable l = bnd (lapic_read 0xF0 l) (\<lambda>old. lapic_write 0xF0 (old AND NOT 0x100) l)"

definition set_timer_init_count :: "u32 \<Rightarrow> lapic \<Rightarrow> lapic run" where
  "set_timer_init_count count l = lapic_write 0x380 count l"

definition set_lvt_timer_irq :: "u32 \<Rightarrow> lapic \<Rightarrow> lapic run" where
  "set_lvt_timer_irq irq l = lapic_write 0x320 irq l"

definition mask_timer :: "lapic \<Rightarrow> lapic run" where
  "mask_timer l = bnd (lapic_read 0x320 l) (\<lambda>old. lapic_write 0x320 (old OR push_bit 16 1) l)"

definition unmask_timer :: "lapic \<Rightarrow> lapic run" where
  "unmask_timer l = bnd (lapic_read 0x320 l) (\<lambda>old. lapic_write 0x320 (old AND NOT (push_bit 16 1)) l)"

definition set_timer_div :: "u32 \<Rightarrow> lapic \<Rightarrow> lapic run" where
  "set_timer_div d l = lapic_write 0x3e0 d l"

definition current_count :: "lapic \<Rightarrow> u32 run" where
  "current_count l = lapic_read 0x390 l"

definition set_lvt_error_irq :: "u32 \<Rightarrow> lapic \<Rightarrow> lapic run" where
  "set_lvt_error_irq irq l = lapic_write 0x370 irq l"

section \<open>Lemmas\<close>

text \<open>The register page is the last one or lies below it: no register address overflows.\<close>

definition lapic_ok :: "lapic \<Rightarrow> bool" where
  "lapic_ok l \<longleftrightarrow> unat (lapic_addr l) + 4096 \<le> 2 ^ 64"

lemma unat_ucast_up [simp]:
  fixes w :: "'a::len word"
  assumes "LENGTH('a) \<le> LENGTH('b::len)"
  shows "unat (ucast w :: 'b word) = unat w"
proof -
  have "unat w < 2 ^ LENGTH('b)"
    using unsigned_less [of w, where ?'a = nat] assms by (meson less_le_trans one_le_numeral power_increasing)
  then show ?thesis by (simp add: unsigned_ucast_eq take_bit_nat_eq_self)
qed

lemma reg_add:
  fixes r :: u32
  assumes "lapic_ok l" and "unat r < 4096"
  shows "chk_add (lapic_addr l) (ucast r) = Inr (lapic_addr l + ucast r)"
  using assms by (simp add: chk_add_def lapic_ok_def)

lemma lapic_read_ok: "lapic_ok l \<Longrightarrow> unat r < 4096 \<Longrightarrow> lapic_read r l = Inr (lapic_regs l (lapic_addr l + ucast r))"
  by (simp add: lapic_read_def reg_add)

lemma lapic_write_ok:
  "lapic_ok l \<Longrightarrow> unat r < 4096 \<Longrightarrow>
    lapic_write r v l = Inr (l\<lparr>lapic_regs := (lapic_regs l)(lapic_addr l + ucast r := v)\<rparr>)"
  by (simp add: lapic_write_def reg_add)

lemma lapic_ok_upd [simp]: "lapic_ok (l\<lparr>lapic_regs := f\<rparr>) = lapic_ok l"
  by (simp add: lapic_ok_def)

lemmas lapic_ops = eoi_def set_spurious_interrupt_irq_def lapic_enable_def lapic_disable_def
  set_timer_init_count_def set_lvt_timer_irq_def mask_timer_def unmask_timer_def set_timer_div_def
  current_count_def set_lvt_error_irq_def lapic_id_def lapic_version_def

end
