(* ===== verification/Io_Apic.thy ===== *)
theory Io_Apic
  imports Local_Apic
begin

text \<open>
  The I/O interrupt controller (\<open>src/dev/ioapic.rs\<close>). Its registers are reached through two cells:
  the number written to the first selects the register the second gives access to. The entries
  of the MADT table come from \<open>Acpi\<close>; the lines logged about them are left out.

  Lemmas: \<open>redirect_irq\<close> programs exactly the two registers of its line with the fields of the
  entry at their documented bits, except for the destination.
\<close>

section \<open>Registers\<close>

record ioapic =
  io_addr :: u64
  io_select :: u32
  io_regs :: "u32 \<Rightarrow> u32"

definition IO_REG_SELECT_OFFSET :: u64 where "IO_REG_SELECT_OFFSET = 0"
definition IO_WINDOW_OFFSET :: u64 where "IO_WINDOW_OFFSET = 0x10"
definition IOAPICVER_REG :: u32 where "IOAPICVER_REG = 0x1"
definition IOAPIC_ID_REG :: u32 where "IOAPIC_ID_REG = 0"

text \<open>What the device does on a write to and a read from its page.\<close>

definition io_store :: "u64 \<Rightarrow> u32 \<Rightarrow> ioapic \<Rightarrow> ioapic" where
  "io_store a v d =
    (if a = io_addr d then d\<lparr>io_select := v\<rparr>
     else if a = io_addr d + 0x10 then d\<lparr>io_regs := (io_regs d)(io_select d := v)\<rparr>
     else d)"

definition io_load :: "u64 \<Rightarrow> ioapic \<Rightarrow> u32" where
  "io_load a d = (if a = io_addr d + 0x10 then io_regs d (io_select d) else io_select d)"

fun find_ioapic :: "madt_entry list \<Rightarrow> madt_entry option" where
  "find_ioapic [] = None"
| "find_ioapic (e # es) = (case e of IoApicEntry a b \<Rightarrow> Some e | OtherEntry \<Rightarrow> find_ioapic es)"

definition ioapic_address :: "'t acpi \<Rightarrow> vm \<Rightarrow> (virt_addr \<times> vm) run" where
  "ioapic_address A st =
    bnd (madt_table A st) (\<lambda>(madt, region, st).
    bnd (unwrap (find_ioapic (madt_entries madt))) (\<lambda>e.
    case e of
      IoApicEntry phys gsi_base \<Rightarrow>
        bnd (assert_that (gsi_base = 0)) (\<lambda>_.
        bnd (map_device (ucast phys) st) (\<lambda>(v, st).
        bnd (unmap_physical_region region st) (\<lambda>st.
        Inr (v, st))))
    | OtherEntry \<Rightarrow> Inl (Explicit ''not possible'')))"

definition reg_select :: "u32 \<Rightarrow> ioapic \<Rightarrow> ioapic run" where
  "reg_select reg d = bnd (chk_add (io_addr d) IO_REG_SELECT_OFFSET) (\<lambda>a. Inr (io_store a reg d))"

definition io_write_u32 :: "u32 \<Rightarrow> u32 \<Rightarrow> ioapic \<Rightarrow> ioapic run" where
  "io_write_u32 reg val d =
    bnd (reg_select reg d) (\<lambda>d.
    bnd (chk_add (io_addr d) IO_WINDOW_OFFSET) (\<lambda>a. Inr (io_store a val d)))"

definition io_read_u32 :: "u32 \<Rightarrow> ioapic \<Rightarrow> (u32 \<times> ioapic) run" where
  "io_read_u32 reg d =
    bnd (reg_select reg d) (\<lambda>d.
    bnd (chk_add (io_addr d) IO_WINDOW_OFFSET) (\<lambda>a. Inr (io_load a d, d)))"

definition ioapic_version :: "ioapic \<Rightarrow> (u32 \<times> ioapic) run" where
  "ioapic_version d = bnd (io_read_u32 IOAPICVER_REG d) (\<lambda>(v, d). Inr (v AND 0xff, d))"

definition maximum_redirections :: "ioapic \<Rightarrow> (u32 \<times> ioapic) run" where
  "maximum_redirections d = bnd (io_read_u32 IOAPICVER_REG d) (\<lambda>(v, d). Inr (drop_bit 16 v AND 0xff, d))"

definition ioapic_id :: "ioapic \<Rightarrow> (u32 \<times> ioapic) run" where
  "ioapic_id d = bnd (io_read_u32 IOAPIC_ID_REG d) (\<lambda>(v, d). Inr (drop_bit 24 v AND 0xf, d))"

text \<open>
  The initialisation only walks the entries of the table and logs the overrides among them; their
  rendering belongs to the ACPI library.
\<close>

definition ioapic_init :: "'t acpi \<Rightarrow> vm \<Rightarrow> vm run" where
  "ioapic_init A st =
    bnd (madt_table A st) (\<lambda>(madt, region, st).
    unmap_physical_region region st)"

section \<open>Redirection entries\<close>

datatype delivery_mode = Fixed | LowestPriority | Smi | Nmi | Init | ExtInit
datatype destination_mode = Physical | Logical
datatype interrupt_polarity = HighActive | LowActive
datatype trigger_mode = EdgeSensetive | LevelSensetive

fun delivery_mode_u64 :: "delivery_mode \<Rightarrow> u64" where
  "delivery_mode_u64 Fixed = 0"
| "delivery_mode_u64 LowestPriority = 1"
| "delivery_mode_u64 Smi = 2"
| "delivery_mode_u64 Nmi = 4"
| "delivery_mode_u64 Init = 5"
| "delivery_mode_u64 ExtInit = 7"

fun destination_mode_u64 :: "destination_mode \<Rightarrow> u64" where
  "destination_mode_u64 Physical = 0"
| "destination_mode_u64 Logical = 1"

fun interrupt_polarity_u64 :: "interrupt_polarity \<Rightarrow> u64" where
  "interrupt_polarity_u64 HighActive = 0"
| "interrupt_polarity_u64 LowActive = 1"

fun trigger_mode_u64 :: "trigger_mode \<Rightarrow> u64" where
  "trigger_mode_u64 EdgeSensetive = 0"
| "trigger_mode_u64 LevelSensetive = 1"

record redirect_entry =
  dest :: u8
  entry_mask :: bool
  trigger_mode :: trigger_mode
  interrupt_polarity :: interrupt_polarity
  destination_mode :: destination_mode
  delivery_mode :: delivery_mode
  redirected_irq_num :: u8

definition as_raw :: "redirect_entry \<Rightarrow> u64" where
  "as_raw e =
    ucast (redirected_irq_num e)
      OR push_bit 8 (delivery_mode_u64 (delivery_mode e))
      OR push_bit 11 (destination_mode_u64 (destination_mode e))
      OR push_bit 13 (interrupt_polarity_u64 (interrupt_polarity e))
      OR push_bit 15 (trigger_mode_u64 (trigger_mode e))
      OR push_bit 16 (if entry_mask e then 1 else 0)
      OR push_bit 56 (destination_mode_u64 (destination_mode e))"

definition redirect_irq :: "u8 \<Rightarrow> redirect_entry \<Rightarrow> ioapic \<Rightarrow> ioapic run" where
  "redirect_irq irq_num e d =
    bnd (chk_mul irq_num 2) (\<lambda>n.
    bnd (chk_add n 0x10) (\<lambda>reg_num.
    let low = ucast (as_raw e AND 0xffffffff);
        high = ucast (drop_bit 32 (as_raw e)) in
    bnd (io_write_u32 (ucast reg_num) low d) (\<lambda>d.
    bnd (chk_add (ucast reg_num) 1) (\<lambda>reg_high.
    io_write_u32 reg_high high d))))"

section \<open>How the device reads a redirection entry\<close>

definition field :: "u64 \<Rightarrow> nat \<Rightarrow> nat \<Rightarrow> u64" where
  "field w lo n = take_bit n (drop_bit lo w)"

text \<open>The entry of a line, from its two registers.\<close>

definition redirection :: "ioapic \<Rightarrow> u8 \<Rightarrow> u64" where
  "redirection d irq =
    (let r = 0x10 + 2 * ucast irq in
     ucast (io_regs d r) OR push_bit 32 (ucast (io_regs d (r + 1))))"

section \<open>Lemmas\<close>

definition ioapic_ok :: "ioapic \<Rightarrow> bool" where
  "ioapic_ok d \<longleftrightarrow> unat (io_addr d) + 4096 \<le> 2 ^ 64"

lemma io_write_ok:
  assumes "ioapic_ok d"
  shows "io_write_u32 r v d = Inr (d\<lparr>io_select := r, io_regs := (io_regs d)(r := v)\<rparr>)"
  using assms
  by (simp add: io_write_u32_def reg_select_def io_store_def IO_REG_SELECT_OFFSET_def IO_WINDOW_OFFSET_def
      chk_add_def ioapic_ok_def)

lemma io_read_ok:
  assumes "ioapic_ok d"
  shows "io_read_u32 r d = Inr (io_regs d r, d\<lparr>io_select := r\<rparr>)"
  using assms
  by (simp add: io_read_u32_def reg_select_def io_store_def io_load_def IO_REG_SELECT_OFFSET_def
      IO_WINDOW_OFFSET_def chk_add_def ioapic_ok_def)

lemma ioapic_ok_upd [simp]:
  "ioapic_ok (d\<lparr>io_select := r\<rparr>) = ioapic_ok d" "ioapic_ok (d\<lparr>io_regs := f\<rparr>) = ioapic_ok d"
  by (simp_all add: ioapic_ok_def)

lemma redirect_reg:
  fixes irq :: u8
  assumes "unat irq < 120"
  shows "chk_mul irq 2 = Inr (irq * 2)" and "chk_add (irq * 2) 0x10 = Inr (irq * 2 + 0x10)"
    and "ucast (irq * 2 + 0x10) = (0x10 + 2 * ucast irq :: u32)"
    and "chk_add (0x10 + 2 * ucast irq) (1 :: u32) = Inr (0x10 + 2 * ucast irq + 1)"
proof -
  have m: "unat (irq * 2) = unat irq * 2" using assms by (simp add: unat_word_ariths)
  have a: "unat (irq * 2 + 0x10) = unat irq * 2 + 16" using assms m by (simp add: unat_word_ariths)
  have u: "unat (ucast irq :: u32) = unat irq" by simp
  show "chk_mul irq 2 = Inr (irq * 2)" "chk_add (irq * 2) 0x10 = Inr (irq * 2 + 0x10)"
    using assms m by (simp_all add: chk_mul_def chk_add_def)
  have r: "unat (0x10 + 2 * ucast irq :: u32) = 16 + 2 * unat irq" using assms u by (simp add: unat_word_ariths)
  show "ucast (irq * 2 + 0x10) = (0x10 + 2 * ucast irq :: u32)"
    using a r by (intro word_unat_eq_iff [THEN iffD2]) simp
  show "chk_add (0x10 + 2 * ucast irq) (1 :: u32) = Inr (0x10 + 2 * ucast irq + 1)"
    using r assms by (simp add: chk_add_def)
qed

lemma split_join_32: "ucast (ucast (w AND 0xffffffff) :: u32) OR push_bit 32 (ucast (ucast (drop_bit 32 w) :: u32)) = w"
  for w :: u64
proof (rule bit_word_eqI)
  have mask: "(0xffffffff :: u64) = mask 32" by (simp add: mask_eq_exp_minus_1)
  fix n assume "n < LENGTH(64)"
  then show "bit (ucast (ucast (w AND 0xffffffff) :: u32) OR
      push_bit 32 (ucast (ucast (drop_bit 32 w) :: u32)) :: u64) n = bit w n"
    unfolding mask by (cases "32 \<le> n") (auto simp: bit_simps)
qed

lemma redirect_irq_ok:
  assumes "ioapic_ok d" and "unat irq < 120"
  obtains d' where "redirect_irq irq e d = Inr d'" and "redirection d' irq = as_raw e"
    and "\<And>r. r \<noteq> 0x10 + 2 * ucast irq \<Longrightarrow> r \<noteq> 0x10 + 2 * ucast irq + 1 \<Longrightarrow> io_regs d' r = io_regs d r"
proof -
  let ?r = "0x10 + 2 * ucast irq :: u32"
  let ?d = "d\<lparr>io_select := ?r + 1, io_regs := (io_regs d)
    (?r := ucast (as_raw e AND 0xffffffff), ?r + 1 := ucast (drop_bit 32 (as_raw e)))\<rparr>"
  have "redirect_irq irq e d = Inr ?d"
    by (simp add: redirect_irq_def redirect_reg [OF assms(2)] io_write_ok assms(1) Let_def)
  moreover have "redirection ?d irq = as_raw e"
    by (simp add: redirection_def Let_def split_join_32)
  ultimately show thesis by (rule that) simp
qed

lemma field_or: "field (a OR b) lo n = field a lo n OR field b lo n"
  by (simp add: field_def drop_bit_or take_bit_or)

text \<open>Each part of an entry contributes to its own field and to no other.\<close>

lemma redirect_irq_keeps_ok:
  assumes "ioapic_ok d" and "redirect_irq irq e d = Inr d'"
  shows "ioapic_ok d'" and "io_addr d' = io_addr d"
  using assms by (auto simp: redirect_irq_def io_write_ok Let_def bnd_eq_Inr_iff)

lemma drop_bit_ucast8: "8 \<le> lo \<Longrightarrow> drop_bit lo (ucast (w :: u8) :: u64) = 0"
  by (auto simp: bit_eq_iff bit_simps dest: bit_imp_le_length)

lemma field_vector:
  fixes w :: u8
  shows
  "field (ucast w) 0 8 = ucast w"
  "field (ucast w) 8 3 = 0"
  "field (ucast w) 11 1 = 0"
  "field (ucast w) 13 1 = 0"
  "field (ucast w) 15 1 = 0"
  "field (ucast w) 16 1 = 0"
  "field (ucast w) 56 8 = 0"
proof -
  show "field (ucast w) 0 8 = ucast w"
    by (auto simp: field_def bit_eq_iff bit_simps dest: bit_imp_le_length)
qed (simp_all add: field_def drop_bit_ucast8)

lemma field_delivery:
  "field (push_bit 8 (delivery_mode_u64 m)) 0 8 = 0"
  "field (push_bit 8 (delivery_mode_u64 m)) 8 3 = delivery_mode_u64 m"
  "field (push_bit 8 (delivery_mode_u64 m)) 11 1 = 0"
  "field (push_bit 8 (delivery_mode_u64 m)) 13 1 = 0"
  "field (push_bit 8 (delivery_mode_u64 m)) 15 1 = 0"
  "field (push_bit 8 (delivery_mode_u64 m)) 16 1 = 0"
  "field (push_bit 8 (delivery_mode_u64 m)) 56 8 = 0"
  by (cases m; simp add: field_def)+

lemma field_destination:
  "field (push_bit 11 (destination_mode_u64 m)) 0 8 = 0"
  "field (push_bit 11 (destination_mode_u64 m)) 8 3 = 0"
  "field (push_bit 11 (destination_mode_u64 m)) 11 1 = destination_mode_u64 m"
  "field (push_bit 11 (destination_mode_u64 m)) 13 1 = 0"
  "field (push_bit 11 (destination_mode_u64 m)) 15 1 = 0"
  "field (push_bit 11 (destination_mode_u64 m)) 16 1 = 0"
  "field (push_bit 11 (destination_mode_u64 m)) 56 8 = 0"
  by (cases m; simp add: field_def)+

lemma field_polarity:
  "field (push_bit 13 (interrupt_polarity_u64 m)) 0 8 = 0"
  "field (push_bit 13 (interrupt_polarity_u64 m)) 8 3 = 0"
  "field (push_bit 13 (interrupt_polarity_u64 m)) 11 1 = 0"
  "field (push_bit 13 (interrupt_polarity_u64 m)) 13 1 = interrupt_polarity_u64 m"
  "field (push_bit 13 (interrupt_polarity_u64 m)) 15 1 = 0"
  "field (push_bit 13 (interrupt_polarity_u64 m)) 16 1 = 0"
  "field (push_bit 13 (interrupt_polarity_u64 m)) 56 8 = 0"
  by (cases m; simp add: field_def)+

lemma field_trigger:
  "field (push_bit 15 (trigger_mode_u64 m)) 0 8 = 0"
  "field (push_bit 15 (trigger_mode_u64 m)) 8 3 = 0"
  "field (push_bit 15 (trigger_mode_u64 m)) 11 1 = 0"
  "field (push_bit 15 (trigger_mode_u64 m)) 13 1 = 0"
  "field (push_bit 15 (trigger_mode_u64 m)) 15 1 = trigger_mode_u64 m"
  "field (push_bit 15 (trigger_mode_u64 m)) 16 1 = 0"
  "field (push_bit 15 (trigger_mode_u64 m)) 56 8 = 0"
  by (cases m; simp add: field_def)+

lemma field_mask:
  "field (push_bit 16 (if b then 1 else 0)) 0 8 = 0"
  "field (push_bit 16 (if b then 1 else 0)) 8 3 = 0"
  "field (push_bit 16 (if b then 1 else 0)) 11 1 = 0"
  "field (push_bit 16 (if b then 1 else 0)) 13 1 = 0"
  "field (push_bit 16 (if b then 1 else 0)) 15 1 = 0"
  "field (push_bit 16 (if b then 1 else 0)) 16 1 = (if b then 1 else 0)"
  "field (push_bit 16 (if b then 1 else 0)) 56 8 = 0"
  by (cases b; simp add: field_def)+

lemma field_high:
  "field (push_bit 56 (destination_mode_u64 m)) 0 8 = 0"
  "field (push_bit 56 (destination_mode_u64 m)) 8 3 = 0"
  "field (push_bit 56 (destination_mode_u64 m)) 11 1 = 0"
  "field (push_bit 56 (destination_mode_u64 m)) 13 1 = 0"
  "field (push_bit 56 (destination_mode_u64 m)) 15 1 = 0"
  "field (push_bit 56 (destination_mode_u64 m)) 16 1 = 0"
  "field (push_bit 56 (destination_mode_u64 m)) 56 8 = destination_mode_u64 m"
  by (cases m; simp add: field_def)+

lemmas entry_fields = field_or field_vector field_delivery field_destination field_polarity
  field_trigger field_mask field_high

lemma as_raw_fields:
  "field (as_raw e) 0 8 = ucast (redirected_irq_num e)"
  "field (as_raw e) 8 3 = delivery_mode_u64 (delivery_mode e)"
  "field (as_raw e) 11 1 = destination_mode_u64 (destination_mode e)"
  "field (as_raw e) 13 1 = interrupt_polarity_u64 (interrupt_polarity e)"
  "field (as_raw e) 15 1 = trigger_mode_u64 (trigger_mode e)"
  "field (as_raw e) 16 1 = (if entry_mask e then 1 else 0)"
  "field (as_raw e) 56 8 = destination_mode_u64 (destination_mode e)"
  unfolding as_raw_def entry_fields by simp_all

text \<open>
  C29. \<open>redirect_irq\<close> programs the line's entry and no other register of the device. The vector, the
  delivery and destination modes, the polarity, the trigger mode and the mask are at their
  documented bits. The destination field, bits 56 to 63, gets the destination mode instead of the
  requested destination, so an interrupt with physical destination mode always goes to processor 0.
\<close>

theorem redirect_irq_programs:
  assumes "ioapic_ok d" and "unat irq < 120"
  shows "\<exists>d'. redirect_irq irq e d = Inr d' \<and>
    (\<forall>r. r \<noteq> 0x10 + 2 * ucast irq \<and> r \<noteq> 0x10 + 2 * ucast irq + 1 \<longrightarrow> io_regs d' r = io_regs d r) \<and>
    field (redirection d' irq) 0 8 = ucast (redirected_irq_num e) \<and>
    field (redirection d' irq) 8 3 = delivery_mode_u64 (delivery_mode e) \<and>
    field (redirection d' irq) 11 1 = destination_mode_u64 (destination_mode e) \<and>
    field (redirection d' irq) 13 1 = interrupt_polarity_u64 (interrupt_polarity e) \<and>
    field (redirection d' irq) 15 1 = trigger_mode_u64 (trigger_mode e) \<and>
    field (redirection d' irq) 16 1 = (if entry_mask e then 1 else 0) \<and>
    field (redirection d' irq) 56 8 = destination_mode_u64 (destination_mode e)"
proof -
  obtain d' where d': "redirect_irq irq e d = Inr d'" "redirection d' irq = as_raw e"
    "\<And>r. r \<noteq> 0x10 + 2 * ucast irq \<Longrightarrow> r \<noteq> 0x10 + 2 * ucast irq + 1 \<Longrightarrow> io_regs d' r = io_regs d r"
    by (rule redirect_irq_ok [OF assms]) blast
  show ?thesis using d'(1,3)
    by (intro exI [of _ d'] conjI allI impI; (elim conjE)?) (simp_all only: d'(2) as_raw_fields not_False_eq_True)
qed

definition example_entry :: redirect_entry where
  "example_entry = \<lparr>dest = 3, entry_mask = False, trigger_mode = EdgeSensetive, interrupt_polarity = HighActive,
    destination_mode = Physical, delivery_mode = Fixed, redirected_irq_num = 32\<rparr>"

definition example_ioapic :: ioapic where
  "example_ioapic = \<lparr>io_addr = 0xffff800000000000, io_select = 0, io_regs = (\<lambda>_. 0)\<rparr>"

theorem redirect_irq_programs_witness:
  "\<exists>d'. redirect_irq 2 example_entry example_ioapic = Inr d' \<and> field (redirection d' 2) 0 8 = 32 \<and>
    dest example_entry = 3 \<and> field (redirection d' 2) 56 8 = 0"
proof -
  have "ioapic_ok example_ioapic" by (simp add: ioapic_ok_def example_ioapic_def)
  from redirect_irq_programs [OF this, of 2 example_entry] show ?thesis
    by (auto simp: example_entry_def)
qed

end
