(* ===== verification/Port_Io.thy ===== *)
theory Port_Io
  imports Console Io_Apic
begin

text \<open>
  Port input and output (\<open>src/io.rs\<close>), the model specific registers (\<open>src/msr.rs\<close>) and the debug log
  on the emulator's port 0xe9 (\<open>src/qemu_log.rs\<close>). Output to a port is a trace of what was written, with the
  width of the access; input is a parameter. The model specific registers are pairs of a high and
  a low half, as the instructions transfer them.
\<close>

section \<open>Ports\<close>

datatype port_write = Out8 u16 u8 | Out32 u16 u32

type_synonym port_trace = "port_write list"

definition read_u8 :: "(u16 \<Rightarrow> u8) \<Rightarrow> u16 \<Rightarrow> u8" where
  "read_u8 in8 port = in8 port"

definition read_u16 :: "(u16 \<Rightarrow> u16) \<Rightarrow> u16 \<Rightarrow> u16" where
  "read_u16 in16 port = in16 port"

definition read_u32 :: "(u16 \<Rightarrow> u32) \<Rightarrow> u16 \<Rightarrow> u32" where
  "read_u32 in32 port = in32 port"

definition write_u8 :: "u16 \<Rightarrow> u8 \<Rightarrow> port_trace \<Rightarrow> port_trace" where
  "write_u8 port val tr = tr @ [Out8 port val]"

definition write_u32 :: "u16 \<Rightarrow> u32 \<Rightarrow> port_trace \<Rightarrow> port_trace" where
  "write_u32 port val tr = tr @ [Out32 port val]"

section \<open>Model specific registers\<close>

definition APIC_BASE :: u32 where
  "APIC_BASE = 0x1b"

text \<open>A register file from register numbers to the halves in \<open>edx\<close> and \<open>eax\<close>.\<close>

type_synonym msrs = "u32 \<Rightarrow> u32 \<times> u32"

definition rdmsr :: "u32 \<Rightarrow> msrs \<Rightarrow> u64" where
  "rdmsr msr f = (case f msr of (high, low) \<Rightarrow> push_bit 32 (ucast high) OR ucast low)"

definition wrmsr :: "u32 \<Rightarrow> u64 \<Rightarrow> msrs \<Rightarrow> msrs" where
  "wrmsr msr value f =
    (let low = ucast value;
         high = ucast (drop_bit 32 value) in
     f(msr := (high, low)))"

lemma rdmsr_wrmsr: "rdmsr m (wrmsr n v f) = (if m = n then v else rdmsr m f)"
proof -
  have "ucast (v AND 0xffffffff) = (ucast v :: u32)"
  proof (rule bit_word_eqI)
    have mask: "(0xffffffff :: u64) = mask 32" by (simp add: mask_eq_exp_minus_1)
    show "bit (ucast (v AND 0xffffffff) :: u32) k = bit (ucast v :: u32) k" if "k < LENGTH(32)" for k
      unfolding mask using that by (auto simp: bit_simps)
  qed
  then show ?thesis using split_join_32 [of v] by (simp add: rdmsr_def wrmsr_def or.commute)
qed

section \<open>The debug log\<close>

definition QEMU_PORT :: u16 where
  "QEMU_PORT = 0xe9"

definition qemu_write :: "u8 \<Rightarrow> port_trace \<Rightarrow> port_trace" where
  "qemu_write c tr = write_u8 QEMU_PORT c tr"

fun qemu_write_str :: "nat list \<Rightarrow> port_trace \<Rightarrow> port_trace" where
  "qemu_write_str [] tr = tr"
| "qemu_write_str (cp # cps) tr =
    (case as_ascii cp of
       Some a \<Rightarrow> qemu_write_str cps (qemu_write a tr)
     | None \<Rightarrow> qemu_write_str cps tr)"

text \<open>The log receives exactly the ASCII characters of the text, in order.\<close>

definition log_print :: "string \<Rightarrow> port_trace \<Rightarrow> port_trace" where
  "log_print txt tr = qemu_write_str (map of_char txt) tr"

lemma qemu_write_str_eq: "qemu_write_str cps tr = tr @ map (Out8 QEMU_PORT) (List.map_filter as_ascii cps)"
  by (induction cps tr rule: qemu_write_str.induct)
    (simp_all add: qemu_write_def write_u8_def List.map_filter_simps split: option.split)

text \<open>The log is an output for text.\<close>

interpretation log_text: text_writer "\<lambda>cps tr. Inr (qemu_write_str cps tr)"
  by unfold_locales (simp_all add: qemu_write_str_eq List.map_filter_def)

end
