(* ===== verification/Test_Runner.thy ===== *)
theory Test_Runner
  imports Port_Io Format
begin

text \<open>
  The harness that runs the kernel's own tests (\<open>src/test.rs\<close>). A test is a function that may mark itself as
  one that should panic, and that returns or panics; the harness counts the successes and the failures, writes to the debug
  log and ends the emulator through its exit port.

  Parameters: the kernel's state \<open>'k\<close> and the text of a panic. The recursion of the source between
  \<open>run_test\<close>, the panic handler and \<open>next_test\<close>, which never returns through the tests, is a recursion here.

  Lemmas: the harness runs every test once, in order, and reports how many of them did what they announced.
\<close>

section \<open>State\<close>

text \<open>What a run of a test does: its mark, the state it leaves, and the panic that ended it, if any.\<close>

type_synonym 'k test_body = "'k \<Rightarrow> bool \<times> 'k \<times> panic option"

record 'k testable =
  type_name :: string
  test_body :: "'k test_body"

record 'k test_run =
  should_current_test_panic :: bool
  current_test :: nat
  tests :: "'k testable list"
  failed_tests_num :: nat
  success_tests_num :: nat
  kern :: 'k
  ports :: port_trace

datatype qemu_exit_code = ExitSuccess | ExitFailed

fun exit_code_u32 :: "qemu_exit_code \<Rightarrow> u32" where
  "exit_code_u32 ExitSuccess = 0x10"
| "exit_code_u32 ExitFailed = 0x11"

section \<open>Operations\<close>

definition qemu_print :: "string \<Rightarrow> 'k test_run \<Rightarrow> 'k test_run" where
  "qemu_print txt s = s\<lparr>ports := log_print txt (ports s)\<rparr>"

definition qemu_println :: "string \<Rightarrow> 'k test_run \<Rightarrow> 'k test_run" where
  "qemu_println txt s = qemu_print (txt @ ''\<newline>'') s"

definition exit_qemu :: "qemu_exit_code \<Rightarrow> 'k test_run \<Rightarrow> 'k test_run" where
  "exit_qemu code s = s\<lparr>ports := write_u32 0xf4 (exit_code_u32 code) (ports s)\<rparr>"

definition test_success :: "'k test_run \<Rightarrow> 'k test_run" where
  "test_success s = s\<lparr>success_tests_num := success_tests_num s + 1\<rparr>"

definition test_failed :: "'k test_run \<Rightarrow> 'k test_run" where
  "test_failed s = s\<lparr>failed_tests_num := failed_tests_num s + 1\<rparr>"

text \<open>The part of the panic handler of the tests before it goes on to the next test.\<close>

definition test_panicked :: "(panic \<Rightarrow> string) \<Rightarrow> panic \<Rightarrow> 'k test_run \<Rightarrow> 'k test_run" where
  "test_panicked show_panic e s =
    (if should_current_test_panic s
     then test_success (qemu_println ''[success] (panicked)'' s)
     else test_failed (qemu_println (show_panic e @ ''\<newline>'') (qemu_println ''[failed]'' s)))"

text \<open>The part of \<open>run_test\<close> after the test has returned and before it goes on to the next one.\<close>

definition test_returned :: "'k test_run \<Rightarrow> 'k test_run" where
  "test_returned s =
    (if should_current_test_panic s
     then test_failed (qemu_println ''[failed] (did not panic)'' s)
     else test_success (qemu_println ''[success]'' s))"

definition run_current :: "(panic \<Rightarrow> string) \<Rightarrow> 'k testable \<Rightarrow> 'k test_run \<Rightarrow> 'k test_run" where
  "run_current show_panic t s =
    (let s = qemu_print (type_name t @ ''... '') s in
     case test_body t (kern s) of (mark, k, r) \<Rightarrow>
       let s = s\<lparr>kern := k, should_current_test_panic := should_current_test_panic s \<or> mark\<rparr> in
       case r of None \<Rightarrow> test_returned s | Some e \<Rightarrow> test_panicked show_panic e s)"

definition summary :: "'k test_run \<Rightarrow> string" where
  "summary s = ''tests done; summary: '' @ show_dec (success_tests_num s) @ '' succeeded, '' @
    show_dec (failed_tests_num s) @ '' failed''"

lemma run_current_keeps [simp]:
  "tests (run_current show_panic t s) = tests s" "current_test (run_current show_panic t s) = current_test s"
  by (simp_all add: run_current_def test_returned_def test_panicked_def test_success_def test_failed_def
      qemu_println_def qemu_print_def Let_def split: prod.split option.split)

function run_test :: "(panic \<Rightarrow> string) \<Rightarrow> 'k testable \<Rightarrow> 'k test_run \<Rightarrow> 'k test_run"
  and next_test :: "(panic \<Rightarrow> string) \<Rightarrow> 'k test_run \<Rightarrow> 'k test_run" where
  "run_test show_panic t s = next_test show_panic (run_current show_panic t s)"
| "next_test show_panic s =
    (let s = s\<lparr>current_test := current_test s + 1\<rparr> in
     if length (tests s) \<le> current_test s
     then exit_qemu ExitSuccess (qemu_println (summary s) s)
     else run_test show_panic (tests s ! current_test s) (s\<lparr>should_current_test_panic := False\<rparr>))"
  by pat_completeness auto
termination
  by (relation "measure (\<lambda>x. case x of Inl (_, _, s) \<Rightarrow> 2 * (length (tests s) - current_test s) + 1
      | Inr (_, s) \<Rightarrow> 2 * (length (tests s) - current_test s))") auto

declare run_test.simps [simp del] next_test.simps [simp del]

definition TESTS :: "'k \<Rightarrow> port_trace \<Rightarrow> 'k test_run" where
  "TESTS k tr = \<lparr>should_current_test_panic = False, current_test = 0, tests = [], failed_tests_num = 0,
    success_tests_num = 0, kern = k, ports = tr\<rparr>"

text \<open>Without a test the first access is out of bounds, and the panic counts as a failed test.\<close>

definition test_runner :: "(panic \<Rightarrow> string) \<Rightarrow> 'k testable list \<Rightarrow> 'k test_run \<Rightarrow> 'k test_run" where
  "test_runner show_panic ts s =
    (let s = qemu_println (''\<newline>\<newline>running '' @ show_dec (length ts) @ '' lib tests\<newline>'') s;
         s = s\<lparr>current_test := 0, should_current_test_panic := False\<rparr>;
         s = s\<lparr>tests := ts\<rparr> in
     if current_test s < length (tests s)
     then run_test show_panic (tests s ! current_test s) s
     else next_test show_panic (test_panicked show_panic IndexOutOfBounds s))"

section \<open>What the harness reports\<close>

text \<open>A test passes when it panics exactly if it said so; the tests run on each other's state.\<close>

fun passes_of :: "'k testable list \<Rightarrow> 'k \<Rightarrow> bool list \<times> 'k" where
  "passes_of [] k = ([], k)"
| "passes_of (t # ts) k =
    (case test_body t k of (mark, k', r) \<Rightarrow>
     case passes_of ts k' of (ps, k'') \<Rightarrow> ((mark \<longleftrightarrow> r \<noteq> None) # ps, k''))"

definition counted :: "bool list \<Rightarrow> 'k \<Rightarrow> 'k test_run \<Rightarrow> 'k test_run \<Rightarrow> bool" where
  "counted ps k s s' \<longleftrightarrow> success_tests_num s' = success_tests_num s + length (filter id ps) \<and>
    failed_tests_num s' = failed_tests_num s + length (filter Not ps) \<and> kern s' = k"

lemma run_current_counts:
  assumes "\<not> should_current_test_panic s" and "test_body t (kern s) = (mark, k, r)"
  shows "counted [mark \<longleftrightarrow> r \<noteq> None] k s (run_current show_panic t s)"
  using assms
  by (auto simp: counted_def run_current_def test_returned_def test_panicked_def test_success_def test_failed_def
      qemu_println_def qemu_print_def Let_def split: option.split)

lemma counted_trans: "counted ps k s s' \<Longrightarrow> counted qs k' s' s'' \<Longrightarrow> counted (ps @ qs) k' s s''"
  by (simp add: counted_def)

definition ended :: "'k test_run \<Rightarrow> bool" where
  "ended s \<longleftrightarrow> (\<exists>tr. ports s = tr @ map (Out8 QEMU_PORT) (List.map_filter as_ascii (map of_char (summary s @ ''\<newline>''))) @ [Out32 0xf4 0x10])"

lemma run_test_counts:
  assumes "\<not> should_current_test_panic s" and "drop (current_test s) (tests s) = t # ts"
    and "passes_of (t # ts) (kern s) = (ps, k)"
  shows "counted ps k s (run_test show_panic t s) \<and> ended (run_test show_panic t s)"
  using assms
proof (induction ts arbitrary: t s ps)
  case Nil
  obtain mark k' r where b: "test_body t (kern s) = (mark, k', r)" by (metis prod_cases3)
  let ?s = "run_current show_panic t s"
  let ?e = "?s\<lparr>current_test := current_test ?s + 1\<rparr>"
  have "length (tests ?s) \<le> current_test ?s + 1"
    using Nil(2) by (metis One_nat_def drop_eq_Nil2 drop_Suc list.sel(3) run_current_keeps tl_drop Suc_eq_plus1)
  then have run: "run_test show_panic t s = exit_qemu ExitSuccess (qemu_println (summary ?e) ?e)"
    by (simp add: run_test.simps next_test.simps Let_def)
  have "counted ps k s ?s" using run_current_counts [OF Nil(1) b, of show_panic] Nil(3) b by simp
  then show ?case
    unfolding run
    by (simp add: counted_def ended_def exit_qemu_def qemu_println_def qemu_print_def summary_def write_u32_def log_print_def qemu_write_str_eq)
next
  case (Cons t' ts)
  obtain mark k' r where b: "test_body t (kern s) = (mark, k', r)" by (metis prod_cases3)
  let ?s = "(run_current show_panic t s)\<lparr>current_test := current_test s + 1, should_current_test_panic := False\<rparr>"
  have c: "counted [mark \<longleftrightarrow> r \<noteq> None] k' s (run_current show_panic t s)" by (rule run_current_counts [OF Cons(2) b])
  obtain qs where q: "passes_of (t' # ts) k' = (qs, k)" "ps = (mark \<longleftrightarrow> r \<noteq> None) # qs"
    using Cons(4) b by (cases "passes_of (t' # ts) k'") (auto simp del: passes_of.simps(2) simp: passes_of.simps(2) [of t])
  have d: "drop (current_test s + 1) (tests s) = t' # ts" using Cons(3) by (metis Suc_eq_plus1 drop_Suc list.sel(3) tl_drop)
  then have "current_test s + 1 < length (tests s)" "tests s ! (current_test s + 1) = t'"
    by (metis drop_all list.distinct(1) not_less) (metis d hd_drop_conv_nth drop_all list.distinct(1) list.sel(1) not_less)
  then have run: "run_test show_panic t s = run_test show_panic t' ?s"
    by (simp add: run_test.simps [of _ t] next_test.simps)
  have "counted qs k ?s (run_test show_panic t' ?s) \<and> ended (run_test show_panic t' ?s)"
    by (rule Cons.IH) (use d q(1) c in \<open>simp_all add: counted_def\<close>)
  moreover have "counted [mark \<longleftrightarrow> r \<noteq> None] k' s ?s" using c by (simp add: counted_def)
  ultimately show ?case unfolding run q(2) using counted_trans by fastforce
qed

lemma length_passes_of: "length (fst (passes_of ts k)) = length ts"
  by (induction ts k rule: passes_of.induct) (auto split: prod.splits)

lemma test_runner_result:
  assumes "ts \<noteq> []" and "passes_of ts k = (ps, k')"
  shows "success_tests_num (test_runner show_panic ts (TESTS k tr)) = length (filter id ps)"
    and "failed_tests_num (test_runner show_panic ts (TESTS k tr)) = length (filter Not ps)"
    and "kern (test_runner show_panic ts (TESTS k tr)) = k'"
    and "ended (test_runner show_panic ts (TESTS k tr))"
proof -
  obtain t us where ts: "ts = t # us" using assms(1) by (cases ts) auto
  define s where "s = (qemu_println (''\<newline>\<newline>running '' @ show_dec (length ts) @ '' lib tests\<newline>'') (TESTS k tr))
    \<lparr>current_test := 0, should_current_test_panic := False, tests := ts\<rparr>"
  have s: "\<not> should_current_test_panic s" "drop (current_test s) (tests s) = t # us" "kern s = k"
    "success_tests_num s = 0" "failed_tests_num s = 0"
    by (simp_all add: s_def ts TESTS_def qemu_println_def qemu_print_def)
  have "test_runner show_panic ts (TESTS k tr) = run_test show_panic t s"
    by (simp add: test_runner_def s_def ts Let_def)
  moreover have "counted ps k' s (run_test show_panic t s) \<and> ended (run_test show_panic t s)"
    by (rule run_test_counts [OF s(1,2)]) (use assms(2) s(3) ts in simp)
  ultimately show "success_tests_num (test_runner show_panic ts (TESTS k tr)) = length (filter id ps)"
    and "failed_tests_num (test_runner show_panic ts (TESTS k tr)) = length (filter Not ps)"
    and "kern (test_runner show_panic ts (TESTS k tr)) = k'"
    and "ended (test_runner show_panic ts (TESTS k tr))"
    using s by (simp_all add: counted_def)
qed

text \<open>
  C35. The harness runs every test once, in their order, whichever of them panic: when it ends, the counters are the
  numbers of tests that did and did not behave as announced, and the last outputs are the line with these
  numbers and the exit code. The exit code says success also when tests have failed.
\<close>

theorem test_runner_reports:
  assumes "ts \<noteq> []"
  shows "let s = test_runner show_panic ts (TESTS k tr); ps = fst (passes_of ts k) in
    success_tests_num s = length (filter id ps) \<and> failed_tests_num s = length (filter Not ps) \<and>
    success_tests_num s + failed_tests_num s = length ts \<and> kern s = snd (passes_of ts k) \<and> ended s"
proof -
  obtain ps k' where ps: "passes_of ts k = (ps, k')" by fastforce
  have "length (filter id ps) + length (filter Not ps) = length ts"
    using sum_length_filter_compl [of id ps] length_passes_of [of ts k] ps by (simp add: comp_def)
  then show ?thesis using test_runner_result [OF assms ps] ps by (simp add: Let_def)
qed

definition example_tests :: "nat testable list" where
  "example_tests = [\<lparr>type_name = ''a'', test_body = (\<lambda>k. (False, k + 1, None))\<rparr>,
    \<lparr>type_name = ''b'', test_body = (\<lambda>k. (True, k, Some AssertFailed))\<rparr>,
    \<lparr>type_name = ''c'', test_body = (\<lambda>k. (False, k + 5, Some UnwrapNone))\<rparr>]"

theorem test_runner_reports_witness:
  "let s = test_runner (\<lambda>_. ''panicked'') example_tests (TESTS 0 []) in
    success_tests_num s = 2 \<and> failed_tests_num s = 1 \<and> kern s = 6 \<and> ended s"
  using test_runner_reports [of example_tests "\<lambda>_. ''panicked''" 0 "[]"] by (simp add: example_tests_def Let_def)

end
