(* ===== verification/Fs_Path.thy ===== *)
theory Fs_Path
  imports Kernel_Prelude "HOL-Library.Sublist"
begin

text \<open>
  Paths: \<open>src/fs/path.rs\<close>. \<open>Path\<close> and \<open>PathBuf\<close> are both the bytes of a string; the
  conversions between them (\<open>new\<close>, \<open>from\<close>, \<open>deref\<close>, \<open>as_path\<close>) keep the bytes, so both are the
  type \<open>path\<close> here. The separator is an ASCII character, so splitting the bytes is splitting the
  string.

  The second part relates paths to lists of components: \<open>abs_path\<close> writes a list of components
  as an absolute path and \<open>join\<close> as a relative one.
\<close>

section \<open>Paths\<close>

type_synonym path = string

abbreviation slash :: char where
  "slash \<equiv> CHR ''/''"

fun split_once :: "char \<Rightarrow> string \<Rightarrow> (string \<times> string) option" where
  "split_once c [] = None"
| "split_once c (x # xs) =
     (if x = c then Some ([], xs)
      else map_option (\<lambda>(a, b). (x # a, b)) (split_once c xs))"

definition rsplit_once :: "char \<Rightarrow> string \<Rightarrow> (string \<times> string) option" where
  "rsplit_once c s = map_option (\<lambda>(a, b). (rev b, rev a)) (split_once c (rev s))"

fun strip_prefix :: "string \<Rightarrow> string \<Rightarrow> string option" where
  "strip_prefix [] s = Some s"
| "strip_prefix (x # xs) [] = None"
| "strip_prefix (x # xs) (y # ys) = (if x = y then strip_prefix xs ys else None)"

definition path_root :: path where
  "path_root = ''/''"

definition parent :: "path \<Rightarrow> path option" where
  "parent p =
     (case rsplit_once slash p of
        None \<Rightarrow> None
      | Some (par, rest) \<Rightarrow> if par = [] then Some ''/'' else Some par)"

definition has_root :: "path \<Rightarrow> bool" where
  "has_root p \<longleftrightarrow> (case p of [] \<Rightarrow> False | c # _ \<Rightarrow> c = slash)"

definition is_root :: "path \<Rightarrow> bool" where
  "is_root p \<longleftrightarrow> p = ''/''"

definition top_folder :: "path \<Rightarrow> path option" where
  "top_folder p =
     (if has_root p then Some ''/''
      else (case split_once slash p of
              Some (fst_part, rest) \<Rightarrow> Some fst_part
            | None \<Rightarrow> None))"

definition filename :: "path \<Rightarrow> path option run" where
  "filename p =
     (if (case parent p of None \<Rightarrow> False | Some q \<Rightarrow> q \<noteq> p)
      then bnd (unwrap (rsplit_once slash p)) (\<lambda>(rest, name). Inr (Some name))
      else Inr None)"

definition split_from_top :: "path \<Rightarrow> (path \<times> path) option" where
  "split_from_top p = split_once slash p"

definition relative_to :: "path \<Rightarrow> path \<Rightarrow> path option" where
  "relative_to p relative =
     map_option (\<lambda>e. case strip_prefix ''/'' e of Some r \<Rightarrow> r | None \<Rightarrow> e) (strip_prefix relative p)"

definition path_add :: "path \<Rightarrow> path \<Rightarrow> path" where
  "path_add p q = p @ q"

section \<open>Splitting\<close>

lemma split_once_None: "split_once c s = None \<longleftrightarrow> c \<notin> set s"
  by (induction s) auto

lemma split_once_Some:
  "split_once c s = Some (a, b) \<longleftrightarrow> s = a @ c # b \<and> c \<notin> set a"
proof (induction s arbitrary: a)
  case (Cons x xs)
  then show ?case by (cases a) (auto split: if_splits)
qed auto

lemma rsplit_once_None: "rsplit_once c s = None \<longleftrightarrow> c \<notin> set s"
  by (simp add: rsplit_once_def split_once_None)

lemma rsplit_once_Some:
  "rsplit_once c s = Some (a, b) \<longleftrightarrow> s = a @ c # b \<and> c \<notin> set b"
proof -
  have "rsplit_once c s = Some (a, b) \<longleftrightarrow> split_once c (rev s) = Some (rev b, rev a)"
    by (auto simp: rsplit_once_def)
  also have "\<dots> \<longleftrightarrow> rev s = rev b @ c # rev a \<and> c \<notin> set b" by (simp add: split_once_Some)
  also have "rev s = rev b @ c # rev a \<longleftrightarrow> rev s = rev (a @ c # b)" by simp
  finally show ?thesis by (simp only: rev_is_rev_conv)
qed

lemma split_from_top_length:
  "split_from_top p = Some (a, rest) \<Longrightarrow> length rest < length p"
  by (auto simp: split_from_top_def split_once_Some)

lemma strip_prefix_Some: "strip_prefix p s = Some r \<longleftrightarrow> s = p @ r"
  by (induction p s rule: strip_prefix.induct) auto

lemma has_root_iff: "has_root p \<longleftrightarrow> (\<exists>r. p = slash # r)"
  by (auto simp: has_root_def split: list.splits)

section \<open>Components\<close>

text \<open>A component is a name that is not empty and has no separator in it.\<close>

definition component :: "string \<Rightarrow> bool" where
  "component c \<longleftrightarrow> c \<noteq> [] \<and> slash \<notin> set c"

definition abs_path :: "string list \<Rightarrow> path" where
  "abs_path cs = concat (map (\<lambda>c. slash # c) cs)"

fun join :: "string list \<Rightarrow> path" where
  "join [] = []"
| "join [c] = c"
| "join (c # cs) = c @ slash # join cs"

lemma join_Cons: "cs \<noteq> [] \<Longrightarrow> join (c # cs) = c @ slash # join cs"
  by (cases cs) auto

lemma abs_path_join: "cs \<noteq> [] \<Longrightarrow> abs_path cs = slash # join cs"
proof (induction cs)
  case (Cons c cs)
  then show ?case by (cases "cs = []") (simp_all add: abs_path_def join_Cons)
qed simp

lemma abs_path_snoc: "abs_path (cs @ [c]) = abs_path cs @ slash # c"
  by (simp add: abs_path_def)

lemma abs_path_Nil [simp]: "abs_path cs = [] \<longleftrightarrow> cs = []"
  by (simp add: abs_path_def)

lemma split_join_one: "component c \<Longrightarrow> split_from_top (join [c]) = None"
  by (simp add: split_from_top_def split_once_None component_def)

lemma split_join: "component c \<Longrightarrow> cs \<noteq> [] \<Longrightarrow> split_from_top (join (c # cs)) = Some (c, join cs)"
  by (simp add: split_from_top_def split_once_Some join_Cons component_def)

lemma split_abs_path: "cs \<noteq> [] \<Longrightarrow> split_from_top (abs_path cs) = Some ([], join cs)"
  by (simp add: split_from_top_def abs_path_join)

lemma parent_abs_path:
  assumes "component c"
  shows "parent (abs_path (cs @ [c])) = Some (if cs = [] then ''/'' else abs_path cs)"
proof -
  have "rsplit_once slash (abs_path (cs @ [c])) = Some (abs_path cs, c)"
    using assms by (simp add: rsplit_once_Some abs_path_snoc component_def)
  then show ?thesis by (simp add: parent_def)
qed

lemma parent_eq_self: "parent p = Some p \<longleftrightarrow> p = ''/''"
proof
  assume p: "parent p = Some p"
  then obtain a b where ab: "rsplit_once slash p = Some (a, b)"
    by (auto simp: parent_def split: option.splits)
  then have "p = a @ slash # b" by (simp add: rsplit_once_Some)
  then show "p = ''/''" using p ab by (auto simp: parent_def split: if_splits)
next
  assume "p = ''/''"
  moreover have "rsplit_once slash ''/'' = Some ([], [])" by (simp add: rsplit_once_Some)
  ultimately show "parent p = Some p" by (simp add: parent_def)
qed

text \<open>The last component, and that \<open>filename\<close> never panics.\<close>

lemma filename_eq:
  "filename p = Inr (if p = ''/'' then None else map_option snd (rsplit_once slash p))"
proof (cases "rsplit_once slash p")
  case None
  then have "parent p = None" by (simp add: parent_def)
  then show ?thesis using None by (simp add: filename_def)
next
  case (Some ab)
  then obtain q where "parent p = Some q" by (cases ab; cases "fst ab = []") (auto simp: parent_def)
  then show ?thesis using Some parent_eq_self [of p] by (auto simp: filename_def split: prod.split)
qed

lemma filename_abs_path:
  assumes "component c"
  shows "filename (abs_path (cs @ [c])) = Inr (Some c)"
proof -
  have "rsplit_once slash (abs_path (cs @ [c])) = Some (abs_path cs, c)"
    using assms by (simp add: rsplit_once_Some abs_path_snoc component_def)
  moreover have "abs_path (cs @ [c]) \<noteq> ''/''"
    using assms by (auto simp: abs_path_snoc component_def append_eq_Cons_conv)
  ultimately show ?thesis by (simp add: filename_eq)
qed

lemma has_root_abs_path: "cs \<noteq> [] \<Longrightarrow> has_root (abs_path cs)"
  by (simp add: abs_path_join has_root_iff)

lemma not_root_abs_path:
  assumes "\<forall>c\<in>set cs. component c" and "cs \<noteq> []"
  shows "\<not> is_root (abs_path cs)"
proof (cases cs)
  case (Cons c ds)
  then show ?thesis using assms by (auto simp: is_root_def abs_path_def component_def)
qed (use assms in simp)

lemma relative_root_abs_path:
  assumes "\<forall>c\<in>set cs. component c" and "cs \<noteq> []"
  shows "relative_to (abs_path cs) ''/'' = Some (join cs)"
proof -
  obtain c ds where cs: "cs = c # ds" using assms(2) by (cases cs) auto
  then have "component c" using assms(1) by simp
  then obtain x xs where "c = x # xs" "x \<noteq> slash" by (cases c) (auto simp: component_def)
  then show ?thesis
    by (cases ds) (simp_all add: relative_to_def abs_path_join cs)
qed

section \<open>Properties\<close>

text \<open>
  The parts of an absolute path that is written with proper components: it is absolute
  and not the root, \<open>filename\<close> is its last component, \<open>parent\<close> is the path of the others (the
  root if there are none), and parent, separator and file name give the path again.
\<close>

lemma path_parts:
  assumes "\<forall>c\<in>set (cs @ [c]). component c"
  shows "has_root (abs_path (cs @ [c])) \<and> \<not> is_root (abs_path (cs @ [c])) \<and>
    filename (abs_path (cs @ [c])) = Inr (Some c) \<and>
    parent (abs_path (cs @ [c])) = Some (if cs = [] then ''/'' else abs_path cs) \<and>
    relative_to (abs_path (cs @ [c])) ''/'' = Some (join (cs @ [c])) \<and>
    (cs \<noteq> [] \<longrightarrow> relative_to (abs_path (cs @ [c])) (abs_path cs) = Some c)"
proof -
  have c: "component c" using assms by simp
  then obtain x xs where x: "c = x # xs" "x \<noteq> slash" by (cases c) (auto simp: component_def)
  have "strip_prefix (abs_path cs) (abs_path (cs @ [c])) = Some (slash # c)"
    by (simp add: strip_prefix_Some abs_path_snoc)
  then have "relative_to (abs_path (cs @ [c])) (abs_path cs) = Some c"
    by (simp add: relative_to_def)
  then show ?thesis
    using assms has_root_abs_path [of "cs @ [c]"] not_root_abs_path [of "cs @ [c]"]
      relative_root_abs_path [of "cs @ [c]"] filename_abs_path [OF c] parent_abs_path [OF c]
    by simp
qed

text \<open>
  \<open>relative_to\<close> strips a prefix of the string, not of the components: a path is also
  relative to a directory that is not one of its ancestors.
\<close>

lemma relative_to_string_prefix:
  assumes "component c" and "component d"
  shows "relative_to (abs_path (cs @ [c @ d])) (abs_path (cs @ [c])) = Some d"
proof -
  obtain x xs where "d = x # xs" "x \<noteq> slash" using assms(2) by (cases d) (auto simp: component_def)
  moreover have "strip_prefix (abs_path (cs @ [c])) (abs_path (cs @ [c @ d])) = Some d"
    by (simp add: strip_prefix_Some abs_path_snoc)
  ultimately show ?thesis by (simp add: relative_to_def)
qed

end
