(* ===== verification/Ramfs.thy ===== *)
theory Ramfs
  imports Fs_Path
begin

text \<open>
  The in-memory file system: \<open>src/fs/ramfs.rs\<close>, with the error type and the file types of
  \<open>src/fs/vfs.rs\<close>.

  Directories and files are shared through \<open>Arc\<close> and changed behind a lock, so the model keeps
  them in a store, by number; a clone of an \<open>Arc\<close> is the same number. An operation holds the
  locks it needs while it reads or writes and is one step on the store. Directory 0 is the root.
\<close>

section \<open>The store\<close>

datatype vfs_error =
    PathDoesNotExist
  | DirectoryDoesNotExist
  | ReadFailed
  | WriteFailed
  | PathAlreadyExists
  | PathIsNotAbsolute
  | PathDoesNotHaveAFilename

datatype file_type = FileT | DirectoryT

record dir_info =
  info_file_type :: file_type
  info_path :: path

datatype ramfs_dir_entry = DirE nat | FileE nat

record ramfs_file =
  file_name :: path
  data :: "u8 list"
  file_parent :: nat

record dir =
  dir_name :: path
  entries :: "ramfs_dir_entry list"
  dir_parent :: nat

record ramfs =
  dirs :: "nat \<Rightarrow> dir"
  files :: "nat \<Rightarrow> ramfs_file"
  next_dir :: nat
  next_file :: nat

record file_handle =
  handle_inner :: nat
  pos :: nat

definition handle_new :: "nat \<Rightarrow> file_handle" where
  "handle_new f = \<lparr>handle_inner = f, pos = 0\<rparr>"

definition ramfs_new :: ramfs where
  "ramfs_new =
     \<lparr>dirs = \<lambda>_. \<lparr>dir_name = ''/'', entries = [], dir_parent = 0\<rparr>,
      files = \<lambda>_. \<lparr>file_name = [], data = [], file_parent = 0\<rparr>, next_dir = 1, next_file = 0\<rparr>"

section \<open>Searching\<close>

text \<open>The first entry of a directory that is a directory, or a file, of the given name.\<close>

fun first_dir :: "ramfs \<Rightarrow> path \<Rightarrow> ramfs_dir_entry list \<Rightarrow> nat option" where
  "first_dir fs name [] = None"
| "first_dir fs name (DirE d # es) =
     (if dir_name (dirs fs d) = name then Some d else first_dir fs name es)"
| "first_dir fs name (FileE f # es) = first_dir fs name es"

fun first_file :: "ramfs \<Rightarrow> path \<Rightarrow> ramfs_dir_entry list \<Rightarrow> nat option" where
  "first_file fs name [] = None"
| "first_file fs name (DirE d # es) = first_file fs name es"
| "first_file fs name (FileE f # es) =
     (if file_name (files fs f) = name then Some f else first_file fs name es)"

function find_dir :: "ramfs \<Rightarrow> nat \<Rightarrow> path \<Rightarrow> nat option" where
  "find_dir fs this p =
     (case split_from_top p of
        Some (top_name, rest) \<Rightarrow>
          (case first_dir fs top_name (entries (dirs fs this)) of
             Some d \<Rightarrow> find_dir fs d rest
           | None \<Rightarrow> None)
      | None \<Rightarrow> first_dir fs p (entries (dirs fs this)))"
  by pat_completeness auto
termination
  by (relation "measure (\<lambda>(fs, this, p). length p)") (auto dest: split_from_top_length)

function find_file :: "ramfs \<Rightarrow> nat \<Rightarrow> path \<Rightarrow> file_handle option" where
  "find_file fs this p =
     (case split_from_top p of
        Some (top_name, rest) \<Rightarrow>
          (case first_dir fs top_name (entries (dirs fs this)) of
             Some d \<Rightarrow> find_file fs d rest
           | None \<Rightarrow> None)
      | None \<Rightarrow> map_option handle_new (first_file fs p (entries (dirs fs this))))"
  by pat_completeness auto
termination
  by (relation "measure (\<lambda>(fs, this, p). length p)") (auto dest: split_from_top_length)

declare find_dir.simps [simp del] find_file.simps [simp del]

definition entry_name :: "ramfs \<Rightarrow> ramfs_dir_entry \<Rightarrow> path" where
  "entry_name fs e = (case e of DirE d \<Rightarrow> dir_name (dirs fs d) | FileE f \<Rightarrow> file_name (files fs f))"

definition entry_type :: "ramfs_dir_entry \<Rightarrow> file_type" where
  "entry_type e = (case e of DirE _ \<Rightarrow> DirectoryT | FileE _ \<Rightarrow> FileT)"

section \<open>Reading and writing\<close>

text \<open>The loop of \<open>read\<close>: the bytes are copied while both sides last.\<close>

fun copy_bytes :: "u8 list \<Rightarrow> u8 list \<Rightarrow> nat \<times> u8 list" where
  "copy_bytes (p # ps) (b # bs) = (case copy_bytes ps bs of (n, ps') \<Rightarrow> (Suc n, b # ps'))"
| "copy_bytes ps _ = (0, ps)"

definition ramfs_read ::
  "ramfs \<Rightarrow> file_handle \<Rightarrow> u8 list \<Rightarrow> (nat \<times> u8 list \<times> file_handle) run" where
  "ramfs_read fs h buf =
     (case copy_bytes buf (drop (pos h) (data (files fs (handle_inner h)))) of (n, buf') \<Rightarrow>
      bnd (usize_add (pos h) n) (\<lambda>k. Inr (n, buf', h\<lparr>pos := k\<rparr>)))"

definition vec_insert :: "'a list \<Rightarrow> nat \<Rightarrow> 'a \<Rightarrow> 'a list run" where
  "vec_insert v i x = (if i \<le> length v then Inr (take i v @ x # drop i v) else Inl IndexOutOfBounds)"

fun insert_bytes :: "nat \<Rightarrow> nat \<Rightarrow> u8 list \<Rightarrow> u8 list \<Rightarrow> (nat \<times> u8 list) run" where
  "insert_bytes at wrote [] v = Inr (wrote, v)"
| "insert_bytes at wrote (b # bs) v =
     bnd (usize_add at wrote) (\<lambda>i.
     bnd (vec_insert v i b) (\<lambda>v. insert_bytes at (wrote + 1) bs v))"

definition ramfs_write ::
  "ramfs \<Rightarrow> file_handle \<Rightarrow> u8 list \<Rightarrow> (nat \<times> file_handle \<times> ramfs) run" where
  "ramfs_write fs h buf =
     (let f = handle_inner h in
      bnd (insert_bytes (pos h) 0 buf (data (files fs f))) (\<lambda>(wrote, v).
      bnd (usize_add (pos h) wrote) (\<lambda>k.
      Inr (wrote, h\<lparr>pos := k\<rparr>, fs\<lparr>files := (files fs)(f := (files fs f)\<lparr>data := v\<rparr>)\<rparr>))))"

section \<open>The file system\<close>

definition push_entry :: "ramfs \<Rightarrow> nat \<Rightarrow> ramfs_dir_entry \<Rightarrow> ramfs" where
  "push_entry fs d e =
     fs\<lparr>dirs := (dirs fs)(d := (dirs fs d)\<lparr>entries := entries (dirs fs d) @ [e]\<rparr>)\<rparr>"

text \<open>
  The directory that a parent path names: two of the operations cut off the root with
  \<open>split_from_top\<close>, the others with \<open>relative_to\<close>.
\<close>

definition lookup_split :: "ramfs \<Rightarrow> path \<Rightarrow> nat option run" where
  "lookup_split fs par =
     (if is_root par then Inr (Some 0)
      else bnd (unwrap (split_from_top par)) (\<lambda>sp. Inr (find_dir fs 0 (snd sp))))"

definition lookup_relative :: "ramfs \<Rightarrow> path \<Rightarrow> nat option run" where
  "lookup_relative fs par =
     (if is_root par then Inr (Some 0)
      else bnd (unwrap (relative_to par path_root)) (\<lambda>r. Inr (find_dir fs 0 r)))"

text \<open>A new file, a new directory in the directory \<open>d\<close>; the entries of a name removed from it.\<close>

definition add_file :: "ramfs \<Rightarrow> nat \<Rightarrow> string \<Rightarrow> ramfs" where
  "add_file fs d c = push_entry (fs\<lparr>files := (files fs)(next_file fs := \<lparr>file_name = c, data = [], file_parent = d\<rparr>),
     next_file := next_file fs + 1\<rparr>) d (FileE (next_file fs))"

definition add_dir :: "ramfs \<Rightarrow> nat \<Rightarrow> string \<Rightarrow> ramfs" where
  "add_dir fs d c = push_entry (fs\<lparr>dirs := (dirs fs)(next_dir fs := \<lparr>dir_name = c, entries = [], dir_parent = d\<rparr>),
     next_dir := next_dir fs + 1\<rparr>) d (DirE (next_dir fs))"

definition remove_name :: "ramfs \<Rightarrow> nat \<Rightarrow> string \<Rightarrow> ramfs" where
  "remove_name fs d c = fs\<lparr>dirs := (dirs fs)(d := (dirs fs d)\<lparr>entries :=
     filter (\<lambda>e. entry_name fs e \<noteq> c) (entries (dirs fs d))\<rparr>)\<rparr>"

definition ramfs_file_type :: "ramfs \<Rightarrow> path \<Rightarrow> (vfs_error + file_type) run" where
  "ramfs_file_type fs p =
     (if \<not> has_root p then Inr (Inl PathIsNotAbsolute)
      else if is_root p then Inr (Inr DirectoryT)
      else
        bnd (unwrap (parent p)) (\<lambda>par.
        bnd (lookup_relative fs par) (\<lambda>parent_dir.
        case parent_dir of
          None \<Rightarrow> Inr (Inl PathDoesNotExist)
        | Some d \<Rightarrow>
            bnd (filename p) (\<lambda>fn.
            bnd (unwrap fn) (\<lambda>name.
            case find (\<lambda>e. entry_name fs e = name) (entries (dirs fs d)) of
              Some e \<Rightarrow> Inr (Inr (entry_type e))
            | None \<Rightarrow> Inr (Inl PathDoesNotExist))))))"

definition ramfs_open_file :: "ramfs \<Rightarrow> path \<Rightarrow> (vfs_error + file_handle) run" where
  "ramfs_open_file fs p =
     (if \<not> has_root p then Inr (Inl PathIsNotAbsolute)
      else case split_from_top p of
             Some (_, rest) \<Rightarrow>
               (case find_file fs 0 rest of
                  Some file \<Rightarrow> Inr (Inr file)
                | None \<Rightarrow> Inr (Inl PathDoesNotExist))
           | None \<Rightarrow> Inr (Inl PathDoesNotHaveAFilename))"

definition ramfs_create_file :: "ramfs \<Rightarrow> path \<Rightarrow> ((vfs_error + file_handle) \<times> ramfs) run" where
  "ramfs_create_file fs p =
     (if \<not> has_root p then Inr (Inl PathIsNotAbsolute, fs)
      else case parent p of
        None \<Rightarrow> Inr (Inl PathDoesNotHaveAFilename, fs)
      | Some par \<Rightarrow>
          bnd (lookup_split fs par) (\<lambda>r.
          case r of
            None \<Rightarrow> Inr (Inl DirectoryDoesNotExist, fs)
          | Some d \<Rightarrow>
              bnd (filename p) (\<lambda>fn.
              bnd (unwrap fn) (\<lambda>name.
              Inr (Inr (handle_new (next_file fs)), add_file fs d name)))))"

definition ramfs_create_dir :: "ramfs \<Rightarrow> path \<Rightarrow> ((vfs_error + unit) \<times> ramfs) run" where
  "ramfs_create_dir fs p =
     (if \<not> has_root p then Inr (Inl PathIsNotAbsolute, fs)
      else case parent p of
        None \<Rightarrow> Inr (Inl PathAlreadyExists, fs)
      | Some par \<Rightarrow>
          bnd (lookup_split fs par) (\<lambda>r.
          case r of
            None \<Rightarrow> Inr (Inl DirectoryDoesNotExist, fs)
          | Some d \<Rightarrow>
              bnd (filename p) (\<lambda>fn.
              bnd (unwrap fn) (\<lambda>name.
              Inr (Inr (), add_dir fs d name)))))"

definition ramfs_delete :: "ramfs \<Rightarrow> path \<Rightarrow> ((vfs_error + unit) \<times> ramfs) run" where
  "ramfs_delete fs p =
     (if \<not> has_root p then Inr (Inl PathIsNotAbsolute, fs)
      else if is_root p then
        Inr (Inr (), fs\<lparr>dirs := (dirs fs)(0 := (dirs fs 0)\<lparr>entries := []\<rparr>)\<rparr>)
      else
        bnd (unwrap (parent p)) (\<lambda>par.
        bnd (lookup_relative fs par) (\<lambda>parent_dir.
        case parent_dir of
          None \<Rightarrow> Inr (Inl PathDoesNotExist, fs)
        | Some d \<Rightarrow>
            bnd (filename p) (\<lambda>fn.
            bnd (unwrap fn) (\<lambda>name.
            Inr (Inr (), remove_name fs d name))))))"

definition ramfs_open_dir :: "ramfs \<Rightarrow> path \<Rightarrow> (vfs_error + dir_info list) run" where
  "ramfs_open_dir fs p =
     (if \<not> has_root p then Inr (Inl PathIsNotAbsolute)
      else
        bnd (lookup_relative fs p) (\<lambda>r.
        case r of
          None \<Rightarrow> Inr (Inl PathDoesNotExist)
        | Some d \<Rightarrow>
            Inr (Inr (map (\<lambda>e. \<lparr>info_file_type = entry_type e, info_path = path_add p (entry_name fs e)\<rparr>)
              (entries (dirs fs d))))))"

definition ramfs_exists :: "ramfs \<Rightarrow> path \<Rightarrow> bool run" where
  "ramfs_exists fs p = bnd (ramfs_file_type fs p) (\<lambda>r. Inr (case r of Inl _ \<Rightarrow> False | Inr _ \<Rightarrow> True))"

section \<open>The tree of names\<close>

text \<open>
  The directory and the file at a list of components: the abstract file system is the pair of
  functions \<open>dir_at fs\<close> and \<open>file_at fs\<close>.
\<close>

fun walk_dirs :: "ramfs \<Rightarrow> nat \<Rightarrow> string list \<Rightarrow> nat option" where
  "walk_dirs fs d [] = Some d"
| "walk_dirs fs d (c # cs) =
     (case first_dir fs c (entries (dirs fs d)) of None \<Rightarrow> None | Some x \<Rightarrow> walk_dirs fs x cs)"

definition dir_at :: "ramfs \<Rightarrow> string list \<Rightarrow> nat option" where
  "dir_at fs cs = walk_dirs fs 0 cs"

definition file_at :: "ramfs \<Rightarrow> string list \<Rightarrow> string \<Rightarrow> nat option" where
  "file_at fs cs c =
     (case dir_at fs cs of None \<Rightarrow> None | Some d \<Rightarrow> first_file fs c (entries (dirs fs d)))"

abbreviation components :: "string list \<Rightarrow> bool" where
  "components cs \<equiv> \<forall>c\<in>set cs. component c"

lemma walk_dirs_snoc:
  "walk_dirs fs d (cs @ [c]) =
     (case walk_dirs fs d cs of None \<Rightarrow> None | Some x \<Rightarrow> first_dir fs c (entries (dirs fs x)))"
  by (induction cs arbitrary: d) (auto split: option.splits)

lemma dir_at_Nil [simp]: "dir_at fs [] = Some 0"
  by (simp add: dir_at_def)

lemma dir_at_snoc:
  "dir_at fs (cs @ [c]) =
     (case dir_at fs cs of None \<Rightarrow> None | Some x \<Rightarrow> first_dir fs c (entries (dirs fs x)))"
  by (simp add: dir_at_def walk_dirs_snoc)

lemma find_dir_join:
  "components cs \<Longrightarrow> cs \<noteq> [] \<Longrightarrow> find_dir fs d (join cs) = walk_dirs fs d cs"
proof (induction cs arbitrary: d)
  case (Cons c cs)
  show ?case
  proof (cases "cs = []")
    case True
    then show ?thesis using Cons.prems split_join_one [of c]
      by (subst find_dir.simps) (auto split: option.splits)
  next
    case False
    then show ?thesis using Cons split_join [of c cs]
      by (subst find_dir.simps) (auto split: option.splits)
  qed
qed simp

lemma find_file_join:
  "components (cs @ [c]) \<Longrightarrow> find_file fs d (join (cs @ [c])) =
     map_option handle_new
       (case walk_dirs fs d cs of None \<Rightarrow> None | Some x \<Rightarrow> first_file fs c (entries (dirs fs x)))"
proof (induction cs arbitrary: d)
  case Nil
  then show ?case using split_join_one [of c] by (subst find_file.simps) simp
next
  case (Cons a cs)
  have "split_from_top (join (a # cs @ [c])) = Some (a, join (cs @ [c]))"
    using Cons.prems by (intro split_join) simp_all
  then show ?case using Cons by (subst find_file.simps) (auto split: option.splits)
qed

text \<open>How the operations find the directory that holds the last component.\<close>

lemma lookup_split_eq:
  assumes "components cs" and "par = (if cs = [] then ''/'' else abs_path cs)"
  shows "lookup_split fs par = Inr (dir_at fs cs)"
proof (cases "cs = []")
  case False
  then show ?thesis using assms not_root_abs_path [OF assms(1)] find_dir_join [OF assms(1), of fs 0]
    by (simp add: lookup_split_def split_abs_path dir_at_def)
qed (simp add: lookup_split_def assms is_root_def)

lemma lookup_relative_eq:
  assumes "components cs" and "par = (if cs = [] then ''/'' else abs_path cs)"
  shows "lookup_relative fs par = Inr (dir_at fs cs)"
proof (cases "cs = []")
  case False
  then show ?thesis
    using assms not_root_abs_path [OF assms(1)] find_dir_join [OF assms(1), of fs 0]
      relative_root_abs_path [OF assms(1)]
    by (simp add: lookup_relative_def path_root_def dir_at_def)
qed (simp add: lookup_relative_def assms is_root_def)

section \<open>The operations on proper paths\<close>

lemma create_file_eq:
  assumes "components (cs @ [c])"
  shows "ramfs_create_file fs (abs_path (cs @ [c])) =
    (case dir_at fs cs of
       None \<Rightarrow> Inr (Inl DirectoryDoesNotExist, fs)
     | Some d \<Rightarrow> Inr (Inr (handle_new (next_file fs)), add_file fs d c))"
proof -
  have c: "component c" and cs: "components cs" using assms by simp_all
  note par = parent_abs_path [OF c, of cs]
  show ?thesis
    using has_root_abs_path [of "cs @ [c]"] filename_abs_path [OF c, of cs] par
      lookup_split_eq [OF cs refl, of fs]
    by (simp add: ramfs_create_file_def split: option.splits)
qed

lemma create_dir_eq:
  assumes "components (cs @ [c])"
  shows "ramfs_create_dir fs (abs_path (cs @ [c])) =
    (case dir_at fs cs of
       None \<Rightarrow> Inr (Inl DirectoryDoesNotExist, fs)
     | Some d \<Rightarrow> Inr (Inr (), add_dir fs d c))"
proof -
  have c: "component c" and cs: "components cs" using assms by simp_all
  note par = parent_abs_path [OF c, of cs]
  show ?thesis
    using has_root_abs_path [of "cs @ [c]"] filename_abs_path [OF c, of cs] par
      lookup_split_eq [OF cs refl, of fs]
    by (simp add: ramfs_create_dir_def split: option.splits)
qed

lemma delete_eq:
  assumes "components (cs @ [c])"
  shows "ramfs_delete fs (abs_path (cs @ [c])) =
    (case dir_at fs cs of
       None \<Rightarrow> Inr (Inl PathDoesNotExist, fs)
     | Some d \<Rightarrow> Inr (Inr (), remove_name fs d c))"
proof -
  have c: "component c" and cs: "components cs" using assms by simp_all
  note par = parent_abs_path [OF c, of cs]
  show ?thesis
    using has_root_abs_path [of "cs @ [c]"] not_root_abs_path [OF assms] filename_abs_path [OF c, of cs] par
      lookup_relative_eq [OF cs refl, of fs]
    by (simp add: ramfs_delete_def split: option.splits)
qed

lemma open_file_eq:
  assumes "components (cs @ [c])"
  shows "ramfs_open_file fs (abs_path (cs @ [c])) =
    (case file_at fs cs c of None \<Rightarrow> Inr (Inl PathDoesNotExist) | Some f \<Rightarrow> Inr (Inr (handle_new f)))"
  using has_root_abs_path [of "cs @ [c]"] split_abs_path [of "cs @ [c]"] find_file_join [OF assms, of fs 0]
  by (simp add: ramfs_open_file_def file_at_def dir_at_def split: option.splits)

lemma file_type_eq:
  assumes "components (cs @ [c])"
  shows "ramfs_file_type fs (abs_path (cs @ [c])) =
    (case dir_at fs cs of
       None \<Rightarrow> Inr (Inl PathDoesNotExist)
     | Some d \<Rightarrow> (case find (\<lambda>e. entry_name fs e = c) (entries (dirs fs d)) of
         None \<Rightarrow> Inr (Inl PathDoesNotExist) | Some e \<Rightarrow> Inr (Inr (entry_type e))))"
proof -
  have c: "component c" and cs: "components cs" using assms by simp_all
  note par = parent_abs_path [OF c, of cs]
  show ?thesis
    using has_root_abs_path [of "cs @ [c]"] not_root_abs_path [OF assms] filename_abs_path [OF c, of cs] par
      lookup_relative_eq [OF cs refl, of fs]
    by (simp add: ramfs_file_type_def split: option.splits)
qed

section \<open>The invariant\<close>

text \<open>
  Every entry belongs to the directory it is in: this is what the \<open>parent\<close> fields of the source
  record. No directory is an entry of two directories, so a directory has one path.
\<close>

definition entry_ok :: "ramfs \<Rightarrow> nat \<Rightarrow> ramfs_dir_entry \<Rightarrow> bool" where
  "entry_ok fs d e \<longleftrightarrow> slash \<notin> set (entry_name fs e) \<and>
     (case e of
        DirE c \<Rightarrow> c \<noteq> 0 \<and> c < next_dir fs \<and> dir_parent (dirs fs c) = d
      | FileE f \<Rightarrow> f < next_file fs \<and> file_parent (files fs f) = d)"

definition ramfs_ok :: "ramfs \<Rightarrow> bool" where
  "ramfs_ok fs \<longleftrightarrow> 0 < next_dir fs \<and>
     (\<forall>d<next_dir fs. \<forall>e\<in>set (entries (dirs fs d)). entry_ok fs d e)"

lemma first_dir_Some: "first_dir fs n es = Some x \<Longrightarrow> DirE x \<in> set es \<and> dir_name (dirs fs x) = n"
  by (induction fs n es rule: first_dir.induct) (auto split: if_splits)

lemma first_file_Some: "first_file fs n es = Some x \<Longrightarrow> FileE x \<in> set es \<and> file_name (files fs x) = n"
  by (induction fs n es rule: first_file.induct) (auto split: if_splits)

lemma ramfs_okD:
  "ramfs_ok fs \<Longrightarrow> d < next_dir fs \<Longrightarrow> e \<in> set (entries (dirs fs d)) \<Longrightarrow> entry_ok fs d e"
  by (simp add: ramfs_ok_def)

lemma ramfs_ok_entries:
  assumes "ramfs_ok fs" and "d < next_dir fs"
  shows "DirE x \<in> set (entries (dirs fs d)) \<Longrightarrow> x \<noteq> 0 \<and> x < next_dir fs \<and> dir_parent (dirs fs x) = d"
    and "FileE f \<in> set (entries (dirs fs d)) \<Longrightarrow> f < next_file fs \<and> file_parent (files fs f) = d"
  using ramfs_okD [OF assms, of "DirE x"] ramfs_okD [OF assms, of "FileE f"] by (simp_all add: entry_ok_def)

lemma first_dir_ok:
  assumes "ramfs_ok fs" and "d < next_dir fs" and "first_dir fs n (entries (dirs fs d)) = Some x"
  shows "x \<noteq> 0" and "x < next_dir fs" and "dir_parent (dirs fs x) = d" and "dir_name (dirs fs x) = n"
  using ramfs_ok_entries(1) [OF assms(1,2)] first_dir_Some [OF assms(3)] by simp_all

lemma walk_dirs_less:
  "ramfs_ok fs \<Longrightarrow> d < next_dir fs \<Longrightarrow> walk_dirs fs d cs = Some x \<Longrightarrow> x < next_dir fs"
  by (induction cs arbitrary: d) (auto dest: first_dir_ok split: option.splits)

lemma dir_at_less: "ramfs_ok fs \<Longrightarrow> dir_at fs cs = Some x \<Longrightarrow> x < next_dir fs"
  unfolding dir_at_def by (rule walk_dirs_less) (auto simp: ramfs_ok_def)

lemma dir_at_inj:
  "ramfs_ok fs \<Longrightarrow> dir_at fs cs = Some x \<Longrightarrow> dir_at fs cs' = Some x \<Longrightarrow> cs = cs'"
proof (induction cs arbitrary: cs' x rule: rev_induct)
  case Nil
  show ?case
  proof (cases cs' rule: rev_cases)
    case (snoc ds c)
    then show ?thesis using Nil dir_at_less [OF Nil.prems(1)]
      by (auto simp: dir_at_snoc split: option.splits dest: first_dir_ok)
  qed simp
next
  case (snoc c cs)
  obtain d where d: "dir_at fs cs = Some d" "first_dir fs c (entries (dirs fs d)) = Some x"
    using snoc.prems(2) by (auto simp: dir_at_snoc split: option.splits)
  note x = first_dir_ok [OF snoc.prems(1) dir_at_less [OF snoc.prems(1) d(1)] d(2)]
  show ?case
  proof (cases cs' rule: rev_cases)
    case Nil
    then show ?thesis using snoc.prems(3) x(1) by simp
  next
    case (snoc ds b)
    then obtain d' where d': "dir_at fs ds = Some d'" "first_dir fs b (entries (dirs fs d')) = Some x"
      using snoc.prems(3) by (auto simp: dir_at_snoc split: option.splits)
    note x' = first_dir_ok [OF snoc.prems(1) dir_at_less [OF snoc.prems(1) d'(1)] d'(2)]
    have "cs = ds" using snoc.IH [OF snoc.prems(1) d(1), of ds] d'(1) x(3) x'(3) by simp
    then show ?thesis using snoc x(4) x'(4) by simp
  qed
qed

lemma find_dir_less:
  "ramfs_ok fs \<Longrightarrow> d < next_dir fs \<Longrightarrow> find_dir fs d p = Some x \<Longrightarrow> x < next_dir fs"
proof (induction fs d p rule: find_dir.induct)
  case (1 fs d p)
  show ?case
  proof (cases "split_from_top p")
    case None
    then show ?thesis using 1(4) first_dir_ok(2) [OF 1(2,3)] by (simp add: find_dir.simps [of fs d p])
  next
    case (Some tr)
    then obtain y where y: "first_dir fs (fst tr) (entries (dirs fs d)) = Some y" "find_dir fs y (snd tr) = Some x"
      using 1(4) by (cases tr) (auto simp: find_dir.simps [of fs d p] split: option.splits)
    then show ?thesis
      using 1(1) [OF Some prod.collapse y(1) 1(2) first_dir_ok(2) [OF 1(2,3) y(1)]] by simp
  qed
qed

section \<open>What the operations do to the tree\<close>

lemma add_file_simps [simp]:
  "next_dir (add_file fs d c) = next_dir fs" "next_file (add_file fs d c) = next_file fs + 1"
  "files (add_file fs d c) = (files fs)(next_file fs := \<lparr>file_name = c, data = [], file_parent = d\<rparr>)"
  "dirs (add_file fs d c) =
     (dirs fs)(d := (dirs fs d)\<lparr>entries := entries (dirs fs d) @ [FileE (next_file fs)]\<rparr>)"
  by (simp_all add: add_file_def push_entry_def)

lemma add_dir_simps [simp]:
  "next_dir (add_dir fs d c) = next_dir fs + 1" "next_file (add_dir fs d c) = next_file fs"
  "files (add_dir fs d c) = files fs"
  by (simp_all add: add_dir_def push_entry_def)

lemma dirs_add_dir:
  "d \<noteq> next_dir fs \<Longrightarrow> dirs (add_dir fs d c) =
     (dirs fs)(next_dir fs := \<lparr>dir_name = c, entries = [], dir_parent = d\<rparr>,
       d := (dirs fs d)\<lparr>entries := entries (dirs fs d) @ [DirE (next_dir fs)]\<rparr>)"
  by (simp add: add_dir_def push_entry_def)

lemma remove_name_simps [simp]:
  "next_dir (remove_name fs d c) = next_dir fs" "next_file (remove_name fs d c) = next_file fs"
  "files (remove_name fs d c) = files fs"
  "dirs (remove_name fs d c) = (dirs fs)(d := (dirs fs d)\<lparr>entries :=
     filter (\<lambda>e. entry_name fs e \<noteq> c) (entries (dirs fs d))\<rparr>)"
  by (simp_all add: remove_name_def)

lemma first_dir_append:
  "first_dir fs n (es @ es') = (case first_dir fs n es of None \<Rightarrow> first_dir fs n es' | Some x \<Rightarrow> Some x)"
  by (induction fs n es rule: first_dir.induct) auto

lemma first_file_append:
  "first_file fs n (es @ es') = (case first_file fs n es of None \<Rightarrow> first_file fs n es' | Some x \<Rightarrow> Some x)"
  by (induction fs n es rule: first_file.induct) auto

lemma first_dir_cong:
  "\<forall>x. DirE x \<in> set es \<longrightarrow> dir_name (dirs fs' x) = dir_name (dirs fs x) \<Longrightarrow> first_dir fs' n es = first_dir fs n es"
  by (induction fs n es rule: first_dir.induct) auto

lemma first_file_cong:
  "\<forall>x. FileE x \<in> set es \<longrightarrow> file_name (files fs' x) = file_name (files fs x) \<Longrightarrow>
     first_file fs' n es = first_file fs n es"
  by (induction fs n es rule: first_file.induct) auto

lemma first_dir_filter:
  "first_dir fs n (filter (\<lambda>e. entry_name fs e \<noteq> c) es) = (if n = c then None else first_dir fs n es)"
proof (induction es)
  case (Cons e es)
  then show ?case by (cases e) (auto simp: entry_name_def)
qed simp

lemma first_file_filter:
  "first_file fs n (filter (\<lambda>e. entry_name fs e \<noteq> c) es) = (if n = c then None else first_file fs n es)"
proof (induction es)
  case (Cons e es)
  then show ?case by (cases e) (auto simp: entry_name_def)
qed simp

lemma dir_at_add_file: "dir_at (add_file fs d c) cs = dir_at fs cs"
proof (induction cs rule: rev_induct)
  case (snoc x cs)
  have "first_dir (add_file fs d c) x es = first_dir fs x es" for es by (rule first_dir_cong) simp
  then show ?case using snoc by (auto simp: dir_at_snoc first_dir_append split: option.splits)
qed simp

lemma file_at_less:
  assumes "ramfs_ok fs" and "file_at fs cs c = Some f"
  shows "f < next_file fs"
proof -
  obtain d where d: "dir_at fs cs = Some d" "first_file fs c (entries (dirs fs d)) = Some f"
    using assms(2) by (auto simp: file_at_def split: option.splits)
  then show ?thesis using ramfs_ok_entries(2) [OF assms(1) dir_at_less [OF assms(1) d(1)]] first_file_Some [OF d(2)] by blast
qed

lemma file_at_add_file:
  assumes ok: "ramfs_ok fs" and d: "dir_at fs cs = Some d"
  shows "file_at (add_file fs d c) cs' c' =
    (if cs' = cs \<and> c' = c \<and> file_at fs cs c = None then Some (next_file fs) else file_at fs cs' c')"
proof (cases "dir_at fs cs'")
  case None
  then show ?thesis using d by (auto simp: file_at_def dir_at_add_file)
next
  case (Some x)
  have "\<forall>f. FileE f \<in> set (entries (dirs fs x)) \<longrightarrow> f < next_file fs"
    using ramfs_ok_entries(2) [OF ok dir_at_less [OF ok Some]] by simp
  then have old: "first_file (add_file fs d c) c' (entries (dirs fs x)) = first_file fs c' (entries (dirs fs x))"
    by (intro first_file_cong) auto
  have "x = d \<longleftrightarrow> cs' = cs" using dir_at_inj [OF ok Some, of cs] d Some by auto
  then show ?thesis using Some d old
    by (auto simp: file_at_def dir_at_add_file first_file_append split: option.splits)
qed

lemma dir_at_add_dir:
  assumes ok: "ramfs_ok fs" and d: "dir_at fs cs = Some d"
  shows "dir_at (add_dir fs d c) cs' =
    (if cs' = cs @ [c] \<and> dir_at fs cs' = None then Some (next_dir fs) else dir_at fs cs')"
proof (induction cs' rule: rev_induct)
  case (snoc x ds)
  let ?fs = "add_dir fs d c"
  have dn: "d < next_dir fs" by (rule dir_at_less [OF ok d])
  note ds = dirs_add_dir [OF less_imp_neq [OF dn]]
  have old: "first_dir ?fs x (entries (dirs fs y)) = first_dir fs x (entries (dirs fs y))"
    if "y < next_dir fs" for y
    using ramfs_ok_entries(1) [OF ok that] dn by (intro first_dir_cong) (auto simp: ds)
  show ?case
  proof (cases "dir_at fs ds")
    case None
    then show ?thesis using snoc dn d by (auto simp: dir_at_snoc ds)
  next
    case (Some y)
    have y: "y < next_dir fs" by (rule dir_at_less [OF ok Some])
    have "y = d \<longleftrightarrow> ds = cs" using dir_at_inj [OF ok Some, of cs] d Some by auto
    then show ?thesis using snoc Some y dn old [OF y]
      by (auto simp: dir_at_snoc ds first_dir_append split: option.splits)
  qed
qed simp

lemma dir_at_remove_name:
  assumes ok: "ramfs_ok fs" and d: "dir_at fs cs = Some d"
  shows "dir_at (remove_name fs d c) cs' = (if prefix (cs @ [c]) cs' then None else dir_at fs cs')"
proof (induction cs' rule: rev_induct)
  case (snoc x ds)
  let ?fs = "remove_name fs d c"
  have old: "first_dir ?fs x es = first_dir fs x es" for es by (rule first_dir_cong) simp
  show ?case
  proof (cases "prefix (cs @ [c]) ds")
    case True
    then show ?thesis using snoc by (simp add: dir_at_snoc)
  next
    case False
    then have p: "prefix (cs @ [c]) (ds @ [x]) \<longleftrightarrow> ds = cs \<and> x = c" by auto
    show ?thesis
    proof (cases "dir_at fs ds")
      case None
      then show ?thesis using snoc False p d by (auto simp: dir_at_snoc)
    next
      case (Some y)
      have "y = d \<longleftrightarrow> ds = cs" using dir_at_inj [OF ok Some, of cs] d Some by auto
      then show ?thesis using snoc False Some p old by (auto simp: dir_at_snoc first_dir_filter)
    qed
  qed
qed simp

lemma file_at_remove_name:
  assumes ok: "ramfs_ok fs" and d: "dir_at fs cs = Some d"
  shows "file_at (remove_name fs d c) cs' c' =
    (if prefix (cs @ [c]) (cs' @ [c']) then None else file_at fs cs' c')"
proof (cases "dir_at fs cs'")
  case None
  then show ?thesis by (auto simp: file_at_def dir_at_remove_name [OF ok d])
next
  case (Some x)
  have old: "first_file (remove_name fs d c) c' es = first_file fs c' es" for es
    by (rule first_file_cong) simp
  have "x = d \<longleftrightarrow> cs' = cs" using dir_at_inj [OF ok Some, of cs] d Some by auto
  then show ?thesis using Some old
    by (auto simp: file_at_def dir_at_remove_name [OF ok d] first_file_filter)
qed

lemma file_at_add_dir:
  assumes ok: "ramfs_ok fs" and d: "dir_at fs cs = Some d"
  shows "file_at (add_dir fs d c) cs' c' = file_at fs cs' c'"
proof -
  have dn: "d < next_dir fs" by (rule dir_at_less [OF ok d])
  note ds = dirs_add_dir [OF less_imp_neq [OF dn]]
  have old: "first_file (add_dir fs d c) c' es = first_file fs c' es" for es
    by (rule first_file_cong) simp
  show ?thesis
  proof (cases "dir_at fs cs'")
    case None
    then show ?thesis using dn by (auto simp: file_at_def dir_at_add_dir [OF ok d] ds)
  next
    case (Some x)
    then show ?thesis using dir_at_less [OF ok Some] dn
      by (auto simp: file_at_def dir_at_add_dir [OF ok d] ds old first_file_append split: option.splits)
  qed
qed

text \<open>Every operation keeps the invariant, whatever the path.\<close>

lemma ramfs_new_simps [simp]:
  "next_dir ramfs_new = 1" "next_file ramfs_new = 0"
  "dirs ramfs_new d = \<lparr>dir_name = ''/'', entries = [], dir_parent = 0\<rparr>"
  by (simp_all add: ramfs_new_def)

lemma ramfs_ok_new: "ramfs_ok ramfs_new"
  by (simp add: ramfs_ok_def ramfs_new_def)

lemma entry_ok_mono:
  assumes "entry_ok fs d e" and "next_dir fs \<le> next_dir fs'" and "next_file fs \<le> next_file fs'"
    and "\<forall>x<next_dir fs. dir_name (dirs fs' x) = dir_name (dirs fs x) \<and> dir_parent (dirs fs' x) = dir_parent (dirs fs x)"
    and "\<forall>f<next_file fs. file_name (files fs' f) = file_name (files fs f) \<and>
      file_parent (files fs' f) = file_parent (files fs f)"
  shows "entry_ok fs' d e"
  using assms by (cases e) (simp_all add: entry_ok_def entry_name_def)

lemma ramfs_okI:
  assumes "0 < next_dir fs" and "\<And>d e. d < next_dir fs \<Longrightarrow> e \<in> set (entries (dirs fs d)) \<Longrightarrow> entry_ok fs d e"
  shows "ramfs_ok fs"
  using assms by (simp add: ramfs_ok_def)

lemma ramfs_ok_add_file:
  assumes ok: "ramfs_ok fs" and d: "d < next_dir fs" and c: "slash \<notin> set c"
  shows "ramfs_ok (add_file fs d c)"
proof (rule ramfs_okI)
  let ?fs = "add_file fs d c"
  fix x e
  assume x: "x < next_dir ?fs" "e \<in> set (entries (dirs ?fs x))"
  show "entry_ok ?fs x e"
  proof (cases "e \<in> set (entries (dirs fs x))")
    case True
    show ?thesis by (rule entry_ok_mono [OF ramfs_okD [OF ok _ True]]) (use x in simp_all)
  next
    case False
    then have "x = d" "e = FileE (next_file fs)" using x by (auto split: if_splits)
    then show ?thesis using c by (simp add: entry_ok_def entry_name_def)
  qed
qed (use d in simp)

lemma ramfs_ok_add_dir:
  assumes ok: "ramfs_ok fs" and d: "d < next_dir fs" and c: "slash \<notin> set c"
  shows "ramfs_ok (add_dir fs d c)"
proof (rule ramfs_okI)
  let ?fs = "add_dir fs d c"
  note ds = dirs_add_dir [OF less_imp_neq [OF d]]
  fix x e
  assume x: "x < next_dir ?fs" "e \<in> set (entries (dirs ?fs x))"
  show "entry_ok ?fs x e"
  proof (cases "x < next_dir fs \<and> e \<in> set (entries (dirs fs x))")
    case True
    then show ?thesis by (intro entry_ok_mono [OF ramfs_okD [OF ok]]) (auto simp: ds)
  next
    case False
    then have "x = d" "e = DirE (next_dir fs)" using x d by (auto simp: ds split: if_splits)
    then show ?thesis using c d by (simp add: entry_ok_def entry_name_def ds)
  qed
qed simp

lemma ramfs_ok_filter:
  assumes ok: "ramfs_ok fs" and d: "d < next_dir fs"
  shows "ramfs_ok (fs\<lparr>dirs := (dirs fs)(d := (dirs fs d)\<lparr>entries := filter P (entries (dirs fs d))\<rparr>)\<rparr>)" (is "ramfs_ok ?fs")
proof (rule ramfs_okI)
  fix x e
  assume "x < next_dir ?fs" "e \<in> set (entries (dirs ?fs x))"
  then have "x < next_dir fs" "e \<in> set (entries (dirs fs x))" by (auto split: if_splits)
  then show "entry_ok ?fs x e" by (intro entry_ok_mono [OF ramfs_okD [OF ok]]) auto
qed (use d in simp)

text \<open>The results of the searches an operation makes.\<close>

lemma lookup_less:
  assumes "ramfs_ok fs"
  shows "lookup_split fs par = Inr (Some d) \<Longrightarrow> d < next_dir fs"
    and "lookup_relative fs par = Inr (Some d) \<Longrightarrow> d < next_dir fs"
  using assms find_dir_less [OF assms]
  by (auto simp: lookup_split_def lookup_relative_def ramfs_ok_def bnd_eq_Inr_iff split: if_splits)

lemma filename_no_slash: "filename p = Inr (Some c) \<Longrightarrow> slash \<notin> set c"
  by (auto simp: filename_eq rsplit_once_Some split: if_splits)

lemma create_file_ok:
  assumes "ramfs_ok fs" and "ramfs_create_file fs p = Inr (r, fs')"
  shows "ramfs_ok fs'"
  using assms
  by (auto simp: ramfs_create_file_def bnd_eq_Inr_iff
      dest!: lookup_less(1) [OF assms(1)] filename_no_slash
      intro!: ramfs_ok_add_file split: if_splits option.splits)

lemma create_dir_ok:
  assumes "ramfs_ok fs" and "ramfs_create_dir fs p = Inr (r, fs')"
  shows "ramfs_ok fs'"
  using assms
  by (auto simp: ramfs_create_dir_def bnd_eq_Inr_iff
      dest!: lookup_less(1) [OF assms(1)] filename_no_slash
      intro!: ramfs_ok_add_dir split: if_splits option.splits)

lemma delete_ok:
  assumes "ramfs_ok fs" and "ramfs_delete fs p = Inr (r, fs')"
  shows "ramfs_ok fs'"
proof -
  have "ramfs_ok (fs\<lparr>dirs := (dirs fs)(0 := (dirs fs 0)\<lparr>entries := []\<rparr>)\<rparr>)"
    using ramfs_ok_filter [OF assms(1), of 0 "\<lambda>_. False"] assms(1) by (simp add: ramfs_ok_def)
  then show ?thesis using assms
    by (auto simp: ramfs_delete_def bnd_eq_Inr_iff remove_name_def
        dest!: lookup_less(2) [OF assms(1)] intro!: ramfs_ok_filter split: if_splits option.splits)
qed

section \<open>Contents of files\<close>

lemma copy_bytes_eq:
  "copy_bytes buf bs = (min (length buf) (length bs), take (length buf) bs @ drop (length bs) buf)"
  by (induction buf bs rule: copy_bytes.induct) auto

lemma insert_bytes_eq:
  assumes "at + length bs + wrote < 2 ^ 64" and "at + wrote \<le> length v"
  shows "insert_bytes at wrote bs v = Inr (wrote + length bs, take (at + wrote) v @ bs @ drop (at + wrote) v)"
  using assms
proof (induction bs arbitrary: wrote v)
  case (Cons b bs)
  let ?i = "at + wrote"
  let ?v = "take ?i v @ b # drop ?i v"
  have "insert_bytes at wrote (b # bs) v = insert_bytes at (wrote + 1) bs ?v"
    using Cons.prems by (simp add: usize_add_def vec_insert_def)
  also have "\<dots> = Inr (wrote + 1 + length bs, take (?i + 1) ?v @ bs @ drop (?i + 1) ?v)"
    using Cons.IH [of "wrote + 1" ?v] Cons.prems by simp
  finally show ?case using Cons.prems by simp
qed simp

lemma ramfs_write_eq:
  assumes "pos h \<le> length (data (files fs (handle_inner h)))" and "pos h + length bs < 2 ^ 64"
  shows "ramfs_write fs h bs =
    (let f = handle_inner h; v = data (files fs f) in
     Inr (length bs, h\<lparr>pos := pos h + length bs\<rparr>,
       fs\<lparr>files := (files fs)(f := (files fs f)\<lparr>data := take (pos h) v @ bs @ drop (pos h) v\<rparr>)\<rparr>))"
  using assms by (simp add: ramfs_write_def Let_def insert_bytes_eq usize_add_def)

lemma ramfs_read_eq:
  assumes "pos h + length buf < 2 ^ 64"
  shows "ramfs_read fs h buf =
    (let v = drop (pos h) (data (files fs (handle_inner h))); n = min (length buf) (length v) in
     Inr (n, take (length buf) v @ drop (length v) buf, h\<lparr>pos := pos h + n\<rparr>))"
  using assms by (simp add: ramfs_read_def Let_def copy_bytes_eq usize_add_def)

text \<open>Writing changes the data of one file and leaves the tree alone.\<close>

definition set_data :: "ramfs \<Rightarrow> nat \<Rightarrow> u8 list \<Rightarrow> ramfs" where
  "set_data fs f v = fs\<lparr>files := (files fs)(f := (files fs f)\<lparr>data := v\<rparr>)\<rparr>"

lemma dir_at_set_data: "dir_at (set_data fs f v) cs = dir_at fs cs"
proof -
  have "first_dir (set_data fs f v) a es = first_dir fs a es" for a es
    by (rule first_dir_cong) (simp add: set_data_def)
  then have "walk_dirs (set_data fs f v) x cs = walk_dirs fs x cs" for x
    by (induction cs arbitrary: x) (simp_all add: set_data_def split: option.splits)
  then show ?thesis by (simp add: dir_at_def)
qed

lemma file_at_set_data: "file_at (set_data fs f v) cs c = file_at fs cs c"
proof -
  have "first_file (set_data fs f v) c es = first_file fs c es" for es
    by (rule first_file_cong) (simp add: set_data_def)
  then show ?thesis by (simp add: file_at_def dir_at_set_data) (simp add: set_data_def split: option.splits)
qed

section \<open>Programs that use the file system\<close>

text \<open>
  The file system with the handles that are open on it. A step is one call of the interface;
  a handle may be dropped at any time, and deleting a file leaves the handles to it valid.
\<close>

record fs_sys =
  store :: ramfs
  handles :: "file_handle list"

inductive fs_step :: "fs_sys \<Rightarrow> fs_sys \<Rightarrow> bool" where
  fs_create_file: "ramfs_create_file (store s) p = Inr (Inr h, fs') \<Longrightarrow>
    fs_step s \<lparr>store = fs', handles = handles s @ [h]\<rparr>"
| fs_create_file_error: "ramfs_create_file (store s) p = Inr (Inl e, fs') \<Longrightarrow>
    fs_step s \<lparr>store = fs', handles = handles s\<rparr>"
| fs_create_dir: "ramfs_create_dir (store s) p = Inr (r, fs') \<Longrightarrow>
    fs_step s \<lparr>store = fs', handles = handles s\<rparr>"
| fs_delete: "ramfs_delete (store s) p = Inr (r, fs') \<Longrightarrow>
    fs_step s \<lparr>store = fs', handles = handles s\<rparr>"
| fs_open_file: "ramfs_open_file (store s) p = Inr (Inr h) \<Longrightarrow>
    fs_step s (s\<lparr>handles := handles s @ [h]\<rparr>)"
| fs_read: "i < length (handles s) \<Longrightarrow> ramfs_read (store s) (handles s ! i) buf = Inr (n, buf', h) \<Longrightarrow>
    fs_step s (s\<lparr>handles := (handles s)[i := h]\<rparr>)"
| fs_write: "i < length (handles s) \<Longrightarrow> ramfs_write (store s) (handles s ! i) bs = Inr (n, h, fs') \<Longrightarrow>
    fs_step s \<lparr>store = fs', handles = (handles s)[i := h]\<rparr>"
| fs_drop: "fs_step s (s\<lparr>handles := take i (handles s) @ drop (Suc i) (handles s)\<rparr>)"

inductive_cases fs_stepE: "fs_step s s'"

definition handle_ok :: "ramfs \<Rightarrow> file_handle \<Rightarrow> bool" where
  "handle_ok fs h \<longleftrightarrow> handle_inner h < next_file fs \<and> pos h \<le> length (data (files fs (handle_inner h)))"

definition fs_sys_ok :: "fs_sys \<Rightarrow> bool" where
  "fs_sys_ok s \<longleftrightarrow> ramfs_ok (store s) \<and> (\<forall>h\<in>set (handles s). handle_ok (store s) h)"

lemma find_file_less:
  "ramfs_ok fs \<Longrightarrow> d < next_dir fs \<Longrightarrow> find_file fs d p = Some h \<Longrightarrow> handle_ok fs h"
proof (induction fs d p rule: find_file.induct)
  case (1 fs d p)
  show ?case
  proof (cases "split_from_top p")
    case None
    then show ?thesis using 1(4) ramfs_ok_entries(2) [OF 1(2,3)]
      by (auto simp: find_file.simps [of fs d p] handle_ok_def handle_new_def dest: first_file_Some)
  next
    case (Some tr)
    then obtain y where y: "first_dir fs (fst tr) (entries (dirs fs d)) = Some y" "find_file fs y (snd tr) = Some h"
      using 1(4) by (cases tr) (auto simp: find_file.simps [of fs d p] split: option.splits)
    then show ?thesis
      using 1(1) [OF Some prod.collapse y(1) 1(2) first_dir_ok(2) [OF 1(2,3) y(1)]] by simp
  qed
qed

text \<open>Data only grows, so a handle stays valid.\<close>

definition data_grows :: "ramfs \<Rightarrow> ramfs \<Rightarrow> bool" where
  "data_grows fs fs' \<longleftrightarrow> next_file fs \<le> next_file fs' \<and>
     (\<forall>f<next_file fs. length (data (files fs f)) \<le> length (data (files fs' f)))"

lemma handle_ok_mono: "handle_ok fs h \<Longrightarrow> data_grows fs fs' \<Longrightarrow> handle_ok fs' h"
  by (auto simp: handle_ok_def data_grows_def intro: order_trans)

lemma data_grows_ops:
  "ramfs_create_file fs p = Inr (r, fs') \<Longrightarrow> data_grows fs fs'"
  "ramfs_create_dir fs p = Inr (r', fs') \<Longrightarrow> data_grows fs fs'"
  "ramfs_delete fs p = Inr (r', fs') \<Longrightarrow> data_grows fs fs'"
  by (auto simp: ramfs_create_file_def ramfs_create_dir_def ramfs_delete_def bnd_eq_Inr_iff
      data_grows_def split: if_splits option.splits)

lemma create_file_handle:
  "ramfs_create_file fs p = Inr (Inr h, fs') \<Longrightarrow> handle_ok fs' h"
  by (auto simp: ramfs_create_file_def bnd_eq_Inr_iff handle_ok_def handle_new_def
      split: if_splits option.splits)

lemma read_handle:
  assumes "handle_ok fs h" and "ramfs_read fs h buf = Inr (n, buf', h')"
  shows "handle_ok fs h'"
  using assms by (auto simp: ramfs_read_def copy_bytes_eq bnd_eq_Inr_iff handle_ok_def)

lemma insert_bytes_Inr:
  "insert_bytes at wrote bs v = Inr (n, v') \<Longrightarrow> at + wrote \<le> length v \<Longrightarrow>
     n = wrote + length bs \<and> length v' = length v + length bs \<and> at + n \<le> length v'"
proof (induction bs arbitrary: wrote v)
  case (Cons b bs)
  from Cons.prems(1) have "insert_bytes at (wrote + 1) bs (take (at + wrote) v @ b # drop (at + wrote) v) = Inr (n, v')"
    by (auto simp: bnd_eq_Inr_iff vec_insert_def split: if_splits)
  from Cons.IH [OF this] Cons.prems(2) show ?case by simp
qed auto

lemma write_handle:
  assumes ok: "handle_ok fs h" and w: "ramfs_write fs h bs = Inr (n, h', fs')"
  shows "handle_ok fs' h'" and "data_grows fs fs'" and "ramfs_ok fs \<Longrightarrow> ramfs_ok fs'"
proof -
  let ?f = "handle_inner h"
  obtain v where v: "insert_bytes (pos h) 0 bs (data (files fs ?f)) = Inr (n, v)"
      "h' = h\<lparr>pos := pos h + n\<rparr>" "fs' = fs\<lparr>files := (files fs)(?f := (files fs ?f)\<lparr>data := v\<rparr>)\<rparr>"
    using w by (auto simp: ramfs_write_def Let_def bnd_eq_Inr_iff)
  then show "handle_ok fs' h'" "data_grows fs fs'"
    using ok insert_bytes_Inr [OF v(1)] by (auto simp: handle_ok_def data_grows_def)
  assume fs: "ramfs_ok fs"
  show "ramfs_ok fs'"
  proof (rule ramfs_okI)
    fix d e
    assume "d < next_dir fs'" "e \<in> set (entries (dirs fs' d))"
    then show "entry_ok fs' d e" by (intro entry_ok_mono [OF ramfs_okD [OF fs]]) (auto simp: v(3))
  qed (use fs in \<open>simp add: v(3) ramfs_ok_def\<close>)
qed

lemma all_list_update: "\<forall>x\<in>set xs. P x \<Longrightarrow> P y \<Longrightarrow> \<forall>x\<in>set (xs[i := y]). P x"
  using set_update_subset_insert [of xs i y] by blast

lemma fs_step_ok:
  assumes "fs_step s s'" and "fs_sys_ok s"
  shows "fs_sys_ok s'"
  using assms
proof (cases rule: fs_step.cases)
  case (fs_open_file p h)
  then have "handle_ok (store s) h"
    using assms(2) find_file_less [of "store s" 0]
    by (auto simp: ramfs_open_file_def fs_sys_ok_def ramfs_ok_def split: if_splits option.splits)
  then show ?thesis using fs_open_file assms(2) by (auto simp: fs_sys_ok_def)
next
  case (fs_read i buf n buf' h)
  then have "handle_ok (store s) h" using assms(2) read_handle [OF _ fs_read(3)] by (simp add: fs_sys_ok_def)
  then show ?thesis using fs_read(1) assms(2) all_list_update [of "handles s" "handle_ok (store s)" h i]
    by (simp add: fs_sys_ok_def)
next
  case (fs_write i bs n h fs')
  then have "handle_ok (store s) (handles s ! i)" using assms(2) by (simp add: fs_sys_ok_def)
  note w = write_handle [OF this fs_write(3)]
  have "\<forall>h\<in>set (handles s). handle_ok fs' h" using assms(2) handle_ok_mono [OF _ w(2)] by (simp add: fs_sys_ok_def)
  then show ?thesis using fs_write(1) assms(2) w(1,3) all_list_update [of "handles s" "handle_ok fs'" h i]
    by (simp add: fs_sys_ok_def)
next
  case (fs_drop i)
  then show ?thesis using assms(2) by (auto simp: fs_sys_ok_def dest: in_set_takeD in_set_dropD)
next
  case (fs_create_file p h fs')
  then show ?thesis using assms(2) create_file_ok create_file_handle handle_ok_mono [OF _ data_grows_ops(1)]
    by (auto simp: fs_sys_ok_def)
next
  case (fs_create_file_error p e fs')
  then show ?thesis using assms(2) create_file_ok handle_ok_mono [OF _ data_grows_ops(1)]
    by (auto simp: fs_sys_ok_def)
next
  case (fs_create_dir p r fs')
  then show ?thesis using assms(2) create_dir_ok handle_ok_mono [OF _ data_grows_ops(2)]
    by (auto simp: fs_sys_ok_def)
next
  case (fs_delete p r fs')
  then show ?thesis using assms(2) delete_ok handle_ok_mono [OF _ data_grows_ops(3)]
    by (auto simp: fs_sys_ok_def)
qed

definition fs_start :: fs_sys where
  "fs_start = \<lparr>store = ramfs_new, handles = []\<rparr>"

lemma fs_reachable_ok: "fs_step\<^sup>*\<^sup>* fs_start s \<Longrightarrow> fs_sys_ok s"
proof (induction rule: rtranclp_induct)
  case base
  then show ?case using ramfs_ok_new by (simp add: fs_sys_ok_def fs_start_def)
qed (rule fs_step_ok)

section \<open>Properties\<close>

text \<open>
  C12. In every state a program can reach from an empty file system, by calls in any order
  and on any paths: a directory has one path only, and an open handle stands within its file.
  So reading and writing through an open handle never panics as long as positions fit a
  machine word.
\<close>

theorem ramfs_reachable:
  assumes "fs_step\<^sup>*\<^sup>* fs_start s"
  shows "(\<forall>cs cs' d. dir_at (store s) cs = Some d \<and> dir_at (store s) cs' = Some d \<longrightarrow> cs = cs') \<and>
    (\<forall>h\<in>set (handles s). \<forall>buf. length (data (files (store s) (handle_inner h))) + length buf < 2 ^ 64 \<longrightarrow>
       (\<exists>n buf' h'. ramfs_read (store s) h buf = Inr (n, buf', h')) \<and>
       (\<exists>h' fs'. ramfs_write (store s) h buf = Inr (length buf, h', fs')))"
proof -
  have ok: "fs_sys_ok s" by (rule fs_reachable_ok [OF assms])
  have "\<forall>cs cs' d. dir_at (store s) cs = Some d \<and> dir_at (store s) cs' = Some d \<longrightarrow> cs = cs'"
    using dir_at_inj ok by (auto simp: fs_sys_ok_def)
  moreover have "(\<exists>n buf' h'. ramfs_read (store s) h buf = Inr (n, buf', h')) \<and>
      (\<exists>h' fs'. ramfs_write (store s) h buf = Inr (length buf, h', fs'))"
    if "h \<in> set (handles s)" "length (data (files (store s) (handle_inner h))) + length buf < 2 ^ 64" for h buf
  proof -
    have "pos h \<le> length (data (files (store s) (handle_inner h)))"
      using ok that(1) by (simp add: fs_sys_ok_def handle_ok_def)
    moreover from this that(2) have "pos h + length buf < 2 ^ 64" by simp
    ultimately show ?thesis using ramfs_write_eq [of h "store s" buf] ramfs_read_eq [of h buf "store s"]
      by (simp add: Let_def)
  qed
  ultimately show ?thesis by blast
qed

theorem ramfs_reachable_witness:
  "\<exists>n h' fs'. ramfs_write (add_file ramfs_new 0 ''a'') (handle_new 0) [1, 2] = Inr (n, h', fs')"
proof -
  have "ramfs_create_file (store fs_start) (abs_path ([] @ [''a''])) =
      Inr (Inr (handle_new 0), add_file ramfs_new 0 ''a'')"
    by (subst create_file_eq) (simp_all add: component_def fs_start_def ramfs_new_def)
  from fs_create_file [OF this]
  have "fs_step\<^sup>*\<^sup>* fs_start \<lparr>store = add_file ramfs_new 0 ''a'', handles = [handle_new 0]\<rparr>"
    by (simp add: fs_start_def r_into_rtranclp)
  note r = ramfs_reachable [OF this, THEN conjunct2, rule_format, of "handle_new 0" "[1, 2]", THEN conjunct2]
  show ?thesis using r by (simp add: handle_new_def) blast
qed

text \<open>
  C26. \<open>create_file\<close> on a path with proper components. If the parent directory is missing it
  reports so and changes nothing. Otherwise it succeeds, with a handle at the start of a new empty file that no path led to before, and no directory and no data
  changes. When no file has the name, the new file is found under the path and every other path is as before; this is so also when a directory has the name.
  When a file has the name, every path is as before: the new file is hidden behind the old one, and only the returned handle reaches it. The
  documentation of the errors demands \<open>PathAlreadyExists\<close> when the name is taken, which the code never returns.
\<close>

theorem create_file_spec:
  assumes "ramfs_ok fs" and "\<forall>c\<in>set (cs @ [c]). component c"
  shows "case dir_at fs cs of
      None \<Rightarrow> ramfs_create_file fs (abs_path (cs @ [c])) = Inr (Inl DirectoryDoesNotExist, fs)
    | Some d \<Rightarrow> \<exists>f fs'. ramfs_create_file fs (abs_path (cs @ [c])) = Inr (Inr \<lparr>handle_inner = f, pos = 0\<rparr>, fs') \<and>
        data (files fs' f) = [] \<and> dir_at fs' = dir_at fs \<and> (\<forall>cs' c'. file_at fs cs' c' \<noteq> Some f) \<and>
        (\<forall>g. g \<noteq> f \<longrightarrow> files fs' g = files fs g) \<and>
        (if file_at fs cs c = None
         then \<forall>cs' c'. file_at fs' cs' c' = (if cs' = cs \<and> c' = c then Some f else file_at fs cs' c')
         else file_at fs' = file_at fs)"
proof (cases "dir_at fs cs")
  case None
  then show ?thesis using create_file_eq [OF assms(2), of fs] by simp
next
  case (Some d)
  have "file_at fs cs' c' \<noteq> Some (next_file fs)" for cs' c' using file_at_less [OF assms(1), of cs' c'] by blast
  then show ?thesis using Some
      create_file_eq [OF assms(2), of fs] dir_at_add_file [of fs d c] file_at_add_file [OF assms(1) Some, of c]
    by (auto simp: handle_new_def fun_eq_iff intro!: exI [of _ "next_file fs"] exI [of _ "add_file fs d c"])
qed

theorem create_file_spec_witness:
  "\<exists>f fs'. ramfs_create_file ramfs_new ''/hello.txt'' = Inr (Inr \<lparr>handle_inner = f, pos = 0\<rparr>, fs') \<and>
     file_at fs' [] ''hello.txt'' = Some f"
proof -
  have n: "file_at ramfs_new [] ''hello.txt'' = None" by (simp add: file_at_def)
  have "\<forall>c\<in>set ([] @ [''hello.txt'']). component c" by (simp add: component_def)
  from create_file_spec [OF ramfs_ok_new this] n obtain f fs' where
    "ramfs_create_file ramfs_new (abs_path ([] @ [''hello.txt''])) = Inr (Inr \<lparr>handle_inner = f, pos = 0\<rparr>, fs')"
    "\<forall>cs' c'. file_at fs' cs' c' = (if cs' = [] \<and> c' = ''hello.txt'' then Some f else file_at ramfs_new cs' c')"
    by auto
  then show ?thesis by (auto simp: abs_path_def)
qed

text \<open>
  \<open>create_dir\<close> on a path with proper components: with a missing parent it reports so;
  otherwise an empty directory appears at the path unless one is there already, and nothing
  else changes.
\<close>

lemma create_dir_spec:
  assumes "ramfs_ok fs" and "\<forall>c\<in>set (cs @ [c]). component c"
  shows "case dir_at fs cs of
      None \<Rightarrow> ramfs_create_dir fs (abs_path (cs @ [c])) = Inr (Inl DirectoryDoesNotExist, fs)
    | Some d \<Rightarrow> \<exists>fs'. ramfs_create_dir fs (abs_path (cs @ [c])) = Inr (Inr (), fs') \<and>
        (\<forall>cs'. (dir_at fs' cs' \<noteq> None) = (cs' = cs @ [c] \<or> dir_at fs cs' \<noteq> None)) \<and>
        (\<forall>cs'. dir_at fs cs' \<noteq> None \<longrightarrow> dir_at fs' cs' = dir_at fs cs') \<and>
        file_at fs' = file_at fs \<and> files fs' = files fs"
proof (cases "dir_at fs cs")
  case None
  then show ?thesis using create_dir_eq [OF assms(2), of fs] by simp
next
  case (Some d)
  then show ?thesis
    using create_dir_eq [OF assms(2), of fs] dir_at_add_dir [OF assms(1) Some, of c]
      file_at_add_dir [OF assms(1) Some, of c]
    by (auto simp: fun_eq_iff intro!: exI [of _ "add_dir fs d c"])
qed

text \<open>
  Deleting a name that is not there succeeds and changes nothing.
\<close>

lemma delete_missing:
  assumes "\<forall>c\<in>set (cs @ [c]). component c" and "dir_at fs cs = Some d"
    and "\<forall>e\<in>set (entries (dirs fs d)). entry_name fs e \<noteq> c"
  shows "ramfs_delete fs (abs_path (cs @ [c])) = Inr (Inr (), fs)"
proof -
  have "filter (\<lambda>e. entry_name fs e \<noteq> c) (entries (dirs fs d)) = entries (dirs fs d)"
    using assms(3) by (simp add: filter_id_conv)
  then have "remove_name fs d c = fs" by (simp add: remove_name_def)
  then show ?thesis using delete_eq [OF assms(1), of fs] assms(2) by simp
qed

text \<open>
  C27. \<open>delete\<close> on a path with proper components. With a missing parent it reports so. When the name is not in the parent, it succeeds and changes
  nothing, although the documentation of the errors demands \<open>PathDoesNotExist\<close> of \<open>delete\<close> for such a path. When the name is there, it removes exactly
  the subtree at the path: every directory and file at or below it is gone and every other one is as before; open handles keep their data.
\<close>

theorem delete_spec:
  assumes "ramfs_ok fs" and "\<forall>c\<in>set (cs @ [c]). component c"
  shows "case dir_at fs cs of
      None \<Rightarrow> ramfs_delete fs (abs_path (cs @ [c])) = Inr (Inl PathDoesNotExist, fs)
    | Some d \<Rightarrow>
        if ramfs_file_type fs (abs_path (cs @ [c])) = Inr (Inl PathDoesNotExist)
        then ramfs_delete fs (abs_path (cs @ [c])) = Inr (Inr (), fs)
        else \<exists>fs'. ramfs_delete fs (abs_path (cs @ [c])) = Inr (Inr (), fs') \<and>
          (\<forall>cs'. dir_at fs' cs' = (if prefix (cs @ [c]) cs' then None else dir_at fs cs')) \<and>
          (\<forall>cs' c'. file_at fs' cs' c' = (if prefix (cs @ [c]) (cs' @ [c']) then None else file_at fs cs' c')) \<and>
          files fs' = files fs"
proof (cases "dir_at fs cs")
  case None
  then show ?thesis using delete_eq [OF assms(2), of fs] by simp
next
  case (Some d)
  have "ramfs_delete fs (abs_path (cs @ [c])) = Inr (Inr (), fs)"
    if "ramfs_file_type fs (abs_path (cs @ [c])) = Inr (Inl PathDoesNotExist)"
    by (rule delete_missing [OF assms(2) Some])
      (use that Some file_type_eq [OF assms(2), of fs] in \<open>auto simp: find_None_iff split: option.splits\<close>)
  then show ?thesis using Some
      delete_eq [OF assms(2), of fs] dir_at_remove_name [OF assms(1) Some, of c]
      file_at_remove_name [OF assms(1) Some, of c]
    by (auto intro!: exI [of _ "remove_name fs d c"])
qed

theorem delete_spec_witness:
  "\<exists>fs'. ramfs_delete (add_dir ramfs_new 0 ''usr'') ''/usr'' = Inr (Inr (), fs') \<and> dir_at fs' [''usr''] = None"
proof -
  have "ramfs_ok (add_dir ramfs_new 0 ''usr'')"
    by (rule ramfs_ok_add_dir [OF ramfs_ok_new]) (simp_all add: ramfs_new_def)
  moreover have "ramfs_file_type (add_dir ramfs_new 0 ''usr'') (abs_path ([] @ [''usr''])) \<noteq> Inr (Inl PathDoesNotExist)"
    by (subst file_type_eq) (simp_all add: component_def add_dir_def push_entry_def ramfs_new_def entry_name_def)
  ultimately show ?thesis using delete_spec [of "add_dir ramfs_new 0 ''usr''" "[]" "''usr''"] by (force simp: component_def abs_path_def)
qed

text \<open>
  C13. What is written to a new file is read back: after creating a file under a free name and
  writing bytes to it, opening the path gives a handle from which a large enough buffer
  receives exactly these bytes.
\<close>

theorem create_write_open_read:
  assumes ok: "ramfs_ok fs" and cs: "\<forall>c\<in>set (cs @ [c]). component c"
    and d: "dir_at fs cs = Some d" and new: "file_at fs cs c = None"
    and len: "length bs \<le> length buf" "length buf < 2 ^ 64"
  shows "\<exists>h fs1 h' fs2 g g'. ramfs_create_file fs (abs_path (cs @ [c])) = Inr (Inr h, fs1) \<and>
    ramfs_write fs1 h bs = Inr (length bs, h', fs2) \<and>
    ramfs_open_file fs2 (abs_path (cs @ [c])) = Inr (Inr g) \<and>
    ramfs_read fs2 g buf = Inr (length bs, bs @ drop (length bs) buf, g')"
proof -
  let ?f = "next_file fs" and ?fs1 = "add_file fs d c"
  let ?fs2 = "set_data ?fs1 ?f bs"
  have w: "ramfs_write ?fs1 (handle_new ?f) bs = Inr (length bs, \<lparr>handle_inner = ?f, pos = length bs\<rparr>, ?fs2)"
    using len by (subst ramfs_write_eq) (simp_all add: handle_new_def Let_def set_data_def)
  have "ramfs_open_file ?fs2 (abs_path (cs @ [c])) = Inr (Inr (handle_new ?f))"
    using open_file_eq [OF cs, of ?fs2] file_at_add_file [OF ok d, of c] new by (simp add: file_at_set_data)
  moreover have "ramfs_read ?fs2 (handle_new ?f) buf =
      Inr (length bs, bs @ drop (length bs) buf, \<lparr>handle_inner = ?f, pos = length bs\<rparr>)"
    using len by (subst ramfs_read_eq) (simp_all add: handle_new_def Let_def set_data_def)
  ultimately show ?thesis using create_file_eq [OF cs, of fs] d w by simp
qed

theorem create_write_open_read_witness:
  "\<exists>h fs1 h' fs2 g g'. ramfs_create_file ramfs_new ''/hello.txt'' = Inr (Inr h, fs1) \<and>
    ramfs_write fs1 h [104, 105] = Inr (2, h', fs2) \<and>
    ramfs_open_file fs2 ''/hello.txt'' = Inr (Inr g) \<and>
    ramfs_read fs2 g [0, 0, 0] = Inr (2, [104, 105, 0], g')"
proof -
  have "\<exists>h fs1 h' fs2 g g'. ramfs_create_file ramfs_new (abs_path ([] @ [''hello.txt''])) = Inr (Inr h, fs1) \<and>
    ramfs_write fs1 h [104, 105] = Inr (length [104, 105 :: u8], h', fs2) \<and>
    ramfs_open_file fs2 (abs_path ([] @ [''hello.txt''])) = Inr (Inr g) \<and>
    ramfs_read fs2 g [0, 0, 0] = Inr (length [104, 105 :: u8], [104, 105] @ drop (length [104, 105 :: u8]) [0, 0, 0], g')"
    by (rule create_write_open_read [OF ramfs_ok_new, of _ _ 0])
       (simp_all add: component_def file_at_def ramfs_new_def)
  then show ?thesis by (simp add: abs_path_def numeral_2_eq_2)
qed

text \<open>
  Writing inserts: bytes written at a position move the rest of the file up instead of
  replacing it.
\<close>

lemma write_inserts:
  assumes "handle_ok fs h" and "pos h + length bs < 2 ^ 64"
  shows "\<exists>fs'. ramfs_write fs h bs = Inr (length bs, h\<lparr>pos := pos h + length bs\<rparr>, fs') \<and>
    data (files fs' (handle_inner h)) =
      take (pos h) (data (files fs (handle_inner h))) @ bs @ drop (pos h) (data (files fs (handle_inner h))) \<and>
    (\<forall>g. g \<noteq> handle_inner h \<longrightarrow> files fs' g = files fs g)"
  using assms ramfs_write_eq [of h fs bs] by (simp add: handle_ok_def Let_def)

text \<open>
  The root has no file name: creating a file or a directory at \<open>/\<close> panics in every state
  instead of returning an error.
\<close>

lemma create_root_panics:
  "ramfs_create_file fs ''/'' = Inl UnwrapNone \<and> ramfs_create_dir fs ''/'' = Inl UnwrapNone"
proof -
  have p: "parent ''/'' = Some ''/''" by (simp add: parent_eq_self)
  have r: "has_root ''/''" "lookup_split fs ''/'' = Inr (Some 0)"
    by (simp_all add: has_root_iff lookup_split_def is_root_def)
  then show ?thesis
    by (simp add: ramfs_create_file_def ramfs_create_dir_def p filename_eq)
qed

text \<open>
  The paths that \<open>open_dir\<close> lists lack the separator between the directory and the name.
\<close>

lemma open_dir_paths:
  "\<exists>fs. ramfs_open_dir fs ''/hello'' = Inr (Inr [\<lparr>info_file_type = FileT, info_path = ''/hellotest.txt''\<rparr>]) \<and>
     ramfs_ok fs \<and> file_at fs [''hello''] ''test.txt'' \<noteq> None"
proof -
  let ?fs = "add_file (add_dir ramfs_new 0 ''hello'') (Suc 0) ''test.txt''"
  have "ramfs_ok (add_dir ramfs_new 0 ''hello'')"
    by (rule ramfs_ok_add_dir [OF ramfs_ok_new]) (simp_all add: ramfs_new_def)
  then have "ramfs_ok ?fs" by (rule ramfs_ok_add_file) (simp_all add: ramfs_new_def)
  moreover have ds: "dirs (add_dir ramfs_new 0 ''hello'') =
      (dirs ramfs_new)(1 := \<lparr>dir_name = ''hello'', entries = [], dir_parent = 0\<rparr>,
        0 := (dirs ramfs_new 0)\<lparr>entries := [DirE 1]\<rparr>)"
    by (subst dirs_add_dir) simp_all
  have at: "dir_at ?fs [''hello''] = Some 1" by (simp add: dir_at_def ds)
  have "lookup_relative ?fs (abs_path [''hello'']) = Inr (dir_at ?fs [''hello''])"
    by (rule lookup_relative_eq) (simp_all add: component_def)
  then have "ramfs_open_dir ?fs ''/hello'' = Inr (Inr [\<lparr>info_file_type = FileT, info_path = ''/hellotest.txt''\<rparr>])"
    by (simp add: abs_path_def ramfs_open_dir_def has_root_iff at ds entry_type_def entry_name_def path_add_def)
  moreover have "file_at ?fs [''hello''] ''test.txt'' \<noteq> None" by (simp add: file_at_def at ds)
  ultimately show ?thesis by blast
qed

end
