(* ===== verification/Vfs.thy ===== *)
theory Vfs
  imports Ramfs
begin

text \<open>
  The virtual file system: \<open>src/fs/vfs.rs\<close>. It holds a root file system and a list of mounts, all
  behind the trait \<open>FileSystem\<close>, so its operations take the methods of the trait that they call as
  arguments. The locale \<open>file_system\<close> is what the documentation of the trait promises of these
  methods, and the in-memory file system keeps it. The mounted file systems of the source return boxed files; the type of the
  handles is a parameter here, and for the in-memory file system it is that of its own handles. The read-write lock is held for the whole of
  each access to the mounts.
\<close>

section \<open>Mounts\<close>

record 'fs mount =
  mount_path :: path
  filesystem :: 'fs

record 'fs vfs =
  vfs_root :: 'fs
  mounts :: "'fs mount list"

definition is_ok :: "'e + 'a \<Rightarrow> bool" where
  "is_ok r = (case r of Inl _ \<Rightarrow> False | Inr _ \<Rightarrow> True)"

definition fs_exists :: "('fs \<Rightarrow> path \<Rightarrow> (vfs_error + file_type) run) \<Rightarrow> 'fs \<Rightarrow> path \<Rightarrow> bool run" where
  "fs_exists ftype fs p = bnd (ftype fs p) (\<lambda>r. Inr (is_ok r))"

definition vfs_mount ::
  "('fs \<Rightarrow> path \<Rightarrow> (vfs_error + file_type) run) \<Rightarrow> 'fs vfs \<Rightarrow> 'fs \<Rightarrow> path
     \<Rightarrow> ((vfs_error + unit) \<times> 'fs vfs) run" where
  "vfs_mount ftype v fs p =
     (if \<not> has_root p then Inr (Inl PathIsNotAbsolute, v)
      else bnd (fs_exists ftype (vfs_root v) p) (\<lambda>there.
        if there then Inr (Inl PathAlreadyExists, v)
        else if find (\<lambda>m. mount_path m = p) (mounts v) \<noteq> None then Inr (Inl PathAlreadyExists, v)
        else Inr (Inr (), v\<lparr>mounts := mounts v @ [\<lparr>mount_path = p, filesystem = fs\<rparr>]\<rparr>)))"

fun open_file_in_mounts ::
  "('fs \<Rightarrow> path \<Rightarrow> (vfs_error + 'h) run) \<Rightarrow> 'fs mount list \<Rightarrow> path \<Rightarrow> (vfs_error + 'h) run" where
  "open_file_in_mounts opn [] p = Inr (Inl PathDoesNotExist)"
| "open_file_in_mounts opn (m # ms) p =
     (case relative_to p (mount_path m) of
        Some q \<Rightarrow> opn (filesystem m) q
      | None \<Rightarrow> open_file_in_mounts opn ms p)"

definition vfs_open_file ::
  "('fs \<Rightarrow> path \<Rightarrow> (vfs_error + 'h) run) \<Rightarrow> 'fs vfs \<Rightarrow> path \<Rightarrow> (vfs_error + 'h) run" where
  "vfs_open_file opn v p =
     (if \<not> has_root p then Inr (Inl PathIsNotAbsolute)
      else bnd (opn (vfs_root v) p) (\<lambda>r.
           bnd (open_file_in_mounts opn (mounts v) p) (\<lambda>r'.
           Inr (case r of Inr h \<Rightarrow> Inr h | Inl _ \<Rightarrow> r'))))"

text \<open>The other methods are not written yet.\<close>

definition vfs_file_type :: "'fs vfs \<Rightarrow> path \<Rightarrow> (vfs_error + file_type) run" where
  "vfs_file_type v p = Inl NotImplemented"

definition vfs_create_file :: "'fs vfs \<Rightarrow> path \<Rightarrow> (vfs_error + 'h) run" where
  "vfs_create_file v p = Inl NotImplemented"

definition vfs_create_dir :: "'fs vfs \<Rightarrow> path \<Rightarrow> (vfs_error + unit) run" where
  "vfs_create_dir v p = Inl NotImplemented"

definition vfs_delete :: "'fs vfs \<Rightarrow> path \<Rightarrow> (vfs_error + unit) run" where
  "vfs_delete v p = Inl NotImplemented"

definition vfs_open_dir :: "'fs vfs \<Rightarrow> path \<Rightarrow> (vfs_error + dir_info list) run" where
  "vfs_open_dir v p = Inl NotImplemented"

text \<open>The mounts of a virtual file system are absolute and distinct.\<close>

definition vfs_ok :: "('fs \<Rightarrow> bool) \<Rightarrow> 'fs vfs \<Rightarrow> bool" where
  "vfs_ok ok v \<longleftrightarrow> ok (vfs_root v) \<and> distinct (map mount_path (mounts v)) \<and>
     (\<forall>m\<in>set (mounts v). has_root (mount_path m))"

text \<open>A path with proper components has no two separators in a row, so no relative path is absolute.\<close>

lemma no_double_slash: "components cs \<Longrightarrow> abs_path cs \<noteq> u @ slash # slash # w"
proof (induction cs arbitrary: u)
  case (Cons c cs)
  have c: "c \<noteq> []" "slash \<notin> set c" using Cons.prems by (simp_all add: component_def)
  have e: "abs_path (c # cs) = slash # c @ abs_path cs" by (simp add: abs_path_def)
  show ?case
  proof
    assume "abs_path (c # cs) = u @ slash # slash # w"
    then consider "c @ abs_path cs = slash # w" | u' where "c @ abs_path cs = u' @ slash # slash # w"
      by (cases u) (auto simp: e)
    then show False
    proof cases
      case 1
      then show ?thesis using c by (cases c) auto
    next
      case 2
      then show ?thesis using Cons.IH Cons.IH [of "[]"] Cons.prems c
        by (auto simp: append_eq_append_conv2 append_eq_Cons_conv)
    qed
  qed
qed (simp add: abs_path_def)

lemma relative_no_root:
  assumes "components cs" and "relative_to (abs_path cs) r = Some q"
  shows "\<not> has_root q"
proof -
  obtain e where e: "abs_path cs = r @ e" "q = (case strip_prefix ''/'' e of Some q \<Rightarrow> q | None \<Rightarrow> e)"
    using assms(2) by (auto simp: relative_to_def strip_prefix_Some)
  show ?thesis
  proof (cases "strip_prefix ''/'' e")
    case None
    then show ?thesis using e(2) strip_prefix_Some [of "''/''" e] by (auto simp: has_root_iff)
  next
    case (Some x)
    then show ?thesis using e no_double_slash [OF assms(1)] by (auto simp: has_root_iff strip_prefix_Some)
  qed
qed

lemma relative_to_None: "relative_to p r = None \<longleftrightarrow> \<not> prefix r p"
proof -
  have "strip_prefix r p = None \<longleftrightarrow> \<not> prefix r p"
    using strip_prefix_Some [of r p] by (cases "strip_prefix r p") (auto simp: prefix_def)
  then show ?thesis by (simp add: relative_to_def)
qed

lemma open_in_mounts:
  assumes "components cs" and rel: "\<And>fs p. \<not> has_root p \<Longrightarrow> opn fs p = Inr (Inl PathIsNotAbsolute)"
  shows "open_file_in_mounts opn ms (abs_path cs) =
    Inr (Inl (if \<exists>m\<in>set ms. prefix (mount_path m) (abs_path cs) then PathIsNotAbsolute else PathDoesNotExist))"
proof (induction ms)
  case (Cons m ms)
  show ?case
  proof (cases "relative_to (abs_path cs) (mount_path m)")
    case None
    then show ?thesis using Cons relative_to_None [of "abs_path cs" "mount_path m"] by simp
  next
    case (Some q)
    then show ?thesis
      using relative_no_root [OF assms(1) Some] rel relative_to_None [of "abs_path cs" "mount_path m"] by auto
  qed
qed simp

lemma relative_to_doubled: "relative_to (r @ slash # q) r = Some q"
  by (simp add: relative_to_def strip_prefix_Some [THEN iffD2])

section \<open>The contract of the trait \<open>FileSystem\<close>\<close>

text \<open>
  The part of the contract that the virtual file system relies on: every method refuses a path
  that is not absolute, and the methods return, for paths with proper components, in all states
  of the file system that satisfy its invariant.
\<close>

locale file_system =
  fixes opn :: "'fs \<Rightarrow> path \<Rightarrow> (vfs_error + 'h) run"
    and ftype :: "'fs \<Rightarrow> path \<Rightarrow> (vfs_error + file_type) run"
    and inv :: "'fs \<Rightarrow> bool"
  assumes open_relative: "\<not> has_root p \<Longrightarrow> opn fs p = Inr (Inl PathIsNotAbsolute)"
    and type_relative: "\<not> has_root p \<Longrightarrow> ftype fs p = Inr (Inl PathIsNotAbsolute)"
    and open_returns: "inv fs \<Longrightarrow> cs \<noteq> [] \<Longrightarrow> components cs \<Longrightarrow> \<exists>r. opn fs (abs_path cs) = Inr r"
    and type_returns: "inv fs \<Longrightarrow> cs \<noteq> [] \<Longrightarrow> components cs \<Longrightarrow> \<exists>r. ftype fs (abs_path cs) = Inr r"
    and type_of_open: "inv fs \<Longrightarrow> cs \<noteq> [] \<Longrightarrow> components cs \<Longrightarrow> opn fs (abs_path cs) = Inr (Inr h) \<Longrightarrow>
      \<exists>t. ftype fs (abs_path cs) = Inr (Inr t)"
begin

lemma mount_ok:
  assumes "vfs_ok inv v" and "vfs_mount ftype v fs p = Inr (r, v')"
  shows "vfs_ok inv v' \<and> vfs_root v' = vfs_root v"
  using assms
  by (auto simp: vfs_ok_def vfs_mount_def bnd_eq_Inr_iff find_None_iff image_iff split: if_splits)

lemma mount_result:
  assumes "vfs_ok inv v" and "components cs" and "cs \<noteq> []"
  shows "\<exists>r v'. vfs_mount ftype v fs (abs_path cs) = Inr (r, v') \<and> vfs_ok inv v' \<and>
    vfs_mount ftype v' fs' (abs_path cs) = Inr (Inl PathAlreadyExists, v') \<and>
    (\<forall>h. opn (vfs_root v) (abs_path cs) = Inr (Inr h) \<longrightarrow> r = Inl PathAlreadyExists)"
proof -
  have i: "inv (vfs_root v)" using assms(1) by (simp add: vfs_ok_def)
  obtain t where t: "ftype (vfs_root v) (abs_path cs) = Inr t" using type_returns [OF i assms(3,2)] by blast
  then obtain r v' where m: "vfs_mount ftype v fs (abs_path cs) = Inr (r, v')"
    using has_root_abs_path [OF assms(3)]
    by (cases "vfs_mount ftype v fs (abs_path cs)") (auto simp: vfs_mount_def fs_exists_def split: if_splits)
  have "vfs_mount ftype v' fs' (abs_path cs) = Inr (Inl PathAlreadyExists, v')"
    using m t has_root_abs_path [OF assms(3)]
    by (auto simp: vfs_mount_def fs_exists_def find_None_iff split: if_splits)
  moreover have "r = Inl PathAlreadyExists" if "opn (vfs_root v) (abs_path cs) = Inr (Inr h)" for h
    using type_of_open [OF i assms(3,2) that] m t has_root_abs_path [OF assms(3)]
    by (auto simp: vfs_mount_def fs_exists_def is_ok_def)
  ultimately show ?thesis using m mount_ok [OF assms(1) m] by blast
qed

end

text \<open>The in-memory file system keeps the contract.\<close>

interpretation ram: file_system ramfs_open_file ramfs_file_type ramfs_ok
proof
  fix fs :: ramfs and p :: path
  assume "\<not> has_root p"
  then show "ramfs_open_file fs p = Inr (Inl PathIsNotAbsolute)"
    and "ramfs_file_type fs p = Inr (Inl PathIsNotAbsolute)"
    by (simp_all add: ramfs_open_file_def ramfs_file_type_def)
next
  fix fs :: ramfs and cs :: "string list"
  assume "cs \<noteq> []" and c: "components cs"
  then obtain ds d where cs: "cs = ds @ [d]" by (cases cs rule: rev_cases) auto
  with c show "\<exists>r. ramfs_open_file fs (abs_path cs) = Inr r" "\<exists>r. ramfs_file_type fs (abs_path cs) = Inr r"
    using open_file_eq [of ds d fs] file_type_eq [of ds d fs] by (auto split: option.splits)
  fix h
  assume "ramfs_open_file fs (abs_path cs) = Inr (Inr h)"
  then obtain x f where "dir_at fs ds = Some x" "first_file fs d (entries (dirs fs x)) = Some f"
    using c cs open_file_eq [of ds d fs] by (auto simp: file_at_def split: option.splits)
  moreover from this have "find (\<lambda>e. entry_name fs e = d) (entries (dirs fs x)) \<noteq> None"
    using first_file_Some [of fs d "entries (dirs fs x)" f] by (auto simp: find_None_iff entry_name_def)
  ultimately show "\<exists>t. ramfs_file_type fs (abs_path cs) = Inr (Inr t)"
    using c cs file_type_eq [of ds d fs] by auto
qed

section \<open>Properties\<close>

text \<open>
  C40. Opening a file through the virtual file system, for any file systems that refuse a path that is not absolute, as the documentation of the errors demands.
  When the path is a sequence of proper components, without two separators in a row, the result
  is that of the root file system, and nothing below a mount is opened, because the mounted file system is asked for a path that is not absolute.
  Only a path with the separator doubled behind the mount point reaches the mounted file system: there, the file of the first mount is opened when the root file system
  has none at the path.
\<close>

theorem vfs_mounts_unreachable:
  assumes "\<And>fs p. \<not> has_root p \<Longrightarrow> opn fs p = Inr (Inl PathIsNotAbsolute)"
    and "\<forall>c\<in>set cs. component c" and "cs \<noteq> []" and "opn (vfs_root v) (abs_path cs) = Inr r"
  shows "vfs_open_file opn v (abs_path cs) = Inr (case r of Inr h \<Rightarrow> Inr h | Inl _ \<Rightarrow>
      Inl (if \<exists>m\<in>set (mounts v). prefix (mount_path m) (abs_path cs) then PathIsNotAbsolute else PathDoesNotExist)) \<and>
    (\<forall>m ms e. mounts v = m # ms \<and> has_root (mount_path m) \<and> opn (vfs_root v) (mount_path m @ slash # abs_path cs) = Inr (Inl e) \<longrightarrow>
      vfs_open_file opn v (mount_path m @ slash # abs_path cs) = opn (filesystem m) (abs_path cs))"
proof
  show "vfs_open_file opn v (abs_path cs) = Inr (case r of Inr h \<Rightarrow> Inr h | Inl _ \<Rightarrow>
      Inl (if \<exists>m\<in>set (mounts v). prefix (mount_path m) (abs_path cs) then PathIsNotAbsolute else PathDoesNotExist))"
    using assms(4) has_root_abs_path [OF assms(3)]
    by (auto simp: vfs_open_file_def open_in_mounts [of cs opn, OF assms(2,1)] split: sum.splits)
  have "has_root (mount_path m @ q)" if "has_root (mount_path m)" for m :: "'a mount" and q
    using that by (auto simp: has_root_iff)
  then show "\<forall>m ms e. mounts v = m # ms \<and> has_root (mount_path m) \<and> opn (vfs_root v) (mount_path m @ slash # abs_path cs) = Inr (Inl e) \<longrightarrow>
      vfs_open_file opn v (mount_path m @ slash # abs_path cs) = opn (filesystem m) (abs_path cs)"
    by (auto simp: vfs_open_file_def relative_to_doubled)
qed

theorem vfs_mounts_unreachable_witness:
  "let v = \<lparr>vfs_root = ramfs_new, mounts = [\<lparr>mount_path = ''/mnt'', filesystem = add_file ramfs_new 0 ''a''\<rparr>]\<rparr> in
    vfs_open_file ramfs_open_file v ''/mnt/a'' = Inr (Inl PathIsNotAbsolute) \<and>
    vfs_open_file ramfs_open_file v ''/mnt//a'' = ramfs_open_file (add_file ramfs_new 0 ''a'') ''/a''"
proof -
  let ?v = "\<lparr>vfs_root = ramfs_new, mounts = [\<lparr>mount_path = ''/mnt'', filesystem = add_file ramfs_new 0 ''a''\<rparr>]\<rparr>"
  have c: "\<forall>c\<in>set ([''mnt''] @ [''a'']). component c" "\<forall>c\<in>set ([] @ [''a'']). component c" by (simp_all add: component_def)
  then have none: "ramfs_open_file (vfs_root ?v) (abs_path ([''mnt''] @ [''a''])) = Inr (Inl PathDoesNotExist)"
    "ramfs_open_file (vfs_root ?v) (abs_path ([] @ [''a''])) = Inr (Inl PathDoesNotExist)"
    by (simp_all only: open_file_eq vfs.select_convs) (simp_all add: file_at_def dir_at_def)
  have "ramfs_open_file ramfs_new ''/mnt//a'' = Inr (Inl PathDoesNotExist)"
    by (simp add: ramfs_open_file_def ramfs_new_def lookup_relative_def lookup_split_def has_root_def is_root_def path_root_def parent_def
        rsplit_once_def filename_def split_from_top_def relative_to_def find_dir.simps find_file.simps unwrap_def)
  then show ?thesis
    using vfs_mounts_unreachable [of ramfs_open_file "[''mnt''] @ [''a'']" ?v, OF ram.open_relative c(1) _ none(1)]
      vfs_mounts_unreachable [of ramfs_open_file "[] @ [''a'']" ?v, OF ram.open_relative c(2) _ none(2)]
    by (simp add: abs_path_def has_root_iff)
qed

text \<open>
  Mounting over an in-memory root: it returns for every path with proper components,
  keeps the mount points distinct and absolute, never covers a file of the root file system,
  and a second mount at the same path is refused.
\<close>

lemma vfs_mount_correct:
  assumes "vfs_ok ramfs_ok v" and "\<forall>c\<in>set cs. component c" and "cs \<noteq> []"
  shows "\<exists>r v'. vfs_mount ramfs_file_type v fs (abs_path cs) = Inr (r, v') \<and> vfs_ok ramfs_ok v' \<and>
    vfs_mount ramfs_file_type v' fs' (abs_path cs) = Inr (Inl PathAlreadyExists, v') \<and>
    (\<forall>h. ramfs_open_file (vfs_root v) (abs_path cs) = Inr (Inr h) \<longrightarrow> r = Inl PathAlreadyExists)"
  by (rule ram.mount_result [OF assms])

end
