(* ===== verification/Self_Tests.thy ===== *)
theory Self_Tests
  imports Test_Runner Vfs Kernel_Memory
begin

text \<open>
  The tests that the source keeps beside its code, as the harness runs them: those of the paths, of the file
  system, of the physical addresses, of the page tables and of the harness itself. The kernel state
  that the tests share is the machine with its page tables. A test that only computes leaves it alone. What the tests of the file system
  take from the heap, the tests of the global allocator and the entry that runs them all are in \<open>Test_Build\<close>.

  Lemmas: each test does what it announces, and so does any sequence of them.
\<close>

section \<open>Tests as functions\<close>

text \<open>A test that does not call \<open>should_panic!\<close> and does not touch the machine.\<close>

definition plain_test :: "unit run \<Rightarrow> machine test_body" where
  "plain_test r m = (False, m, case r of Inl e \<Rightarrow> Some e | Inr _ \<Rightarrow> None)"

abbreviation assert_eq :: "'a \<Rightarrow> 'a \<Rightarrow> unit run" where
  "assert_eq a b \<equiv> assert_that (a = b)"

fun checks :: "bool list \<Rightarrow> unit run" where
  "checks [] = Inr ()"
| "checks (b # bs) = bnd (assert_that b) (\<lambda>_. checks bs)"

section \<open>Paths\<close>

definition test_parents :: "unit run" where
  "test_parents =
    bnd (unwrap (parent ''/usr/foo/tmp.html'')) (\<lambda>par.
    bnd (unwrap (parent par)) (\<lambda>grand_parent.
    checks [par = ''/usr/foo'', grand_parent = ''/usr'', parent grand_parent = Some ''/'', parent ''hello'' = None]))"

definition test_top_folders :: "unit run" where
  "test_top_folders =
    checks [top_folder ''/usr/foo/tmp.html'' = Some ''/'', top_folder ''hello/byebyte/good/bye'' = Some ''hello'',
      top_folder ''bye'' = None, top_folder ''/'' = Some ''/'']"

definition test_relative :: "unit run" where
  "test_relative =
    checks [relative_to ''/usr/foo/tmp/ok.html'' ''/usr/foo'' = Some ''tmp/ok.html'',
      relative_to ''/text.html'' path_root = Some ''text.html'',
      relative_to ''ok/test/testing'' ''/ok/test'' = None]"

section \<open>The file system\<close>

text \<open>\<open>Result::unwrap\<close>, and the bytes of a byte string.\<close>

definition unwrap_ok :: "'e + 'a \<Rightarrow> 'a run" where
  "unwrap_ok r = (case r of Inl _ \<Rightarrow> Inl (Explicit ''called Result::unwrap() on an Err value'') | Inr x \<Rightarrow> Inr x)"

definition byte_string :: "string \<Rightarrow> u8 list" where
  "byte_string s = map (\<lambda>c. of_nat (of_char c)) s"

definition basic_ramfs :: "unit run" where
  "basic_ramfs =
    (let ramfs = ramfs_new; p = ''/hello.txt''; wrote = byte_string ''hello, world!'' in
     bnd (ramfs_open_file ramfs p) (\<lambda>r.
     bnd (assert_eq r (Inl PathDoesNotExist)) (\<lambda>_.
     bnd (ramfs_create_file ramfs p) (\<lambda>(r, ramfs).
     bnd (unwrap_ok r) (\<lambda>h.
     bnd (ramfs_write ramfs h wrote) (\<lambda>(n, h, ramfs).
     bnd (assert_eq n (length wrote)) (\<lambda>_.
     bnd (ramfs_open_file ramfs p) (\<lambda>r.
     bnd (unwrap_ok r) (\<lambda>h.
     bnd (ramfs_read ramfs h (replicate 13 0)) (\<lambda>(n, buf, h).
     bnd (assert_eq n (length wrote)) (\<lambda>_.
     bnd (assert_eq buf wrote) (\<lambda>_.
     bnd (ramfs_create_dir ramfs ''/hello'') (\<lambda>(r, ramfs).
     bnd (unwrap_ok r) (\<lambda>_.
     bnd (ramfs_create_file ramfs ''/hello/test.txt'') (\<lambda>(r, ramfs).
     bnd (unwrap_ok r) (\<lambda>_.
     bnd (ramfs_create_file ramfs ''/doesnotexist/testing.txt'') (\<lambda>(r, ramfs).
     bnd (assert_eq r (Inl DirectoryDoesNotExist)) (\<lambda>_.
     bnd (ramfs_create_dir ramfs ''/doesnotexist/testingg'') (\<lambda>(r, ramfs).
     assert_eq r (Inl DirectoryDoesNotExist))))))))))))))))))))"

definition delete_stuff :: "unit run" where
  "delete_stuff =
    (let ramfs = ramfs_new; p = ''/test.html'' in
     bnd (ramfs_create_file ramfs p) (\<lambda>(r, ramfs).
     bnd (unwrap_ok r) (\<lambda>h.
     bnd (ramfs_write ramfs h (byte_string ''random_nonsense'')) (\<lambda>(n, h, ramfs).
     bnd (ramfs_delete ramfs p) (\<lambda>(r, ramfs).
     bnd (unwrap_ok r) (\<lambda>_.
     bnd (ramfs_open_file ramfs p) (\<lambda>r.
     bnd (assert_eq r (Inl PathDoesNotExist)) (\<lambda>_.
     bnd (ramfs_create_dir ramfs ''/hello'') (\<lambda>(r, ramfs).
     bnd (unwrap_ok r) (\<lambda>_.
     bnd (ramfs_create_file ramfs ''/hello/test.txt'') (\<lambda>(r, ramfs).
     bnd (unwrap_ok r) (\<lambda>_.
     bnd (ramfs_delete ramfs ''/hello'') (\<lambda>(r, ramfs).
     bnd (unwrap_ok r) (\<lambda>_.
     bnd (ramfs_open_dir ramfs ''/hello'') (\<lambda>r.
     bnd (case r of Inl e \<Rightarrow> Inr e | Inr _ \<Rightarrow> Inl (Explicit ''openning the folder worked'')) (\<lambda>e.
     bnd (assert_eq e PathDoesNotExist) (\<lambda>_.
     bnd (ramfs_open_file ramfs ''/hello/test.txt'') (\<lambda>r.
     assert_eq r (Inl PathDoesNotExist)))))))))))))))))))"

definition file_types :: "unit run" where
  "file_types =
    (let ramfs = ramfs_new in
     bnd (ramfs_create_file ramfs ''/test.txt'') (\<lambda>(r, ramfs).
     bnd (unwrap_ok r) (\<lambda>_.
     bnd (ramfs_file_type ramfs ''/test.txt'') (\<lambda>r.
     bnd (assert_eq r (Inr FileT)) (\<lambda>_.
     bnd (ramfs_file_type ramfs ''/some/random/path'') (\<lambda>r.
     bnd (assert_eq r (Inl PathDoesNotExist)) (\<lambda>_.
     bnd (ramfs_create_dir ramfs ''/hello'') (\<lambda>(r, ramfs).
     bnd (unwrap_ok r) (\<lambda>_.
     bnd (ramfs_file_type ramfs ''/hello'') (\<lambda>r.
     assert_eq r (Inr DirectoryT)))))))))))"

section \<open>Physical addresses\<close>

definition test_align_up :: "unit run" where
  "test_align_up =
    bnd (align_up (PhyAddr 0) 1) (\<lambda>a.
    bnd (assert_eq a (PhyAddr 0)) (\<lambda>_.
    bnd (align_up (PhyAddr 0x2) 0x4) (\<lambda>a.
    bnd (assert_eq a (PhyAddr 0x4)) (\<lambda>_.
    bnd (align_up (PhyAddr 0xdeadbeef) 0x1000) (\<lambda>a.
    assert_eq a (PhyAddr 0xdeadc000))))))"

definition test_align_down :: "unit run" where
  "test_align_down =
    bnd (align_down (PhyAddr 1) 1) (\<lambda>a.
    bnd (assert_eq a (PhyAddr 1)) (\<lambda>_.
    bnd (align_up (PhyAddr 0x4) 0x2) (\<lambda>a.
    bnd (assert_eq a (PhyAddr 0x4)) (\<lambda>_.
    bnd (align_down (PhyAddr 0xdeadbeef) 0x1000) (\<lambda>a.
    assert_eq a (PhyAddr 0xdeadb000))))))"

section \<open>Pages and page tables\<close>

definition idx_check :: "u64 \<Rightarrow> nat \<times> nat \<times> nat \<times> nat \<Rightarrow> unit run" where
  "idx_check n x = (case x of (l4, l3, l2, l1) \<Rightarrow>
    checks [level4_idx (Page n) = l4, level3_idx (Page n) = l3, level2_idx (Page n) = l2, level1_idx (Page n) = l1])"

definition page_to_idx :: "unit run" where
  "page_to_idx =
    (let k = of_nat PAGE_TABLE_ENTRY_NUM in
     bnd (idx_check 0 (0, 0, 0, 0)) (\<lambda>_.
     bnd (idx_check 511 (0, 0, 0, 511)) (\<lambda>_.
     bnd (idx_check k (0, 0, 1, 0)) (\<lambda>_.
     bnd (idx_check (k * 5 + 27) (0, 0, 5, 27)) (\<lambda>_.
     bnd (idx_check (k * k + 112) (0, 1, 0, 112)) (\<lambda>_.
     bnd (idx_check (k * k * 112 + k * 69 + 378) (0, 112, 69, 378)) (\<lambda>_.
     idx_check (k * k * k * 5 + k * k * 78 + k * 4 + 33) (5, 78, 4, 33))))))))"

definition page_to_virtual :: "unit run" where
  "page_to_virtual =
    (let k = of_nat PAGE_TABLE_ENTRY_NUM in
     bnd (virt_from (Page 1)) (\<lambda>v.
     bnd (assert_eq v (VirtAddr 0x1000)) (\<lambda>_.
     bnd (virt_from (Page 513)) (\<lambda>v.
     bnd (assert_eq v (VirtAddr 0x201000)) (\<lambda>_.
     bnd (virt_from (Page (k * k * 3 + k))) (\<lambda>v.
     bnd (assert_eq v (VirtAddr 0xc0200000)) (\<lambda>_.
     bnd (page_from (VirtAddr 0xffffffffffffffff)) (\<lambda>p.
     bnd (virt_from p) (\<lambda>v.
     assert_eq v (VirtAddr 0xfffffffffffff000))))))))))"

definition virtual_to_page :: "unit run" where
  "virtual_to_page =
    (let k = of_nat PAGE_TABLE_ENTRY_NUM in
     bnd (page_from (VirtAddr 0x1000)) (\<lambda>p.
     bnd (assert_eq p (Page 1)) (\<lambda>_.
     bnd (page_from (VirtAddr 0x201000)) (\<lambda>p.
     bnd (assert_eq p (Page 513)) (\<lambda>_.
     bnd (page_from (VirtAddr 0xc0200000)) (\<lambda>p.
     assert_eq p (Page (k * k * 3 + k))))))))"

definition canonical_counterpart :: "virt_addr \<Rightarrow> virt_addr" where
  "canonical_counterpart v = (let first_48_bits_mask = 0xffffffffffff in VirtAddr (virt_u64 v AND first_48_bits_mask))"

definition canoincal_pages :: "unit run" where
  "canoincal_pages =
    (let v = VirtAddr 0xffffffffffffffff in
     bnd (page_from v) (\<lambda>p.
     bnd (page_from (canonical_counterpart v)) (\<lambda>q.
     bnd (assert_that (p \<noteq> q)) (\<lambda>_.
     assert_eq (canonical_num p) (canonical_num q)))))"

text \<open>The first entry of the current table that is not present.\<close>

definition absent_entry :: "machine \<Rightarrow> u64 \<Rightarrow> nat option" where
  "absent_entry m t = find (\<lambda>i. \<not> present (tables m t i)) [0..<PAGE_TABLE_ENTRY_NUM]"

text \<open>The part of the test before \<open>should_panic!\<close>, and the part after it.\<close>

definition addr_set_before :: "machine \<Rightarrow> (u64 \<times> machine) run" where
  "addr_set_before m =
    bnd (current m) (\<lambda>t.
    bnd (unwrap (absent_entry m t)) (\<lambda>i.
    bnd (set_addr (PhyAddr 0x1000) PRESENT) (\<lambda>e.
    let m = put_entry m t i e in
    bnd (assert_that (present (tables m t i))) (\<lambda>_.
    bnd (assert_eq (addr (tables m t i)) (PhyAddr 0x1000)) (\<lambda>_.
    Inr (t, m))))))"

definition addr_set_after :: "u64 \<times> machine \<Rightarrow> machine run" where
  "addr_set_after tm = (case tm of (t, m) \<Rightarrow>
    bnd (set_addr (PhyAddr 0x123) PRESENT) (\<lambda>e. Inr (put_entry m t 3 e)))"

definition addr_set :: "machine test_body" where
  "addr_set m =
    (case addr_set_before m of
       Inl e \<Rightarrow> (False, m, Some e)
     | Inr tm \<Rightarrow>
         (case addr_set_after tm of Inl e \<Rightarrow> (True, snd tm, Some e) | Inr m \<Rightarrow> (True, m, None)))"

definition page_present :: "machine \<Rightarrow> unit run" where
  "page_present m =
    bnd (current m) (\<lambda>t.
    bnd (unwrap (absent_entry m t)) (\<lambda>empty_page_dir_idx.
    let k = of_nat PAGE_TABLE_ENTRY_NUM;
        p = Page (of_nat empty_page_dir_idx * k * k * k + 3) in
    bnd (is_present m t p) (\<lambda>b. assert_that (\<not> b))))"

definition should_panic_test :: "machine test_body" where
  "should_panic_test m = (True, m, Some (Explicit ''explicit panic''))"

text \<open>In the order in which the compiler hands the tests to the harness: sorted by their paths.\<close>

definition fs_tests :: "machine testable list" where
  "fs_tests =
    [\<lparr>type_name = ''os_test::fs::path::test::parents'', test_body = plain_test test_parents\<rparr>,
     \<lparr>type_name = ''os_test::fs::path::test::relative'', test_body = plain_test test_relative\<rparr>,
     \<lparr>type_name = ''os_test::fs::path::test::top_folders'', test_body = plain_test test_top_folders\<rparr>,
     \<lparr>type_name = ''os_test::fs::ramfs::test::basic_ramfs'', test_body = plain_test basic_ramfs\<rparr>,
     \<lparr>type_name = ''os_test::fs::ramfs::test::delete_stuff'', test_body = plain_test delete_stuff\<rparr>,
     \<lparr>type_name = ''os_test::fs::ramfs::test::file_types'', test_body = plain_test file_types\<rparr>]"

definition memory_tests :: "machine testable list" where
  "memory_tests =
    [\<lparr>type_name = ''os_test::memory::paging::test::addr_set'', test_body = addr_set\<rparr>,
     \<lparr>type_name = ''os_test::memory::paging::test::canoincal_pages'', test_body = plain_test canoincal_pages\<rparr>,
     \<lparr>type_name = ''os_test::memory::paging::test::page_present'', test_body = (\<lambda>m. plain_test (page_present m) m)\<rparr>,
     \<lparr>type_name = ''os_test::memory::paging::test::page_to_idx'', test_body = plain_test page_to_idx\<rparr>,
     \<lparr>type_name = ''os_test::memory::paging::test::page_to_virtual'', test_body = plain_test page_to_virtual\<rparr>,
     \<lparr>type_name = ''os_test::memory::paging::test::virtual_to_page'', test_body = plain_test virtual_to_page\<rparr>,
     \<lparr>type_name = ''os_test::memory::physical::test::align_down'', test_body = plain_test test_align_down\<rparr>,
     \<lparr>type_name = ''os_test::memory::physical::test::align_up'', test_body = plain_test test_align_up\<rparr>,
     \<lparr>type_name = ''os_test::test::should_panic_test'', test_body = should_panic_test\<rparr>]"

definition self_tests :: "machine testable list" where
  "self_tests = fs_tests @ memory_tests"

section \<open>They pass\<close>

lemmas path_defs = parent_def top_folder_def relative_to_def rsplit_once_def has_root_def is_root_def path_root_def
  filename_def split_from_top_def

lemma path_tests: "test_parents = Inr ()" "test_top_folders = Inr ()" "test_relative = Inr ()"
  by (simp_all add: test_parents_def test_top_folders_def test_relative_def path_defs unwrap_def assert_that_def)

lemmas ramfs_defs = ramfs_new_def ramfs_open_file_def ramfs_create_file_def ramfs_create_dir_def ramfs_delete_def
  ramfs_file_type_def ramfs_open_dir_def ramfs_read_def ramfs_write_def lookup_split_def lookup_relative_def add_file_def
  add_dir_def remove_name_def push_entry_def handle_new_def entry_name_def entry_type_def vec_insert_def
  find_file.simps find_dir.simps usize_add_def

lemma replicate_13: "replicate 13 x = [x, x, x, x, x, x, x, x, x, x, x, x, x]"
  by (simp add: numeral_eq_Suc)

lemma ramfs_tests: "file_types = Inr ()" "delete_stuff = Inr ()" "basic_ramfs = Inr ()"
  by (simp_all add: file_types_def delete_stuff_def basic_ramfs_def replicate_13 byte_string_def ramfs_defs path_defs
      unwrap_def unwrap_ok_def assert_that_def)

lemma align_tests: "test_align_up = Inr ()" "test_align_down = Inr ()"
  by (simp_all add: test_align_up_def test_align_down_def align_up_def align_down_def run_simps assert_that_def)

lemma paging_tests: "page_to_virtual = Inr ()" "virtual_to_page = Inr ()" "canoincal_pages = Inr ()"
  by (simp_all add: page_to_virtual_def virtual_to_page_def canoincal_pages_def virt_from_def page_from_def is_valid_def
      canonical_counterpart_def canonical_num_def CANOINCAL_MASK_def run_simps assert_that_def Let_def)

lemma index_test: "page_to_idx = Inr ()"
  by (simp add: page_to_idx_def idx_check_def level4_idx_def level3_idx_def level2_idx_def level1_idx_def canonical_num_def
      CANOINCAL_MASK_def assert_that_def Let_def)

definition absent_count :: "machine \<Rightarrow> u64 \<Rightarrow> nat" where
  "absent_count m t = length (filter (\<lambda>i. \<not> present (tables m t i)) [0..<PAGE_TABLE_ENTRY_NUM])"

lemma absent_entry_Some:
  assumes "0 < absent_count m t"
  obtains i where "absent_entry m t = Some i" and "i < 512" and "\<not> present (tables m t i)"
proof (cases "absent_entry m t")
  case None
  then have "absent_count m t = 0" by (auto simp: absent_entry_def absent_count_def find_None_iff filter_empty_conv)
  then show ?thesis using assms by simp
next
  case (Some i)
  then have "\<not> present (tables m t i)" "i \<in> set [0..<512]" by (auto simp: absent_entry_def find_Some_iff)
  then show ?thesis using that Some by simp
qed

lemma absent_count_put:
  assumes "i < 512" and "\<not> present (tables m t i)"
  shows "absent_count m t \<le> absent_count (put_entry m t i e) t + 1"
proof -
  let ?A = "\<lambda>m. {j. j < 512 \<and> \<not> present (tables m t j)}"
  have card: "absent_count m t = card (?A m)" for m
    unfolding absent_count_def using distinct_card [of "filter (\<lambda>i. \<not> present (tables m t i)) [0..<512]"]
    by (simp add: conj_commute)
  have "?A m \<subseteq> insert i (?A (put_entry m t i e))" by (auto simp: put_entry_def)
  then have "card (?A m) \<le> card (insert i (?A (put_entry m t i e)))" by (intro card_mono) auto
  also have "\<dots> \<le> card (?A (put_entry m t i e)) + 1" using card_insert_le_m1 by (simp add: card_insert_if)
  finally show ?thesis by (simp add: card)
qed

definition test_ok :: "u64 \<Rightarrow> machine testable \<Rightarrow> bool" where
  "test_ok t x \<longleftrightarrow> (\<forall>m. current m = Inr t \<and> 0 < absent_count m t \<longrightarrow>
    (case test_body x m of (mark, m', r) \<Rightarrow>
      (mark \<longleftrightarrow> r \<noteq> None) \<and> current m' = Inr t \<and> absent_count m t \<le> absent_count m' t + 1))"

lemma plain_test_ok: "test_ok t \<lparr>type_name = n, test_body = plain_test (Inr ())\<rparr>"
  by (simp add: test_ok_def plain_test_def)

lemma addr_set_ok: "test_ok t \<lparr>type_name = n, test_body = addr_set\<rparr>"
proof -
  have "\<exists>m' e. addr_set m = (True, m', Some e) \<and> current m' = Inr t \<and> absent_count m t \<le> absent_count m' t + 1"
    if c: "current m = Inr t" and a: "0 < absent_count m t" for m
  proof -
    obtain i where i: "absent_entry m t = Some i" "i < 512" "\<not> present (tables m t i)"
      by (rule absent_entry_Some [OF a])
    let ?m = "put_entry m t i (PageTableEntry 0x1001)"
    have "addr_set_before m = Inr (t, ?m)"
      using c i by (simp add: addr_set_before_def set_addr_def unwrap_def assert_that_def PRESENT_def put_entry_def
          present_def contains_def flags_def addr_def physical_address_mask_def)
    moreover have "addr_set_after (t, ?m) = Inl AssertFailed"
      by (simp add: addr_set_after_def set_addr_def assert_that_def)
    moreover have "current ?m = Inr t" using c by (simp add: current_def put_entry_def)
    ultimately show ?thesis using absent_count_put [OF i(2,3)] by (simp add: addr_set_def)
  qed
  then show ?thesis by (fastforce simp: test_ok_def)
qed

lemma page_present_ok: "test_ok t \<lparr>type_name = n, test_body = (\<lambda>m. plain_test (page_present m) m)\<rparr>"
proof -
  have "page_present m = Inr ()" if c: "current m = Inr t" and a: "0 < absent_count m t" for m
  proof -
    obtain i where i: "absent_entry m t = Some i" "i < 512" "\<not> present (tables m t i)"
      by (rule absent_entry_Some [OF a])
    let ?p = "Page (of_nat i * 512 * 512 * 512 + 3)"
    have "unat (of_nat (i * 134217728 + 3) :: u64) = i * 134217728 + 3" using i(2) by (intro unat_of_nat_less) simp
    then have "canonical_num ?p = i * 134217728 + 3"
      using i(2) by (simp add: canonical_num_eq mult.commute [of "134217728 :: u64"])
    then have "level4_idx ?p = i" by (simp add: level4_idx_def)
    then show ?thesis
      using c i by (simp add: page_present_def unwrap_def is_present_def page_entry_def get_entry_def assert_that_def)
  qed
  then show ?thesis by (simp add: test_ok_def plain_test_def)
qed

lemma should_panic_test_ok: "test_ok t \<lparr>type_name = n, test_body = should_panic_test\<rparr>"
  by (simp add: test_ok_def should_panic_test_def)

lemma self_tests_ok: "x \<in> set self_tests \<Longrightarrow> test_ok t x"
  unfolding self_tests_def fs_tests_def memory_tests_def
  by (auto simp: path_tests ramfs_tests align_tests paging_tests index_test plain_test_ok addr_set_ok page_present_ok
      should_panic_test_ok)

lemma passes_of_ok:
  assumes "\<forall>x \<in> set ts. test_ok t x" and "current m = Inr t" and "length ts \<le> absent_count m t"
  shows "fst (passes_of ts m) = replicate (length ts) True"
  using assms
proof (induction ts arbitrary: m)
  case (Cons x ts)
  obtain mark m' r where b: "test_body x m = (mark, m', r)" by (metis prod_cases3)
  have m': "mark \<longleftrightarrow> r \<noteq> None" "current m' = Inr t" "absent_count m t \<le> absent_count m' t + 1"
    using Cons.prems b unfolding test_ok_def by fastforce+
  have "fst (passes_of ts m') = replicate (length ts) True"
    by (rule Cons.IH) (use Cons.prems m' in auto)
  then show ?case using m'(1) b by (cases "passes_of ts m'") simp
qed simp

text \<open>
  The kernel's own tests pass: any of the modelled tests, in any order and as often as the
  top-level page table has absent entries for, end with the report that all have succeeded and none has failed.
\<close>

lemma self_tests_pass:
  assumes "ts \<noteq> []" and "set ts \<subseteq> set self_tests" and "current m = Inr t" and "length ts \<le> absent_count m t"
  shows "success_tests_num (test_runner show_panic ts (TESTS m tr)) = length ts \<and>
    failed_tests_num (test_runner show_panic ts (TESTS m tr)) = 0 \<and>
    ended (test_runner show_panic ts (TESTS m tr))"
proof -
  obtain ps m' where ps: "passes_of ts m = (ps, m')" by fastforce
  have "ps = replicate (length ts) True"
    using passes_of_ok [of ts t m] self_tests_ok assms(2-4) ps by auto
  then show ?thesis using test_runner_result [OF assms(1) ps] by simp
qed

end
