(* ===== verification/Hpet.thy ===== *)
theory Hpet
  imports Io_Apic
begin

text \<open>
  The high precision event timer (\<open>src/dev/hpet.rs\<close>): its register page as 64-bit cells at their
  virtual addresses, the configuration of the device and of one of its timers. The description of
  the device in the ACPI tables comes from \<open>Acpi\<close>.
\<close>

section \<open>Registers\<close>

record hpet =
  hpet_base :: u64
  hpet_mem :: "u64 \<Rightarrow> u64"

definition hpet_base_addr :: "'t acpi \<Rightarrow> vm \<Rightarrow> (virt_addr \<times> vm) run" where
  "hpet_base_addr A st =
    bnd (hpet_table A st) (\<lambda>(hpet_info, st).
    bnd (if \<not> main_counter_is_64bits hpet_info then Inl (Explicit ''HPET IS NOT CAPABLE OF 64 BITS!'') else Inr ()) (\<lambda>_.
    map_device (of_nat (base_address hpet_info)) st))"

definition GENERAL_CAPABILITIES_REGISTER :: u64 where "GENERAL_CAPABILITIES_REGISTER = 0"
definition GENERAL_CONFIGURATION_REGISTER :: u64 where "GENERAL_CONFIGURATION_REGISTER = 0x10"
definition MAIN_COUNTER_VAL_REGISTER :: u64 where "MAIN_COUNTER_VAL_REGISTER = 0xf0"
definition LEG_RT_CNF :: u64 where "LEG_RT_CNF = 0b10"
definition ENABLE_CNF :: u64 where "ENABLE_CNF = 0b1"

lemmas hpet_consts = GENERAL_CAPABILITIES_REGISTER_def GENERAL_CONFIGURATION_REGISTER_def
  MAIN_COUNTER_VAL_REGISTER_def LEG_RT_CNF_def ENABLE_CNF_def

definition hpet_read :: "u64 \<Rightarrow> hpet \<Rightarrow> u64 run" where
  "hpet_read reg h = bnd (chk_add (hpet_base h) reg) (\<lambda>a. Inr (hpet_mem h a))"

definition hpet_write :: "u64 \<Rightarrow> u64 \<Rightarrow> hpet \<Rightarrow> hpet run" where
  "hpet_write reg val h =
    bnd (chk_add (hpet_base h) reg) (\<lambda>a. Inr (h\<lparr>hpet_mem := (hpet_mem h)(a := val)\<rparr>))"

section \<open>The device\<close>

definition fs_per_tick :: "hpet \<Rightarrow> u64 run" where
  "fs_per_tick h =
    bnd (hpet_read GENERAL_CAPABILITIES_REGISTER h) (\<lambda>v.
    let fs = drop_bit 32 v in
    bnd (assert_that (fs \<le> 0x05F5E100)) (\<lambda>_. Inr fs))"

definition tick_rate_ms :: "hpet \<Rightarrow> u64 run" where
  "tick_rate_ms h = bnd (fs_per_tick h) (\<lambda>fs. chk_div (10 ^ 12) fs)"

definition num_timers :: "hpet \<Rightarrow> u64 run" where
  "num_timers h =
    bnd (hpet_read GENERAL_CAPABILITIES_REGISTER h) (\<lambda>v. chk_add (drop_bit 8 v AND 0xf) 1)"

definition is_using_legacy_mapping :: "hpet \<Rightarrow> bool run" where
  "is_using_legacy_mapping h =
    bnd (hpet_read GENERAL_CONFIGURATION_REGISTER h) (\<lambda>v. Inr (drop_bit 1 v AND 1 \<noteq> 0))"

definition enable_legacy_mapping :: "hpet \<Rightarrow> hpet run" where
  "enable_legacy_mapping h =
    bnd (hpet_read GENERAL_CONFIGURATION_REGISTER h) (\<lambda>old.
    hpet_write GENERAL_CONFIGURATION_REGISTER (old OR LEG_RT_CNF) h)"

definition disable_legacy_mapping :: "hpet \<Rightarrow> hpet run" where
  "disable_legacy_mapping h =
    bnd (hpet_read GENERAL_CONFIGURATION_REGISTER h) (\<lambda>old.
    hpet_write GENERAL_CONFIGURATION_REGISTER (old AND NOT LEG_RT_CNF) h)"

definition hpet_is_enabled :: "hpet \<Rightarrow> bool run" where
  "hpet_is_enabled h =
    bnd (hpet_read GENERAL_CONFIGURATION_REGISTER h) (\<lambda>v. Inr (v AND ENABLE_CNF \<noteq> 0))"

definition hpet_is_disabled :: "hpet \<Rightarrow> bool run" where
  "hpet_is_disabled h = bnd (hpet_is_enabled h) (\<lambda>b. Inr (\<not> b))"

definition hpet_enable :: "hpet \<Rightarrow> hpet run" where
  "hpet_enable h =
    bnd (hpet_read GENERAL_CONFIGURATION_REGISTER h) (\<lambda>old.
    hpet_write GENERAL_CONFIGURATION_REGISTER (old OR ENABLE_CNF) h)"

definition hpet_disable :: "hpet \<Rightarrow> hpet run" where
  "hpet_disable h =
    bnd (hpet_read GENERAL_CONFIGURATION_REGISTER h) (\<lambda>old.
    hpet_write GENERAL_CONFIGURATION_REGISTER (old AND NOT ENABLE_CNF) h)"

definition set_main_counter_raw_unchecked :: "u64 \<Rightarrow> hpet \<Rightarrow> hpet run" where
  "set_main_counter_raw_unchecked val h = hpet_write MAIN_COUNTER_VAL_REGISTER val h"

definition set_main_counter_raw :: "u64 \<Rightarrow> hpet \<Rightarrow> hpet run" where
  "set_main_counter_raw val h =
    bnd (hpet_is_enabled h) (\<lambda>b.
    if b then Inl (Explicit ''ATTEMPTING TO SET THE MAIN COUNTER WHILE HPET IS ENABLED'')
    else set_main_counter_raw_unchecked val h)"

definition read_main_counter :: "hpet \<Rightarrow> u64 run" where
  "read_main_counter h = hpet_read MAIN_COUNTER_VAL_REGISTER h"

section \<open>Timers\<close>

datatype timer = Timer (timer_num: u64)

definition hpet_timer :: "u64 \<Rightarrow> hpet \<Rightarrow> timer run" where
  "hpet_timer n h =
    bnd (num_timers h) (\<lambda>k.
    bnd (assert_that (n < k)) (\<lambda>_. Inr (Timer n)))"

definition general_capabilties_reg_num :: "timer \<Rightarrow> u64 run" where
  "general_capabilties_reg_num t = bnd (chk_mul 0x20 (timer_num t)) (\<lambda>p. chk_add 0x100 p)"

definition comparator_value_reg_num :: "timer \<Rightarrow> u64 run" where
  "comparator_value_reg_num t = bnd (chk_mul 0x20 (timer_num t)) (\<lambda>p. chk_add 0x108 p)"

definition can_route_irq_to :: "timer \<Rightarrow> u64 \<Rightarrow> hpet \<Rightarrow> bool run" where
  "can_route_irq_to t irq h =
    bnd (general_capabilties_reg_num t) (\<lambda>r.
    bnd (hpet_read r h) (\<lambda>v.
    bnd (chk_shl 1 (unat irq)) (\<lambda>m.
    Inr (drop_bit 32 v AND m \<noteq> 0))))"

definition route_irq_to :: "timer \<Rightarrow> u64 \<Rightarrow> hpet \<Rightarrow> (u64 option \<times> hpet) run" where
  "route_irq_to t irq h =
    bnd (can_route_irq_to t irq h) (\<lambda>ok.
    if ok then
      bnd (assert_that (irq \<le> 23)) (\<lambda>_.
      bnd (general_capabilties_reg_num t) (\<lambda>r.
      bnd (hpet_read r h) (\<lambda>old.
      bnd (hpet_write r (old OR push_bit 9 irq) h) (\<lambda>h.
      Inr (Some irq, h)))))
    else Inr (None, h))"

definition timer_trigger_mode :: "timer \<Rightarrow> hpet \<Rightarrow> trigger_mode run" where
  "timer_trigger_mode t h =
    bnd (general_capabilties_reg_num t) (\<lambda>r.
    bnd (hpet_read r h) (\<lambda>v.
    Inr (if drop_bit 1 v AND 1 \<noteq> 0 then LevelSensetive else EdgeSensetive)))"

definition timer_enable :: "timer \<Rightarrow> hpet \<Rightarrow> hpet run" where
  "timer_enable t h =
    bnd (general_capabilties_reg_num t) (\<lambda>r.
    bnd (hpet_read r h) (\<lambda>old.
    hpet_write r (old OR 0b100) h))"

definition timer_disable :: "timer \<Rightarrow> hpet \<Rightarrow> hpet run" where
  "timer_disable t h =
    bnd (general_capabilties_reg_num t) (\<lambda>r.
    bnd (hpet_read r h) (\<lambda>old.
    hpet_write r (old AND NOT 0b100) h))"

definition set_counter_raw :: "timer \<Rightarrow> u64 \<Rightarrow> hpet \<Rightarrow> hpet run" where
  "set_counter_raw t val h =
    bnd (comparator_value_reg_num t) (\<lambda>r. hpet_write r val h)"

definition read_counter :: "timer \<Rightarrow> hpet \<Rightarrow> u64 run" where
  "read_counter t h = bnd (comparator_value_reg_num t) (\<lambda>r. hpet_read r h)"

section \<open>Lemmas\<close>

definition hpet_ok :: "hpet \<Rightarrow> bool" where
  "hpet_ok h \<longleftrightarrow> unat (hpet_base h) + 4096 \<le> 2 ^ 64"

abbreviation hpet_reg :: "hpet \<Rightarrow> u64 \<Rightarrow> u64" where
  "hpet_reg h r \<equiv> hpet_mem h (hpet_base h + r)"

lemma hpet_read_ok: "hpet_ok h \<Longrightarrow> unat r < 4096 \<Longrightarrow> hpet_read r h = Inr (hpet_reg h r)"
  by (simp add: hpet_read_def hpet_ok_def chk_add_def)

lemma hpet_write_ok:
  "hpet_ok h \<Longrightarrow> unat r < 4096 \<Longrightarrow>
    hpet_write r v h = Inr (h\<lparr>hpet_mem := (hpet_mem h)(hpet_base h + r := v)\<rparr>)"
  by (simp add: hpet_write_def hpet_ok_def chk_add_def)

lemma hpet_ok_upd [simp]: "hpet_ok (h\<lparr>hpet_mem := f\<rparr>) = hpet_ok h"
  by (simp add: hpet_ok_def)

lemma drop_and_15_less: "unat (drop_bit 8 v AND 0xf) < 16" for v :: u64
  using word_and_le1 [of "drop_bit 8 v" "0xf"] by (simp add: word_le_nat_alt)

text \<open>The number of timers is between 1 and 16, so timer 0 always exists.\<close>

lemma num_timers_ok:
  assumes "hpet_ok h"
  shows "num_timers h = Inr ((drop_bit 8 (hpet_reg h 0) AND 0xf) + 1)"
    and "unat ((drop_bit 8 (hpet_reg h 0) AND 0xf) + 1) = unat (drop_bit 8 (hpet_reg h 0) AND 0xf) + 1"
proof -
  have l: "unat (drop_bit 8 (hpet_reg h 0) AND 0xf) < 16" by (rule drop_and_15_less)
  then show "unat ((drop_bit 8 (hpet_reg h 0) AND 0xf) + 1) = unat (drop_bit 8 (hpet_reg h 0) AND 0xf) + 1"
    by (simp add: unat_word_ariths)
  show "num_timers h = Inr ((drop_bit 8 (hpet_reg h 0) AND 0xf) + 1)"
    using l hpet_read_ok [OF assms, of 0] by (simp add: num_timers_def hpet_consts chk_add_def)
qed

lemma timer_0: "hpet_ok h \<Longrightarrow> hpet_timer 0 h = Inr (Timer 0)"
  using num_timers_ok [of h] by (simp add: hpet_timer_def word_less_nat_alt)

lemma timer_0_regs:
  "general_capabilties_reg_num (Timer 0) = Inr 0x100" "comparator_value_reg_num (Timer 0) = Inr 0x108"
  by (simp_all add: general_capabilties_reg_num_def comparator_value_reg_num_def chk_mul_def chk_add_def)

text \<open>Routing a timer adds the bits of the interrupt line to those of the line it was routed to before.\<close>

lemma route_irq_accumulates:
  assumes "hpet_ok h" and "irq \<le> 23" and "drop_bit 32 (hpet_reg h 0x100) AND push_bit (unat irq) 1 \<noteq> 0"
  shows "route_irq_to (Timer 0) irq h =
    Inr (Some irq, h\<lparr>hpet_mem := (hpet_mem h)(hpet_base h + 0x100 := hpet_reg h 0x100 OR push_bit 9 irq)\<rparr>)"
proof -
  have "unat irq < 64" using assms(2) by (simp add: word_le_nat_alt)
  then show ?thesis using assms
    by (simp add: route_irq_to_def can_route_irq_to_def timer_0_regs hpet_read_ok hpet_write_ok chk_shl_def)
qed

end
