(* ===== verification/Kernel_Time.thy ===== *)
theory Kernel_Time
  imports Hpet
begin

text \<open>
  Time keeping (\<open>src/time.rs\<close>): the elapsed time in femtoseconds, durations that fit 64 bits of
  them, the one-shot timer and the polling sleep.

  The polling loop reads the device again and again while time passes; the contents of the device
  at the successive polls are a parameter, and what the code relies on (the tick length is constant and the
  counter advances between polls) is a hypothesis of the lemma that the loop ends.
\<close>

section \<open>Elapsed time\<close>

definition u128_mul :: "nat \<Rightarrow> nat \<Rightarrow> nat run" where
  "u128_mul a b = (if a * b < 2 ^ 128 then Inr (a * b) else Inl Overflow)"

definition u128_sub :: "nat \<Rightarrow> nat \<Rightarrow> nat run" where
  "u128_sub a b = (if b \<le> a then Inr (a - b) else Inl Overflow)"

definition elapsed_fs :: "hpet \<Rightarrow> nat run" where
  "elapsed_fs h =
    bnd (read_main_counter h) (\<lambda>c.
    bnd (fs_per_tick h) (\<lambda>fs.
    u128_mul (unat c) (unat fs)))"

section \<open>Durations\<close>

text \<open>A \<open>core::time::Duration\<close>: whole seconds and less than a second of nanoseconds.\<close>

record duration =
  secs :: u64
  subsec_nanos :: nat

definition duration_ok :: "duration \<Rightarrow> bool" where
  "duration_ok d \<longleftrightarrow> subsec_nanos d < 10 ^ 9"

definition as_nanos :: "duration \<Rightarrow> nat" where
  "as_nanos d = unat (secs d) * 10 ^ 9 + subsec_nanos d"

definition from_millis :: "u64 \<Rightarrow> duration" where
  "from_millis ms = \<lparr>secs = ms div 1000, subsec_nanos = unat (ms mod 1000) * 1000000\<rparr>"

record small_duration =
  sd_inner :: duration
  femto_seconds :: u64

definition MAX_NANOS :: u64 where
  "MAX_NANOS = (2 ^ 64 - 1) div 1000000"

definition small_duration_new :: "duration \<Rightarrow> small_duration option run" where
  "small_duration_new d =
    bnd (u128_mul (as_nanos d) 1000000) (\<lambda>fs.
    Inr (if fs \<le> 2 ^ 64 - 1 then Some \<lparr>sd_inner = d, femto_seconds = of_nat fs\<rparr> else None))"

definition as_femto_secs :: "small_duration \<Rightarrow> u64" where
  "as_femto_secs sd = femto_seconds sd"

definition as_duration :: "small_duration \<Rightarrow> duration" where
  "as_duration sd = sd_inner sd"

section \<open>The timer and the polling sleep\<close>

definition start_timer :: "small_duration \<Rightarrow> hpet \<Rightarrow> hpet run" where
  "start_timer sd h =
    bnd (hpet_timer 0 h) (\<lambda>t.
    bnd (fs_per_tick h) (\<lambda>fs.
    bnd (chk_div (as_femto_secs sd) fs) (\<lambda>ticks.
    bnd (read_main_counter h) (\<lambda>now.
    bnd (chk_add now ticks) (\<lambda>v.
    set_counter_raw t v h)))))"

text \<open>One iteration of the loop: whether the sleep is over.\<close>

definition poll_done :: "nat \<Rightarrow> nat \<Rightarrow> hpet \<Rightarrow> bool run" where
  "poll_done now nanos h =
    bnd (elapsed_fs h) (\<lambda>t.
    bnd (u128_sub t now) (\<lambda>elapsed_time_fs.
    let elapsed_time_ns = elapsed_time_fs div 1000000 in
    Inr (elapsed_time_ns > nanos)))"

text \<open>The loop from poll \<open>k\<close> on; it returns the poll that ended it, and \<open>None\<close> is a loop that never ends.\<close>

partial_function (option) poll_loop :: "(nat \<Rightarrow> hpet) \<Rightarrow> nat \<Rightarrow> nat \<Rightarrow> nat \<Rightarrow> nat run option" where
  "poll_loop hw now nanos k =
    (case poll_done now nanos (hw k) of
       Inl e \<Rightarrow> Some (Inl e)
     | Inr over \<Rightarrow> if over then Some (Inr k) else poll_loop hw now nanos (Suc k))"

definition poll_sleep :: "duration \<Rightarrow> (nat \<Rightarrow> hpet) \<Rightarrow> nat run option" where
  "poll_sleep d hw =
    (case elapsed_fs (hw 0) of
       Inl e \<Rightarrow> Some (Inl e)
     | Inr now \<Rightarrow> poll_loop hw now (as_nanos d) 1)"

section \<open>Lemmas\<close>

text \<open>The tick length in femtoseconds and the main counter of a device.\<close>

definition tick_fs :: "hpet \<Rightarrow> nat" where
  "tick_fs h = unat (drop_bit 32 (hpet_reg h 0))"

definition counter :: "hpet \<Rightarrow> nat" where
  "counter h = unat (hpet_reg h 0xf0)"

definition clock_ok :: "hpet \<Rightarrow> bool" where
  "clock_ok h \<longleftrightarrow> hpet_ok h \<and> 0 < tick_fs h \<and> tick_fs h \<le> 100000000"

lemma counter_less: "counter h < 2 ^ 64"
  by (simp add: counter_def)

lemma fs_per_tick_ok: "clock_ok h \<Longrightarrow> fs_per_tick h = Inr (drop_bit 32 (hpet_reg h 0))"
  by (simp add: fs_per_tick_def clock_ok_def hpet_read_ok hpet_consts tick_fs_def word_le_nat_alt Let_def)

lemma read_main_counter_ok: "hpet_ok h \<Longrightarrow> read_main_counter h = Inr (hpet_reg h 0xf0)"
  by (simp add: read_main_counter_def hpet_read_ok hpet_consts)

lemma elapsed_fs_ok:
  assumes "clock_ok h"
  shows "elapsed_fs h = Inr (counter h * tick_fs h)"
proof -
  have "counter h * tick_fs h \<le> 2 ^ 64 * 100000000"
    using assms counter_less [of h] by (intro mult_le_mono) (auto simp: clock_ok_def)
  then have "counter h * tick_fs h < 2 ^ 128" by (rule le_less_trans) simp
  then show ?thesis
    using assms by (simp add: elapsed_fs_def fs_per_tick_ok read_main_counter_ok clock_ok_def u128_mul_def
        counter_def tick_fs_def)
qed

lemma poll_done_ok:
  assumes "clock_ok h" and "now \<le> counter h * tick_fs h"
  shows "poll_done now nanos h = Inr ((counter h * tick_fs h - now) div 1000000 > nanos)"
  using assms by (simp add: poll_done_def elapsed_fs_ok u128_sub_def)

lemma poll_loop_stops:
  assumes "\<And>j. k \<le> j \<Longrightarrow> j < n \<Longrightarrow> poll_done now nanos (hw j) = Inr False"
    and "poll_done now nanos (hw n) = Inr True" and "k \<le> n"
  shows "poll_loop hw now nanos k = Some (Inr n)"
  using assms(3,1)
proof (induction k rule: inc_induct)
  case base
  then show ?case using assms(2) by (subst poll_loop.simps) simp
next
  case (step m)
  then have "poll_loop hw now nanos (Suc m) = Some (Inr n)" by simp
  then show ?case using step by (subst poll_loop.simps) simp
qed

lemma counter_advances:
  assumes "\<forall>k < N. counter (hw k) < counter (hw (Suc k))" and "k \<le> N"
  shows "counter (hw 0) + k \<le> counter (hw k)"
  using assms(2)
proof (induction k)
  case (Suc k)
  then show ?case using assms(1) [rule_format, of k] by simp
qed simp

lemma poll_sleep_ends:
  assumes clk: "\<forall>k \<le> N. clock_ok (hw k) \<and> tick_fs (hw k) = f"
    and adv: "\<forall>k < N. counter (hw k) < counter (hw (Suc k))"
    and enough: "(as_nanos d + 1) * 1000000 \<le> N * f"
  shows "\<exists>n. poll_sleep d hw = Some (Inr n) \<and> 1 \<le> n \<and> n \<le> N \<and>
    as_nanos d * 1000000 < (counter (hw n) - counter (hw 0)) * f \<and>
    (\<forall>j. 1 \<le> j \<and> j < n \<longrightarrow> (counter (hw j) - counter (hw 0)) * f < (as_nanos d + 1) * 1000000)"
proof -
  let ?now = "counter (hw 0) * f"
  let ?over = "\<lambda>k. (counter (hw k) * f - ?now) div 1000000 > as_nanos d"
  have ge: "counter (hw 0) + k \<le> counter (hw k)" if "k \<le> N" for k by (rule counter_advances [OF adv that])
  have poll: "poll_done ?now (as_nanos d) (hw k) = Inr (?over k)" if "k \<le> N" for k
  proof -
    have "?now \<le> counter (hw k) * tick_fs (hw k)" using ge [OF that] clk that by simp
    then show ?thesis using poll_done_ok [of "hw k"] clk that by simp
  qed
  have "N * f \<le> counter (hw N) * f - ?now"
    using mult_le_mono1 [OF ge [of N], of f] by (simp add: algebra_simps)
  then have "(as_nanos d + 1) * 1000000 \<le> counter (hw N) * f - ?now" using enough by (rule order.trans [rotated])
  then have "?over N" by (simp add: less_eq_div_iff_mult_less_eq Suc_le_eq [symmetric])
  moreover have "1 \<le> N" using enough by (cases N) simp_all
  ultimately have ex: "1 \<le> N \<and> ?over N" by simp
  define n where "n = (LEAST k. 1 \<le> k \<and> ?over k)"
  have n: "1 \<le> n" "?over n" "n \<le> N"
    using LeastI [of "\<lambda>k. 1 \<le> k \<and> ?over k", OF ex] Least_le [of "\<lambda>k. 1 \<le> k \<and> ?over k", OF ex]
    by (simp_all add: n_def)
  have before: "\<not> ?over j" if "1 \<le> j" "j < n" for j
    using not_less_Least [of j "\<lambda>k. 1 \<le> k \<and> ?over k"] that by (simp add: n_def)
  have "poll_loop hw ?now (as_nanos d) 1 = Some (Inr n)"
    using poll n before by (intro poll_loop_stops) simp_all
  moreover have "elapsed_fs (hw 0) = Inr ?now" using elapsed_fs_ok [of "hw 0"] clk by simp
  ultimately have "poll_sleep d hw = Some (Inr n)" by (simp add: poll_sleep_def)
  moreover have "as_nanos d * 1000000 < (counter (hw n) - counter (hw 0)) * f"
    using n(2) by (simp add: Suc_le_eq [symmetric] less_eq_div_iff_mult_less_eq diff_mult_distrib)
  moreover have "(counter (hw j) - counter (hw 0)) * f < (as_nanos d + 1) * 1000000" if "1 \<le> j" "j < n" for j
    using before [OF that] by (simp add: not_less diff_mult_distrib less_Suc_eq_le [symmetric] div_less_iff_less_mult)
  ultimately show ?thesis using n by blast
qed

text \<open>
  C22. The polling sleep ends: if the tick length is constant and the counter advances between the polls without
  wrapping around, the loop returns no later than after the \<open>N\<close> polls that cover the duration. When it
  returns, more than the duration has passed, and at every poll before, less than a nanosecond more than
  the duration had.
\<close>

theorem poll_sleep_returns:
  assumes clk: "\<forall>k \<le> N. clock_ok (hw k) \<and> tick_fs (hw k) = f"
    and adv: "\<forall>k < N. counter (hw k) < counter (hw (Suc k))"
    and enough: "(as_nanos d + 1) * 1000000 \<le> N * f"
  shows "\<exists>n. poll_sleep d hw = Some (Inr n) \<and> 1 \<le> n \<and> n \<le> N \<and>
    as_nanos d * 1000000 < (counter (hw n) - counter (hw 0)) * f \<and>
    (\<forall>j. 1 \<le> j \<and> j < n \<longrightarrow> (counter (hw j) - counter (hw 0)) * f < (as_nanos d + 1) * 1000000)"
  by (rule poll_sleep_ends [OF assms])

text \<open>A device with ticks of 10 ns and the given counter.\<close>

definition example_hpet :: "u64 \<Rightarrow> hpet" where
  "example_hpet c = \<lparr>hpet_base = 0, hpet_mem = (\<lambda>_. 0)(0 := push_bit 32 10000000, 0xf0 := c)\<rparr>"

lemma example_hpet_clock: "clock_ok (example_hpet c)" "tick_fs (example_hpet c) = 10000000" "counter (example_hpet c) = unat c"
  by (simp_all add: clock_ok_def hpet_ok_def tick_fs_def counter_def example_hpet_def)

theorem poll_sleep_returns_witness:
  "\<exists>n. poll_sleep \<lparr>secs = 0, subsec_nanos = 1000\<rparr> (\<lambda>k. example_hpet (of_nat k)) = Some (Inr n) \<and> n \<le> 101"
proof -
  have "\<forall>k < 101. counter (example_hpet (of_nat k)) < counter (example_hpet (of_nat (Suc k)))"
    by (simp add: example_hpet_clock unat_of_nat_less del: of_nat_Suc)
  from poll_sleep_returns [OF _ this, of 10000000 "\<lparr>secs = 0, subsec_nanos = 1000\<rparr>"] show ?thesis
    by (auto simp: example_hpet_clock as_nanos_def)
qed

section \<open>The one-shot timer\<close>

lemma small_duration_new_iff:
  assumes "duration_ok d"
  shows "small_duration_new d = Inr (if as_nanos d \<le> unat MAX_NANOS
    then Some \<lparr>sd_inner = d, femto_seconds = of_nat (as_nanos d * 1000000)\<rparr> else None)"
proof -
  have "unat (secs d) < 2 ^ 64" by simp
  then have "as_nanos d * 1000000 < 2 ^ 128" using assms by (simp add: as_nanos_def duration_ok_def del: unat_u64_less)
  moreover have "unat MAX_NANOS = (2 ^ 64 - 1) div 1000000" by (simp add: MAX_NANOS_def)
  ultimately show ?thesis
    by (simp add: small_duration_new_def u128_mul_def less_eq_div_iff_mult_less_eq)
qed

text \<open>
  C31. The one-shot timer: when the counter does not overflow, \<open>start_timer\<close> writes the comparator of timer 0 and no
  other register, and the comparator is the last tick that is not after the duration: counted from the value of the counter that was read, it is at
  most one tick early and never late. A duration so short that the counter passes the comparator before it is written, the race that the
  source documents, is not excluded.
\<close>

theorem start_timer_deadline:
  assumes clk: "clock_ok h" and d: "duration_ok d" and sd: "small_duration_new d = Inr (Some sd)"
    and fits: "counter h + as_nanos d * 1000000 div tick_fs h < 2 ^ 64"
  shows "\<exists>h' v. start_timer sd h = Inr h' \<and> read_counter (Timer 0) h' = Inr v \<and> counter h \<le> unat v \<and>
    (unat v - counter h) * tick_fs h \<le> as_nanos d * 1000000 \<and>
    as_nanos d * 1000000 < (unat v - counter h + 1) * tick_fs h \<and>
    (\<forall>a. a \<noteq> hpet_base h + 0x108 \<longrightarrow> hpet_mem h' a = hpet_mem h a)"
proof -
  define fs where "fs = as_nanos d * 1000000"
  have ok: "hpet_ok h" and pos: "0 < tick_fs h" using clk by (auto simp: clock_ok_def)
  have "as_nanos d \<le> unat MAX_NANOS" and sd': "as_femto_secs sd = of_nat fs"
    using sd small_duration_new_iff [OF d] by (auto simp: as_femto_secs_def fs_def split: if_splits)
  then have "fs < 2 ^ 64" by (simp add: fs_def MAX_NANOS_def)
  then have ufs: "unat (of_nat fs :: u64) = fs" by simp
  define ticks :: u64 where "ticks = of_nat fs div drop_bit 32 (hpet_mem h (hpet_base h))"
  have nz: "drop_bit 32 (hpet_mem h (hpet_base h)) \<noteq> 0" using pos by (auto simp: tick_fs_def)
  have ut: "unat ticks = fs div tick_fs h" by (simp add: ticks_def unat_div ufs tick_fs_def)
  define v where "v = hpet_reg h 0xf0 + ticks"
  have sum: "unat (hpet_reg h 0xf0) + unat ticks < 2 ^ 64" using fits ut by (simp add: counter_def fs_def)
  then have uv: "unat v = counter h + fs div tick_fs h" using ut by (simp add: v_def unat_word_ariths counter_def)
  let ?h = "h\<lparr>hpet_mem := (hpet_mem h)(hpet_base h + 0x108 := v)\<rparr>"
  have "start_timer sd h = Inr ?h"
    using sum by (simp add: start_timer_def timer_0 [OF ok] fs_per_tick_ok [OF clk] sd' chk_div_def nz
        ticks_def [symmetric] read_main_counter_ok [OF ok] chk_add_def v_def [symmetric] set_counter_raw_def
        timer_0_regs hpet_write_ok [OF ok])
  moreover have "read_counter (Timer 0) ?h = Inr v"
    using hpet_read_ok [of ?h "0x108"] ok by (simp add: read_counter_def timer_0_regs)
  moreover have "fs div tick_fs h * tick_fs h \<le> fs" by simp
  moreover have "fs < (fs div tick_fs h + 1) * tick_fs h"
    using pos dividend_less_div_times [of "tick_fs h" fs] by (simp add: add.commute)
  ultimately show ?thesis
    using uv unfolding fs_def [symmetric] by (intro exI [of _ ?h] exI [of _ v]) simp
qed

theorem start_timer_deadline_witness:
  "\<exists>h' v. start_timer \<lparr>sd_inner = \<lparr>secs = 0, subsec_nanos = 25\<rparr>, femto_seconds = 25000000\<rparr> (example_hpet 7) = Inr h' \<and>
    read_counter (Timer 0) h' = Inr v \<and> (unat v - 7) * 10000000 \<le> 25000000"
proof -
  have d: "duration_ok \<lparr>secs = 0, subsec_nanos = 25\<rparr>" by (simp add: duration_ok_def)
  have "small_duration_new \<lparr>secs = 0, subsec_nanos = 25\<rparr> =
      Inr (Some \<lparr>sd_inner = \<lparr>secs = 0, subsec_nanos = 25\<rparr>, femto_seconds = 25000000\<rparr>)"
    by (simp add: small_duration_new_def as_nanos_def u128_mul_def)
  from start_timer_deadline [OF example_hpet_clock(1) [of 7] d this] show ?thesis
    by (auto simp: example_hpet_clock as_nanos_def)
qed

end
