(* ===== verification/Device_Mapping.thy ===== *)
theory Device_Mapping
  imports Hpet
begin

text \<open>
  The registers of the devices in the address space: the three statics \<open>HPET_BASE_ADDR\<close>, \<open>LOCAL_APIC_ADDRESS\<close> and
  \<open>IO_APIC_ADDR\<close> of \<open>src/dev/\<close>, each computed at its first use by reading an ACPI table and mapping a page.

  \<open>driver_state\<close> is the invariant of the memory system between the drivers: the live allocations are the
  pages of the devices mapped so far. Lemmas: each driver keeps it and adds its page.
\<close>

section \<open>The memory the drivers find\<close>

text \<open>
  Before the first driver: the tables lie in the frames \<open>F\<close> outside the usable area, and there is
  room for the devices and for the four times the tables are read, \<open>B\<close> pages at most each time.
\<close>

definition drivers_room :: "phy_addr set \<Rightarrow> nat \<Rightarrow> vm \<Rightarrow> bool" where
  "drivers_room F B st0 \<longleftrightarrow> vm_ok {} st0 \<and> 0 < B \<and> F \<inter> usable_frames (physical_allocator (snd st0)) = {} \<and>
    F \<subseteq> frames_of (physical_allocator (snd st0)) - used_frames (physical_allocator (snd st0)) \<and>
    tables_avoid (fst st0) (root (fst st0)) F \<and> 16 * (B + 1) \<le> free_count (physical_allocator (snd st0)) \<and>
    (\<exists>r. free_run (fst st0) (last_page_alloc (snd st0)) r (4 * (B + 1)))"

text \<open>A page of registers, at a free frame that is neither usable memory nor part of the tables.\<close>

definition device_at :: "phy_addr set \<Rightarrow> vm \<Rightarrow> u64 \<Rightarrow> bool" where
  "device_at F st0 a \<longleftrightarrow> unat a mod 4096 = 0 \<and> frames_free st0 a 1 \<and>
    PhyAddr a \<notin> usable_frames (physical_allocator (snd st0)) \<and> PhyAddr a \<notin> F"

text \<open>
  The machine as the drivers need it: where the ACPI tables are and how many pages reading them takes at most, what they say, and
  which of the entries is the I/O controller.
\<close>

record board =
  tables_frames :: "phy_addr set"
  tables_pages :: nat
  board_madt :: madt
  board_hpet :: hpet_info
  ioapic_phys :: u32

definition hpet_phys_addr :: "board \<Rightarrow> u64" where
  "hpet_phys_addr b = of_nat (base_address (board_hpet b))"

definition lapic_phys_addr :: "board \<Rightarrow> u64" where
  "lapic_phys_addr b = ucast (madt_lapic_address (board_madt b))"

definition ioapic_phys_addr :: "board \<Rightarrow> u64" where
  "ioapic_phys_addr b = ucast (ioapic_phys b)"

definition board_ok :: "'t acpi \<Rightarrow> board \<Rightarrow> vm \<Rightarrow> bool" where
  "board_ok A b st0 \<longleftrightarrow> drivers_room (tables_frames b) (tables_pages b) st0 \<and>
    acpi_answers A (tables_frames b) (tables_pages b) (board_madt b) (board_hpet b) \<and>
    main_counter_is_64bits (board_hpet b) \<and> find_ioapic (madt_entries (board_madt b)) = Some (IoApicEntry (ioapic_phys b) 0) \<and>
    distinct [hpet_phys_addr b, lapic_phys_addr b, ioapic_phys_addr b] \<and>
    (\<forall>a \<in> {hpet_phys_addr b, lapic_phys_addr b, ioapic_phys_addr b}. device_at (tables_frames b) st0 a)"

definition driver_state :: "vm \<Rightarrow> vm \<Rightarrow> page_allocation list \<Rightarrow> u64 list \<Rightarrow> nat \<Rightarrow> bool" where
  "driver_state st0 st live as k \<longleftrightarrow> live_inv st0 st live (map (\<lambda>a. [PhyAddr a]) as) \<and> length live = length as \<and>
    held_pages live = length as \<and> memory_reachable st0 (st, {}, live) \<and>
    last_page_alloc (snd st) = last_page_alloc (snd st0) \<and>
    free_count (physical_allocator (snd st0)) \<le> free_count (physical_allocator (snd st)) + 4 * k"

section \<open>Lemmas\<close>

lemma driver_state_start: "drivers_room F B st0 \<Longrightarrow> driver_state st0 st0 [] [] 0"
  by (simp add: driver_state_def drivers_room_def live_inv_def outside_kept_refl held_pages_def)

lemma range_frames_device: "unat a mod 4096 = 0 \<Longrightarrow> range_frames a 1 = [PhyAddr a]" "unat a mod 4096 = 0 \<Longrightarrow> whole_pages a 1 = 1"
  by (simp_all add: range_frames_def frames_from_def frame_plus_def whole_pages_def)

lemma concat_devices: "concat (map (\<lambda>a. [PhyAddr a]) as) = map PhyAddr as"
  by (induction as) simp_all

lemma drivers_page_ok: "drivers_room F B st0 \<Longrightarrow> page_ok (last_page_alloc (snd st0))"
  using vm_okD(2) [of "{}" "fst st0" "snd st0"] by (simp add: drivers_room_def)

lemma acpi_ready_driver:
  assumes room: "drivers_room F B st0" and ds: "driver_state st0 st live as k" and as: "length as \<le> 2" "\<forall>a\<in>set as. PhyAddr a \<notin> F"
    and k: "k \<le> 3 * B + 2"
  shows "acpi_ready F B st"
proof -
  note R = room [unfolded drivers_room_def] and D = ds [unfolded driver_state_def]
  obtain r where run: "free_run (fst st0) (last_page_alloc (snd st0)) r (4 * (B + 1))" using R by blast
  have "has_room st B"
  proof (rule room_left [of st0 st live "map (\<lambda>a. [PhyAddr a]) as" r "4 * (B + 1)"])
    have "(held_pages live + 1) * B \<le> 3 * B" using D as(1) by (intro mult_le_mono1) simp
    also have "3 * B \<le> 4 * (B + 1)" by simp
    finally show "(held_pages live + 1) * B \<le> 4 * (B + 1)" .
    show "4 * B \<le> free_count (physical_allocator (snd st))" using R D k by simp
  qed (use R D run drivers_page_ok [OF room] in auto)
  moreover have "outside_kept (set (map PhyAddr as)) st0 st"
    using D live_invD(6) [of st0 st live "map (\<lambda>a. [PhyAddr a]) as"] by (simp only: concat_devices)
  moreover have "set (map PhyAddr as) \<inter> F = {}" using as(2) by auto
  moreover have "\<exists>G. vm_ok G st" using D live_invD(1) by blast
  ultimately show ?thesis using R unfolding acpi_ready_def outside_kept_def Let_def by blast
qed

text \<open>A device page is mapped while the library may still hold a mapping of its own.\<close>

lemma map_device_grant:
  assumes inv: "live_inv st0 st live fss" and room: "has_room st 1" and a: "unat a mod 4096 = 0" and fr: "frames_free st a 1"
  shows "\<exists>b st'. map_device a st = Inr (VirtAddr (block_byte b 0), st') \<and> live_inv st0 st' (b # live) ([PhyAddr a] # fss) \<and>
    page_amount b = 1 \<and> unat (block_byte b 0) + 4096 \<le> 2 ^ 64 \<and> memory_step (st, {}, live) (st', {}, b # live) \<and>
    last_page_alloc (snd st') = last_page_alloc (snd st) \<and> vm_kept {PhyAddr a} 4 st st'"
proof -
  obtain m inner where st: "st = (m, inner)" by fastforce
  obtain r where r: "4 * 1 \<le> free_count (physical_allocator inner)" "free_run m (last_page_alloc inner) r 1"
    using room by (auto simp: has_room_def st)
  obtain p m' inner' where mp:
    "map_physical allocate_frame free_frame alloc_phy_addr (PhyAddr a) 1 (m, inner) =
       Inr (Some (\<lparr>first_page = p, page_amount = 1\<rparr>, VirtAddr (num p * PAGE_SIZE + of_nat 0)), m', inner')"
    "unat (num p) + 1 < 2 ^ 36"
    by (rule vm_map_physical [OF live_invD(1) [OF inv, unfolded st] _ refl _ _ r(1) fr [unfolded st] r(2), of 0 1])
      (use a in auto)
  let ?b = "\<lparr>first_page = p, page_amount = 1\<rparr>"
  have mp': "map_physical allocate_frame free_frame alloc_phy_addr (PhyAddr a) 1 st =
      Inr (Some (?b, VirtAddr (block_byte ?b 0)), m', inner')" using mp(1) by (simp add: st block_byte_def)
  note g = grown_device [OF live_invD(1) [OF inv], of 1 a, unfolded range_frames_device [OF a], OF _ room fr mp']
  have "granted st ?b (m', inner')"
    by (rule granted.device [of 1 st a, unfolded range_frames_device [OF a], OF _ room fr mp']) simp
  then have "memory_step (st, {}, live) ((m', inner'), {}, ?b # live)"
    using memory_step.grant [of st ?b "(m', inner')" "{}" live] by simp
  moreover have "map_device a st = Inr (VirtAddr (block_byte ?b 0), m', inner')" unfolding map_device_def mp' by simp
  moreover have "unat (block_byte ?b 0) + 4096 \<le> 2 ^ 64" using mp(2) by (simp add: block_byte_def unat_word_ariths)
  ultimately show ?thesis using g live_inv_grown [OF inv g(1)] zero_less_one
    by (intro exI [of _ ?b] exI [of _ "(m', inner')"]) (simp add: grown_def)
qed

text \<open>The page of a device is free while earlier drivers hold theirs and the library holds frames of \<open>F\<close>.\<close>

lemma device_free:
  assumes "live_inv st0 st live fss" and "device_at F st0 a" and "PhyAddr a \<notin> set (concat fss)"
  shows "frames_free st a 1"
  using assms frames_free_kept [OF live_invD(6) [OF assms(1)], of a 1] range_frames_device(1) [of a]
  by (simp add: device_at_def)

lemma driver_step:
  assumes room: "drivers_room F B st0" and ds: "driver_state st0 st live as k" and as: "length as \<le> 2" "a \<notin> set as"
    and run: "acpi_run F st j own st1" "j \<le> B" and k: "k \<le> 3 * B + 2" and dev: "device_at F st0 a"
  shows "\<exists>b st2 gss. map_device a st1 = Inr (VirtAddr (block_byte b 0), st2) \<and>
    live_inv st0 st2 (b # own @ live) ([PhyAddr a] # gss @ map (\<lambda>a. [PhyAddr a]) as) \<and> length gss = length own \<and>
    page_amount b = 1 \<and> unat (block_byte b 0) + 4096 \<le> 2 ^ 64 \<and> memory_reachable st0 (st2, {}, b # own @ live) \<and>
    last_page_alloc (snd st2) = last_page_alloc (snd st0) \<and>
    free_count (physical_allocator (snd st0)) \<le> free_count (physical_allocator (snd st2)) + 4 * (k + B + 1)"
proof -
  note R = room [unfolded drivers_room_def] and D = ds [unfolded driver_state_def]
  let ?fss = "map (\<lambda>a. [PhyAddr a]) as"
  obtain gss where g: "live_inv st0 st1 (own @ live) (gss @ ?fss)" "length gss = length own" "set (concat gss) \<subseteq> F"
    "held_pages own \<le> j" "last_page_alloc (snd st1) = last_page_alloc (snd st)"
    "free_count (physical_allocator (snd st)) \<le> free_count (physical_allocator (snd st1)) + 4 * j"
    "memory_step\<^sup>*\<^sup>* (st, {}, live) (st1, {}, own @ live)"
    using acpi_run_effect [OF run(1)] D by blast
  have held: "held_pages (own @ live) = held_pages own + held_pages live" by (simp add: held_pages_def)
  obtain r where free: "free_run (fst st0) (last_page_alloc (snd st0)) r (4 * (B + 1))" using R by blast
  have one: "has_room st1 1"
  proof (rule room_left [OF g(1), of r "4 * (B + 1)"])
    show "(held_pages (own @ live) + 1) * 1 \<le> 4 * (B + 1)" using held g(4) run(2) D as(1) by simp
    show "4 * 1 \<le> free_count (physical_allocator (snd st1))" using R D g(6) run(2) k by simp
  qed (use R D g(5) free drivers_page_ok [OF room] in auto)
  have fr: "frames_free st1 a 1"
    by (rule device_free [OF g(1) dev]) (use as(2) g(3) dev in \<open>auto simp: concat_devices device_at_def\<close>)
  have al: "unat a mod 4096 = 0" using dev by (simp add: device_at_def)
  obtain b st2 where b: "map_device a st1 = Inr (VirtAddr (block_byte b 0), st2)"
    "live_inv st0 st2 (b # own @ live) ([PhyAddr a] # gss @ ?fss)" "page_amount b = 1" "unat (block_byte b 0) + 4096 \<le> 2 ^ 64"
    "memory_step (st1, {}, own @ live) (st2, {}, b # own @ live)"
    "last_page_alloc (snd st2) = last_page_alloc (snd st1)" "vm_kept {PhyAddr a} 4 st1 st2"
    using map_device_grant [OF g(1) one al fr] by blast
  have "memory_reachable st0 (st2, {}, b # own @ live)"
    using D g(7) b(5) by (meson rtranclp.rtrancl_into_rtrancl rtranclp_trans)
  moreover have "free_count (physical_allocator (snd st0)) \<le> free_count (physical_allocator (snd st2)) + 4 * (k + B + 1)"
    using D g(6) b(7) run(2) by (simp add: vm_kept_def)
  ultimately show ?thesis using b(1-4,6) g(2,5) D
    by (intro exI [of _ b] exI [of _ st2] exI [of _ gss]) simp
qed

section \<open>The drivers\<close>

text \<open>Reading the table of the interrupt controllers; dropping its mapping gives the pages back.\<close>

lemma drop_region:
  assumes "live_inv st0 st (xs @ b # ys) (ms @ gs # ns)" and "length xs = length ms" and "region_block region = Inr b"
    and "b \<notin> set xs \<or> xs = [b]"
  shows "\<exists>st'. unmap_physical_region region st = Inr st' \<and> live_inv st0 st' (xs @ ys) (ms @ ns) \<and> vm_kept {} 0 st st' \<and>
    last_page_alloc (snd st') = last_page_alloc (snd st) \<and> memory_step (st, {}, xs @ b # ys) (st', {}, xs @ ys)"
proof -
  obtain st' where st': "dealloc_pages free_frame b st = Inr st'" "live_inv st0 st' (xs @ ys) (ms @ ns)" "vm_kept {} 0 st st'"
    "last_page_alloc (snd st') = last_page_alloc (snd st)"
    using live_inv_release_at [OF assms(1,2)] by blast
  have "remove1 b (xs @ b # ys) = xs @ ys" using assms(4) by (auto simp: remove1_append)
  then have "memory_step (st, {}, xs @ b # ys) (st', {}, xs @ ys)"
    using memory_step.release [of b "xs @ b # ys" st st' "{}"] st'(1) by (simp add: released_dealloc)
  then show ?thesis using st' assms(3) by (intro exI [of _ st']) (simp add: unmap_region_dealloc)
qed

lemma ioapic_init_driver:
  assumes room: "drivers_room F B st0" and ds: "driver_state st0 st live as k" and as: "length as \<le> 2" "\<forall>a\<in>set as. PhyAddr a \<notin> F"
    and k: "k \<le> 3 * B + 2" and A: "acpi_answers A F B madt info"
  shows "\<exists>st'. ioapic_init A st = Inr st' \<and> driver_state st0 st' live as (k + B)"
proof -
  note D = ds [unfolded driver_state_def]
  let ?fss = "map (\<lambda>a. [PhyAddr a]) as"
  obtain region b j st1 where m: "madt_table A st = Inr (madt, region, st1)" "region_block region = Inr b"
    "acpi_run F st j [b] st1" "j \<le> B"
    using A acpi_ready_driver [OF room ds as k] unfolding acpi_answers_def by blast
  obtain gss where g: "live_inv st0 st1 ([b] @ live) (gss @ ?fss)" "length gss = length [b]"
    "last_page_alloc (snd st1) = last_page_alloc (snd st)"
    "free_count (physical_allocator (snd st)) \<le> free_count (physical_allocator (snd st1)) + 4 * j"
    "memory_step\<^sup>*\<^sup>* (st, {}, live) (st1, {}, [b] @ live)"
    using acpi_run_effect [OF m(3)] D by blast
  obtain gs where gs: "gss = [gs]" using g(2) by (cases gss) auto
  obtain st' where st': "unmap_physical_region region st1 = Inr st'" "live_inv st0 st' live ?fss" "vm_kept {} 0 st1 st'"
    "last_page_alloc (snd st') = last_page_alloc (snd st1)" "memory_step (st1, {}, b # live) (st', {}, live)"
    using drop_region [of st0 st1 "[]" b live "[]" gs ?fss region] g(1) gs m(2) by auto
  have "memory_reachable st0 (st', {}, live)"
    using D g(5) st'(5) by (simp, meson rtranclp.rtrancl_into_rtrancl rtranclp_trans)
  then show ?thesis using m(1,4) st' g(3,4) D
    by (intro exI [of _ st']) (simp add: ioapic_init_def driver_state_def vm_kept_def)
qed

lemma hpet_driver:
  assumes room: "drivers_room F B st0" and ds: "driver_state st0 st live as k" and as: "length as \<le> 2" "\<forall>a\<in>set as. PhyAddr a \<notin> F"
    and k: "k \<le> 3 * B + 2" and A: "acpi_answers A F B madt info" and dev: "device_at F st0 a" "a \<notin> set as"
    and info: "main_counter_is_64bits info" "a = of_nat (base_address info)"
  shows "\<exists>b st'. hpet_base_addr A st = Inr (VirtAddr (block_byte b 0), st') \<and>
    driver_state st0 st' (b # live) (a # as) (k + B + 1) \<and> unat (block_byte b 0) + 4096 \<le> 2 ^ 64"
proof -
  note D = ds [unfolded driver_state_def]
  obtain j st1 where m: "hpet_table A st = Inr (info, st1)" "acpi_run F st j [] st1" "j \<le> B"
    using A acpi_ready_driver [OF room ds as k] unfolding acpi_answers_def by blast
  obtain b st2 where b: "map_device a st1 = Inr (VirtAddr (block_byte b 0), st2)"
    "live_inv st0 st2 (b # live) ([PhyAddr a] # map (\<lambda>a. [PhyAddr a]) as)" "page_amount b = 1"
    "unat (block_byte b 0) + 4096 \<le> 2 ^ 64" "memory_reachable st0 (st2, {}, b # live)"
    "last_page_alloc (snd st2) = last_page_alloc (snd st0)"
    "free_count (physical_allocator (snd st0)) \<le> free_count (physical_allocator (snd st2)) + 4 * (k + B + 1)"
    using driver_step [OF room ds as(1) dev(2) m(2,3) k dev(1)] by auto
  have "driver_state st0 st2 (b # live) (a # as) (k + B + 1)"
    using b D by (simp add: driver_state_def held_pages_def)
  then show ?thesis using m(1) b(1,4) info
    by (intro exI [of _ b] exI [of _ st2]) (simp add: hpet_base_addr_def)
qed

lemma madt_driver:
  assumes room: "drivers_room F B st0" and ds: "driver_state st0 st live as k" and as: "length as \<le> 2" "\<forall>a\<in>set as. PhyAddr a \<notin> F"
    and k: "k \<le> 3 * B + 2" and A: "acpi_answers A F B madt info" and dev: "device_at F st0 a" "a \<notin> set as"
  shows "\<exists>region st1 b st2 st'. madt_table A st = Inr (madt, region, st1) \<and>
    map_device a st1 = Inr (VirtAddr (block_byte b 0), st2) \<and> unmap_physical_region region st2 = Inr st' \<and>
    driver_state st0 st' (b # live) (a # as) (k + B + 1) \<and> unat (block_byte b 0) + 4096 \<le> 2 ^ 64"
proof -
  note D = ds [unfolded driver_state_def]
  let ?fss = "map (\<lambda>a. [PhyAddr a]) as"
  obtain region c j st1 where m: "madt_table A st = Inr (madt, region, st1)" "region_block region = Inr c"
    "acpi_run F st j [c] st1" "j \<le> B"
    using A acpi_ready_driver [OF room ds as k] unfolding acpi_answers_def by blast
  obtain b st2 gss where b: "map_device a st1 = Inr (VirtAddr (block_byte b 0), st2)"
    "live_inv st0 st2 (b # c # live) ([PhyAddr a] # gss @ ?fss)" "length gss = 1" "page_amount b = 1"
    "unat (block_byte b 0) + 4096 \<le> 2 ^ 64" "memory_reachable st0 (st2, {}, b # c # live)"
    "last_page_alloc (snd st2) = last_page_alloc (snd st0)"
    "free_count (physical_allocator (snd st0)) \<le> free_count (physical_allocator (snd st2)) + 4 * (k + B + 1)"
    using driver_step [OF room ds as(1) dev(2) m(3,4) k dev(1)] by auto
  obtain gs where gs: "gss = [gs]" using b(3) by (cases gss) auto
  obtain st' where st': "unmap_physical_region region st2 = Inr st'" "live_inv st0 st' (b # live) ([PhyAddr a] # ?fss)"
    "vm_kept {} 0 st2 st'" "last_page_alloc (snd st') = last_page_alloc (snd st2)"
    "memory_step (st2, {}, b # c # live) (st', {}, b # live)"
    using drop_region [of st0 st2 "[b]" c live "[[PhyAddr a]]" gs ?fss region] b(2) gs m(2) by auto
  have "memory_reachable st0 (st', {}, b # live)" using b(6) st'(5) by (rule rtranclp.rtrancl_into_rtrancl)
  then have "driver_state st0 st' (b # live) (a # as) (k + B + 1)"
    using b(4,7,8) st'(2-4) D by (simp add: driver_state_def held_pages_def vm_kept_def)
  then show ?thesis using m(1) b(1,5) st'(1) by blast
qed

text \<open>What the address space shows of the devices, and that it shows all else as before.\<close>

lemma driver_view:
  assumes "driver_state st0 st live as k"
  shows "\<And>i d. i < length as \<Longrightarrow> d < 4096 \<Longrightarrow> translate (fst st) (block_byte (live ! i) 0 + of_nat d) = Some (as ! i + of_nat d)"
    and "view (fst st0) (root (fst st0)) q \<noteq> Unmapped \<Longrightarrow> view (fst st) (root (fst st)) q = view (fst st0) (root (fst st0)) q"
proof -
  have inv: "live_inv st0 st live (map (\<lambda>a. [PhyAddr a]) as)" and len: "length live = length as"
    using assms by (simp_all add: driver_state_def)
  fix i d assume i: "i < length as" and d: "d < (4096 :: nat)"
  have "length (map (\<lambda>a. [PhyAddr a]) as ! i) = page_amount (live ! i)"
    using live_blockE(1) [OF inv, of i] i len by (simp add: block_mapped_def)
  then have "page_amount (live ! i) = 1" using i by simp
  then show "translate (fst st) (block_byte (live ! i) 0 + of_nat d) = Some (as ! i + of_nat d)"
    using live_byte(1) [OF inv, of i d] i d len by (simp add: block_byte_def)
next
  have inv: "live_inv st0 st live (map (\<lambda>a. [PhyAddr a]) as)" using assms by (simp add: driver_state_def)
  show "view (fst st) (root (fst st)) q = view (fst st0) (root (fst st0)) q"
    if "view (fst st0) (root (fst st0)) q \<noteq> Unmapped"
    using that live_invD(4) [OF inv, of q] live_invD(5) [OF inv, of _ q] by blast
qed

section \<open>Properties\<close>

lemma drivers_run:
  assumes "board_ok A b st0"
  shows "\<exists>st1 st2 st3 st4 b1 b2 b3. ioapic_init A st0 = Inr st1 \<and> hpet_base_addr A st1 = Inr (VirtAddr (block_byte b1 0), st2) \<and>
    local_apic_address A st2 = Inr (VirtAddr (block_byte b2 0), st3) \<and>
    ioapic_address A st3 = Inr (VirtAddr (block_byte b3 0), st4) \<and>
    (\<forall>b \<in> {b1, b2, b3}. unat (block_byte b 0) + 4096 \<le> 2 ^ 64) \<and>
    driver_state st0 st4 [b3, b2, b1] [ioapic_phys_addr b, lapic_phys_addr b, hpet_phys_addr b] (4 * tables_pages b + 3)"
proof -
  let ?F = "tables_frames b" and ?B = "tables_pages b" and ?madt = "board_madt b" and ?info = "board_hpet b"
  let ?hp = "hpet_phys_addr b" and ?la = "lapic_phys_addr b" and ?io = "ioapic_phys_addr b"
  have room: "drivers_room ?F ?B st0" and A: "acpi_answers A ?F ?B ?madt ?info"
    and hp: "main_counter_is_64bits ?info" "?hp = of_nat (base_address ?info)"
    and la: "?la = ucast (madt_lapic_address ?madt)"
    and io: "find_ioapic (madt_entries ?madt) = Some (IoApicEntry (ioapic_phys b) 0)" "?io = ucast (ioapic_phys b)"
    and dev: "device_at ?F st0 ?hp" "device_at ?F st0 ?la" "device_at ?F st0 ?io" "distinct [?hp, ?la, ?io]"
    using assms by (simp_all add: board_ok_def hpet_phys_addr_def lapic_phys_addr_def ioapic_phys_addr_def)
  have nF: "PhyAddr ?hp \<notin> ?F" "PhyAddr ?la \<notin> ?F" using dev by (simp_all add: device_at_def)
  obtain st1 where st1: "ioapic_init A st0 = Inr st1" "driver_state st0 st1 [] [] (0 + ?B)"
    using ioapic_init_driver [OF room driver_state_start [OF room] _ _ _ A] by auto
  obtain b1 st2 where st2: "hpet_base_addr A st1 = Inr (VirtAddr (block_byte b1 0), st2)"
    "driver_state st0 st2 [b1] [?hp] (0 + ?B + ?B + 1)" "unat (block_byte b1 0) + 4096 \<le> 2 ^ 64"
    using hpet_driver [OF room st1(2) _ _ _ A dev(1) _ hp] by auto
  obtain region r1 b2 r2 st3 where st3: "madt_table A st2 = Inr (?madt, region, r1)"
    "map_device ?la r1 = Inr (VirtAddr (block_byte b2 0), r2)" "unmap_physical_region region r2 = Inr st3"
    "driver_state st0 st3 [b2, b1] [?la, ?hp] (0 + ?B + ?B + 1 + ?B + 1)" "unat (block_byte b2 0) + 4096 \<le> 2 ^ 64"
    using madt_driver [OF room st2(2) _ _ _ A dev(2)] dev(4) nF by auto
  obtain region' q1 b3 q2 st4 where st4: "madt_table A st3 = Inr (?madt, region', q1)"
    "map_device ?io q1 = Inr (VirtAddr (block_byte b3 0), q2)" "unmap_physical_region region' q2 = Inr st4"
    "driver_state st0 st4 [b3, b2, b1] [?io, ?la, ?hp] (0 + ?B + ?B + 1 + ?B + 1 + ?B + 1)" "unat (block_byte b3 0) + 4096 \<le> 2 ^ 64"
    using madt_driver [OF room st3(4) _ _ _ A dev(3)] dev(4) nF by auto
  have "local_apic_address A st2 = Inr (VirtAddr (block_byte b2 0), st3)"
    using st3(1-3) la by (simp add: local_apic_address_def)
  moreover have "ioapic_address A st3 = Inr (VirtAddr (block_byte b3 0), st4)"
    using st4(1-3) io by (simp add: ioapic_address_def)
  moreover have "driver_state st0 st4 [b3, b2, b1] [?io, ?la, ?hp] (4 * ?B + 3)"
    using st4(4) by (simp add: numeral_eq_Suc add.assoc)
  moreover have "\<forall>b \<in> {b1, b2, b3}. unat (block_byte b 0) + 4096 \<le> 2 ^ 64" using st2(3) st3(5) st4(5) by blast
  ultimately show ?thesis using st1(1) st2(1) by blast
qed

text \<open>The registers of the three devices, as the address space of a later state shows them.\<close>

definition registers_shown :: "board \<Rightarrow> vm \<Rightarrow> u64 \<Rightarrow> u64 \<Rightarrow> u64 \<Rightarrow> vm \<Rightarrow> bool" where
  "registers_shown b st0 v1 v2 v3 st \<longleftrightarrow>
    (\<exists>b1 b2 b3. memory_reachable st0 (st, {}, [b3, b2, b1]) \<and> block_byte b1 0 = v1 \<and> block_byte b2 0 = v2 \<and> block_byte b3 0 = v3) \<and>
    (\<forall>d < 4096. translate (fst st) (v1 + of_nat d) = Some (hpet_phys_addr b + of_nat d) \<and>
      translate (fst st) (v2 + of_nat d) = Some (lapic_phys_addr b + of_nat d) \<and>
      translate (fst st) (v3 + of_nat d) = Some (ioapic_phys_addr b + of_nat d)) \<and>
    (\<forall>q. view (fst st0) (root (fst st0)) q \<noteq> Unmapped \<longrightarrow> view (fst st) (root (fst st)) q = view (fst st0) (root (fst st0)) q)"

lemma registers_shownI:
  assumes ds: "driver_state st0 st [b3, b2, b1] [ioapic_phys_addr b, lapic_phys_addr b, hpet_phys_addr b] k"
  shows "registers_shown b st0 (block_byte b1 0) (block_byte b2 0) (block_byte b3 0) st"
proof -
  have "memory_reachable st0 (st, {}, [b3, b2, b1])" using ds by (simp add: driver_state_def)
  then show ?thesis
    using driver_view(1) [OF ds, of 0] driver_view(1) [OF ds, of 1] driver_view(1) [OF ds, of 2] driver_view(2) [OF ds]
    unfolding registers_shown_def by auto
qed

section \<open>A block of the heap before the drivers\<close>

text \<open>Room for a block of \<open>n\<close> pages besides.\<close>

definition board_room :: "nat \<Rightarrow> 't acpi \<Rightarrow> board \<Rightarrow> vm \<Rightarrow> bool" where
  "board_room n A b st0 \<longleftrightarrow> board_ok A b st0 \<and>
    16 * (tables_pages b + 1) + 4 * n \<le> free_count (physical_allocator (snd st0)) \<and>
    (\<exists>r. free_run (fst st0) (last_page_alloc (snd st0)) r (4 * (tables_pages b + 1) + n))"

text \<open>
  The memory when the block at \<open>x\<close>, of two pages, and the registers are the live allocations.
\<close>

definition boot_memory :: "board \<Rightarrow> vm \<Rightarrow> u64 \<Rightarrow> u64 \<Rightarrow> u64 \<Rightarrow> u64 \<Rightarrow> vm \<Rightarrow> bool" where
  "boot_memory b st0 x v1 v2 v3 st \<longleftrightarrow>
    (\<exists>b0 b1 b2 b3. memory_reachable st0 (st, {}, [b3, b2, b1, b0]) \<and> page_amount b0 = 2 \<and>
      map (\<lambda>b. block_byte b 0) [b0, b1, b2, b3] = [x, v1, v2, v3]) \<and>
    (\<forall>d < 8192. translate (fst st0) (x + of_nat d) = None \<and> translate (fst st) (x + of_nat d) \<noteq> None) \<and>
    (\<forall>d < 4096. translate (fst st) (v1 + of_nat d) = Some (hpet_phys_addr b + of_nat d) \<and>
      translate (fst st) (v2 + of_nat d) = Some (lapic_phys_addr b + of_nat d) \<and>
      translate (fst st) (v3 + of_nat d) = Some (ioapic_phys_addr b + of_nat d)) \<and>
    (\<forall>q. view (fst st0) (root (fst st0)) q \<noteq> Unmapped \<longrightarrow> view (fst st) (root (fst st)) q = view (fst st0) (root (fst st0)) q)"

lemma vm_ok_mono: "vm_ok G st \<Longrightarrow> H \<subseteq> G \<Longrightarrow> vm_ok H st"
  unfolding vm_ok_def by (auto simp: Let_def elim: space_ok_mono)

lemma heap_block_run:
  assumes run: "free_run m p r (n + L)" and p: "page_ok p" and k: "k \<le> r" and n: "0 < n"
    and v: "view m' (root m') = map_pages (view m (root m)) (pages_from (page_plus p k) n) fs" "length fs = n"
  shows "free_run m' (page_plus (page_plus p k) (n - 1)) (r + 1 - k) L"
proof -
  have top: "canonical_num p + r + (n + L) < 2 ^ 36" using run by (simp add: free_run_def)
  have num: "canonical_num (page_plus p j) = canonical_num p + j" if "j < r + n + L" for j
    using page_plus_nums(2) [OF p, of j] top that by simp
  have ok: "page_ok (page_plus p k)" "canonical_num (page_plus p k) + n < 2 ^ 36"
    using page_plus_nums(3) [OF p, of k] num [of k] top k n by simp_all
  have "view m' (root m') (page_plus p j) = Unmapped" if j: "r + n \<le> j" "j < r + n + L" for j
  proof -
    have "canonical_num (page_plus p j) \<notin> canonical_num ` set (pages_from (page_plus p k) n)"
      using j k num by (auto simp: set_pages_from page_plus_plus)
    then show ?thesis using mapped_pages(2) [OF ok v(2)] run j by (simp add: v(1) free_run_def)
  qed
  then have "view m' (root m') (page_plus p (k + (n - 1) + j)) = Unmapped" if "r + 1 - k \<le> j" "j < r + 1 - k + L" for j
    using that k n by simp
  then show ?thesis using top k n num [of "k + (n - 1)"] by (simp add: free_run_def page_plus_plus)
qed

lemma heap_block_first:
  assumes room: "board_room n A b st0" and al: "layout_align l dvd 4096" and n: "n = layout_size l div 4096 + 1"
  shows "\<exists>b0 st1 fs. alloc_or_abort l st0 = Inr (block_byte b0 0, st1) \<and> page_amount b0 = n \<and> board_ok A b st1 \<and>
    live_inv st0 st1 [b0] [fs] \<and> memory_step (st0, {}, []) (st1, {}, [b0])"
proof -
  obtain m inner where st0: "st0 = (m, inner)" by fastforce
  let ?F = "tables_frames b" and ?B = "tables_pages b" and ?last = "last_page_alloc inner"
  have board: "board_ok A b st0" and free: "16 * (?B + 1) + 4 * n \<le> free_count (physical_allocator inner)"
    using room by (simp_all add: board_room_def st0)
  obtain r where run: "free_run m ?last r (n + 4 * (?B + 1))" using room by (auto simp: board_room_def st0 add.commute)
  note R = board [unfolded board_ok_def, THEN conjunct1, unfolded drivers_room_def]
  have ok: "vm_ok {} (m, inner)" using R by (simp add: st0)
  have rn: "free_run m ?last r n" using run by (auto simp: free_run_def)
  have fn: "4 * n \<le> free_count (physical_allocator inner)" using free by simp
  from heap_alloc_pages [OF ok n al fn rn] obtain p fs m' inner' where
    a: "heap_alloc l (m, inner) = Inr (num p * PAGE_SIZE, m', inner')" "vm_ok (set fs \<union> {}) (m', inner')"
      "page_ok p" "canonical_num p + n < 2 ^ 36" "unat (num p) + n < 2 ^ 36"
      "\<forall>x\<in>set (pages_from p n). view m (root m) x = Unmapped" "length fs = n" "distinct fs"
      "root m' = root m" "view m' (root m) = map_pages (view m (root m)) (pages_from p n) fs"
      "vm_kept {} (4 * n) (m, inner) (m', inner')"
    and k: "\<exists>k\<le>r. p = page_plus ?last k" "last_page_alloc inner' = page_plus p (n - 1)"
    by metis
  let ?b = "\<lparr>first_page = p, page_amount = n\<rparr>" and ?st1 = "(m', inner')"
  obtain i where i: "i \<le> r" "p = page_plus ?last i" using k(1) by blast
  have "unat (num p) = unat (num ?last) + i"
    using page_plus_nums(1) [OF vm_okD(2) [OF ok], of i] run i by (simp add: free_run_def)
  then have "unat (num p * PAGE_SIZE) \<noteq> 0" using vm_okD(7) [OF ok] a(5) by (simp add: unat_word_ariths)
  then have ptr: "alloc_or_abort l st0 = Inr (block_byte ?b 0, ?st1)" using a(1) by (auto simp: alloc_or_abort_def st0 block_byte_def)
  have new: "page_allocation_new (VirtAddr (num p * PAGE_SIZE)) n = Inr ?b"
    using page_from_low [of p] a(5) by (simp add: page_allocation_new_def)
  have "grown (set (concat [])) st0 ?b fs ?st1"
    using a n vm_kept_mono [OF a(11)] by (auto simp: grown_def block_ok_def st0)
  moreover have "live_inv st0 st0 [] []" using ok by (simp add: live_inv_def outside_kept_refl st0)
  ultimately have inv: "live_inv st0 ?st1 [?b] [fs]" using live_inv_grown by blast
  have "has_room st0 n" using fn rn n by (auto simp: has_room_def st0)
  then have "memory_step (st0, {}, []) (?st1, {}, [?b])"
    using memory_step.grant [OF granted.heap [OF al, of st0 "num p * PAGE_SIZE" ?st1 ?b], of "{}" "[]"] a(1) new
    by (simp add: st0 n)
  moreover have kept: "outside_kept {} st0 ?st1" using a(11) by (simp add: vm_kept_def st0)
  have "drivers_room ?F ?B ?st1"
  proof -
    have "vm_ok {} ?st1" using vm_ok_mono [OF a(2)] by simp
    moreover have "free_run m' (page_plus p (n - 1)) (r + 1 - i) (4 * (?B + 1))"
      unfolding i(2) by (rule heap_block_run [OF run vm_okD(2) [OF ok] i(1) _ _ a(7)]) (use a(9,10) n i(2) in simp_all)
    moreover have "16 * (?B + 1) \<le> free_count (physical_allocator inner')" using a(11) free by (simp add: vm_kept_def)
    ultimately show ?thesis using R kept k(2) by (auto simp: drivers_room_def outside_kept_def Let_def st0)
  qed
  moreover have "device_at ?F ?st1 a" if "device_at ?F st0 a" for a
    using that frames_free_kept [OF kept, of a 1] kept range_frames_device(1) [of a]
    by (auto simp: device_at_def outside_kept_def Let_def)
  ultimately have "board_ok A b ?st1" using board by (simp add: board_ok_def)
  then show ?thesis using ptr inv \<open>memory_step (st0, {}, []) (?st1, {}, [?b])\<close> by (metis page_allocation.select_convs(2))
qed

text \<open>Allocations that are live throughout.\<close>

lemma memory_steps_beside:
  assumes "memory_step\<^sup>*\<^sup>* (st, c, live) (st', c', live')"
  shows "memory_step\<^sup>*\<^sup>* (st, c, live @ xs) (st', c', live' @ xs)"
  using assms
proof (induction "(st', c', live')" arbitrary: st' c' live' rule: rtranclp_induct)
  case (step s)
  obtain st1 c1 live1 where s: "s = (st1, c1, live1)" by (rule prod_cases3)
  have "memory_step (st1, c1, live1 @ xs) (st', c', live' @ xs)"
    using step(2) unfolding s
  proof (cases rule: memory_step.cases)
    case (release al)
    then show ?thesis using memory_step.release [of al "live1 @ xs"] by (simp add: remove1_append)
  qed (auto intro: memory_step.intros memory_step.grant [of _ _ _ _ "live1 @ xs", simplified])
  then show ?case using step(3) [OF s] by (rule rtranclp.rtrancl_into_rtrancl [rotated])
qed simp

lemma boot_memoryI:
  assumes inv: "live_inv st0 st1 [b0] [fs]" "memory_step (st0, {}, []) (st1, {}, [b0])" "page_amount b0 = 2"
    and shown: "registers_shown b st1 v1 v2 v3 st"
  shows "boot_memory b st0 (block_byte b0 0) v1 v2 v3 st"
proof -
  note S = shown [unfolded registers_shown_def]
  obtain b1 b2 b3 where reach: "memory_reachable st1 (st, {}, [b3, b2, b1])"
    and v: "block_byte b1 0 = v1" "block_byte b2 0 = v2" "block_byte b3 0 = v3" using S by blast
  have "memory_reachable st0 (st, {}, [b3, b2, b1, b0])"
    using memory_steps_beside [OF reach, of "[b0]"] inv(2) converse_rtranclp_into_rtranclp [of memory_step] by auto
  moreover have "view (fst st) (root (fst st)) q = view (fst st0) (root (fst st0)) q"
    if q: "view (fst st0) (root (fst st0)) q \<noteq> Unmapped" for q
  proof -
    have "view (fst st1) (root (fst st1)) q = view (fst st0) (root (fst st0)) q"
      using live_invD(4) [OF inv(1), of q] live_invD(5) [OF inv(1), of b0 q] q by auto
    then show ?thesis using S q by simp
  qed
  moreover have "translate (fst st0) (block_byte b0 0 + of_nat d) = None \<and> translate (fst st) (block_byte b0 0 + of_nat d) \<noteq> None"
    if d: "d < 8192" for d
  proof -
    have t: "translate (fst st1) (block_byte b0 d) \<noteq> None" "translate (fst st0) (block_byte b0 d) = None"
      using live_byte(1,3) [OF inv(1), of 0 d] inv(3) d by simp_all
    then have "translate (fst st) (block_byte b0 d) \<noteq> None" using S by (auto simp: translate_def split: mapping_view.splits)
    then show ?thesis using t by (simp add: block_byte_def)
  qed
  ultimately show ?thesis using S v inv(3) unfolding boot_memory_def by auto
qed

text \<open>The panics: no table, a timer that is not 64 bits wide, no I/O controller or one whose lines do not start at 0.\<close>

lemma driver_panics:
  "rsdp_address A = None \<Longrightarrow> hpet_base_addr A st = Inl UnwrapNone \<and> local_apic_address A st = Inl UnwrapNone \<and>
    ioapic_address A st = Inl UnwrapNone \<and> ioapic_init A st = Inl UnwrapNone"
  "hpet_table A st = Inr (info, st') \<Longrightarrow> \<not> main_counter_is_64bits info \<Longrightarrow>
    hpet_base_addr A st = Inl (Explicit ''HPET IS NOT CAPABLE OF 64 BITS!'')"
  "madt_table A st = Inr (madt, region, st') \<Longrightarrow> find_ioapic (madt_entries madt) = None \<Longrightarrow> ioapic_address A st = Inl UnwrapNone"
  "madt_table A st = Inr (madt, region, st') \<Longrightarrow> find_ioapic (madt_entries madt) = Some (IoApicEntry a g) \<Longrightarrow> g \<noteq> 0 \<Longrightarrow>
    ioapic_address A st = Inl AssertFailed"
  by (simp_all add: hpet_base_addr_def local_apic_address_def ioapic_address_def ioapic_init_def hpet_table_def madt_table_def acpi_tables_def)

text \<open>
  C30. The drivers map their devices. In a machine where the registers and the ACPI tables lie outside the usable memory, and the
  ACPI library finds the tables, the initialisation of the I/O controller and then the three statics, in the order of their first use,
  are computed without a panic; the mappings of the tables are all given back, and the only live
  allocations are the three register pages; each shows the 4096 bytes at the address its table reports, and no
  mapping that existed before changes.
\<close>

theorem devices_mapped:
  assumes "board_ok A b st0"
  shows "\<exists>st1 st2 st3 st4 v1 v2 v3. ioapic_init A st0 = Inr st1 \<and> hpet_base_addr A st1 = Inr (VirtAddr v1, st2) \<and>
    local_apic_address A st2 = Inr (VirtAddr v2, st3) \<and> ioapic_address A st3 = Inr (VirtAddr v3, st4) \<and>
    registers_shown b st0 v1 v2 v3 st4"
  using drivers_run [OF assms] registers_shownI by blast

lemma boot_outside:
  assumes "i < BITMAP_SIZE" and "0x40000 \<le> i" and "unat a = i * 4096 + 0x100000"
  shows "frames_free (boot_machine, boot_inner) a 1" and "PhyAddr a \<notin> usable_frames (physical_allocator boot_inner)"
    and "unat a mod 4096 = 0"
proof -
  have "unat a = 4096 * (i + 256)" using assms(3) by simp
  then show al: "unat a mod 4096 = 0" by (simp only: mod_mult_self1_is_0)
  show "frames_free (boot_machine, boot_inner) a 1" by (rule boot_frames [of i]) (use assms al in simp_all)
  have "frame_of (physical_allocator boot_inner) i = PhyAddr a"
    using of_nat_unat_word [of a] by (simp add: boot_frame_of assms(3))
  moreover have "\<not> usable_index (physical_allocator boot_inner) i"
    using assms(2) by (simp add: usable_index_def boot_inner_def)
  ultimately show "PhyAddr a \<notin> usable_frames (physical_allocator boot_inner)"
    using usable_frames_iff [OF boot_inv(1) assms(1)] by simp
qed

lemma example_room: "drivers_room {PhyAddr 0x7fe00000} 1 (boot_machine, boot_inner)"
proof -
  have "range_frames 0x7fe00000 1 = [PhyAddr 0x7fe00000]" by (rule range_frames_device) simp
  then show ?thesis
    using boot_outside [of "0x7fd00" "0x7fe00000"] boot_vm_ok boot_free_run [of 8]
    by (auto simp: drivers_room_def frames_free_def BITMAP_SIZE_def boot_free)
qed

lemma example_devices:
  "\<forall>a \<in> {0xfed00000, 0xfee00000, 0xfec00000}. device_at {PhyAddr 0x7fe00000} (boot_machine, boot_inner) a"
  using boot_outside [of "0xfec00" "0xfed00000"] boot_outside [of "0xfed00" "0xfee00000"] boot_outside [of "0xfeb00" "0xfec00000"]
  by (simp add: device_at_def BITMAP_SIZE_def)

definition example_board :: board where
  "example_board = \<lparr>tables_frames = {PhyAddr 0x7fe00000}, tables_pages = 1, board_madt = example_madt,
    board_hpet = example_hpet_info, ioapic_phys = 0xfec00000\<rparr>"

lemma example_board_ok: "board_ok example_acpi example_board (boot_machine, boot_inner)"
  using example_room example_acpi_answers example_devices
  by (simp add: board_ok_def example_board_def hpet_phys_addr_def lapic_phys_addr_def ioapic_phys_addr_def)
    (simp add: example_madt_def example_hpet_info_def)

theorem devices_mapped_witness:
  "\<exists>st1 st2 v. ioapic_init example_acpi (boot_machine, boot_inner) = Inr st1 \<and>
    hpet_base_addr example_acpi st1 = Inr (VirtAddr v, st2)"
  using devices_mapped [OF example_board_ok] by blast

end
