(* ===== verification/Idt.thy ===== *)
theory Idt
  imports Format Handlers
begin

text \<open>
  The interrupt descriptor table of \<open>src/idt.rs\<close> and the table that
  \<open>create_init_idt\<close> of \<open>src/lib.rs\<close> builds for the 32 processor exceptions.

  A handler is one of the functions the macros generate; the address the linker gives it is a
  parameter \<open>link\<close>. The address of the table and the code segment are parameters as well.
  How the processor reads a gate (\<open>gate_offset\<close>, \<open>gate_present\<close> and so on) follows its manual.

  Lemmas: a gate encodes its entry exactly; an insertion changes one gate and panics
  outside the table; the initial table has a present gate for every exception, with the
  wrapper that takes an error code just where the processor pushes one.
\<close>

section \<open>Entries\<close>

datatype idt_entry_type = Interrupt u64 | Trap u64

record idt_entry =
  entry_type :: idt_entry_type
  gdt_kernel_cs :: u16

record idt_entry_raw =
  fn_ptr_low :: u16
  raw_kernel_cs :: u16
  options :: u16
  fn_ptr_mid :: u16
  fn_ptr_high :: u32
  reserved :: u32

record idt_ptr =
  limit :: u16
  base :: u64

record idt =
  raw :: "idt_entry_raw list"
  ptr :: idt_ptr

definition entry_new :: "idt_entry_type \<Rightarrow> u16 \<Rightarrow> idt_entry" where
  "entry_new ty kcs = \<lparr>entry_type = ty, gdt_kernel_cs = kcs\<rparr>"

definition to_raw :: "idt_entry \<Rightarrow> idt_entry_raw" where
  "to_raw e =
    (let fn_ptr = (case entry_type e of Interrupt f \<Rightarrow> f | Trap f \<Rightarrow> f);
         low = ucast (fn_ptr AND 0xffff);
         mid = ucast (drop_bit 16 fn_ptr);
         high = ucast (drop_bit 32 fn_ptr);
         opts = (case entry_type e of Interrupt _ \<Rightarrow> 0x8E00 | Trap _ \<Rightarrow> 0x8F00) in
     \<lparr>fn_ptr_low = low, raw_kernel_cs = gdt_kernel_cs e, options = opts,
      fn_ptr_mid = mid, fn_ptr_high = high, reserved = 0\<rparr>)"

definition raw_zeroed :: idt_entry_raw where
  "raw_zeroed = \<lparr>fn_ptr_low = 0, raw_kernel_cs = 0, options = 0, fn_ptr_mid = 0, fn_ptr_high = 0, reserved = 0\<rparr>"

section \<open>The table\<close>

definition IDT_LEN :: nat where
  "IDT_LEN = 256"

text \<open>A packed entry has two bytes for each of the first four fields and four for the others.\<close>

definition size_of_idt_raw :: nat where
  "size_of_idt_raw = IDT_LEN * (2 + 2 + 2 + 2 + 4 + 4)"

definition idt_init :: "u64 \<Rightarrow> idt" where
  "idt_init raw_addr =
    (let i = \<lparr>raw = replicate IDT_LEN raw_zeroed,
              ptr = \<lparr>limit = of_nat (size_of_idt_raw - 1), base = 0\<rparr>\<rparr> in
     i\<lparr>ptr := (ptr i)\<lparr>base := raw_addr\<rparr>\<rparr>)"

definition idt_insert :: "idt \<Rightarrow> nat \<Rightarrow> idt_entry \<Rightarrow> idt run" where
  "idt_insert i index e =
    (if index < length (raw i) then Inr (i\<lparr>raw := (raw i)[index := to_raw e]\<rparr>) else Inl UnwrapNone)"

text \<open>\<open>lidt\<close> loads the pointer; the register of the processor becomes it.\<close>

definition idt_load :: "idt \<Rightarrow> idt_ptr" where
  "idt_load i = ptr i"

section \<open>Handlers\<close>

text \<open>What a handler does when the exception comes: the expression its macro was given.\<close>

datatype handler_body =
    PanicWith string
  | PanicErr string
  | GpFault
  | PageFault
  | SendEoi

datatype wrapper_kind = InterruptHandlerFn | TrapHandlerFn | TrapHandlerFnWithError

datatype handler = Handler (kind: wrapper_kind) (handler_body: handler_body)

definition desc_table :: "u64 \<Rightarrow> string run" where
  "desc_table err =
    (let b = drop_bit 1 err AND 3 in
     if b = 0 then Inr ''GDT''
     else if b = 1 \<or> b = 3 then Inr ''IDT''
     else if b = 2 then Inr ''LDT''
     else Inl (Explicit ''internal error: entered unreachable code''))"

definition gp_fault :: "u64 \<Rightarrow> 'a run" where
  "gp_fault err =
    (let is_external = (if err AND 1 \<noteq> 0 then True else False) in
     bnd (desc_table err) (\<lambda>table.
     let idx = drop_bit 3 err AND 0x1fff in
     Inl (Explicit (''exception 13; general protection fault; err code: '' @ show_dec (unat err) @
       ''\<newline>is_external: '' @ show_bool is_external @
       ''\<newline>caused by: '' @ table @ ''\<newline>index: '' @ show_dec (unat idx)))))"

definition page_fault :: "u64 \<Rightarrow> u64 \<Rightarrow> 'a run" where
  "page_fault cr2 err =
    Inl (Explicit (''page protection fault; addr: 0x'' @ show_radix 16 (unat cr2) @
      ''; err_code: '' @ show_radix 2 (unat err)))"

text \<open>
  The body of a handler on the error code and the faulting address of the processor; the
  acknowledgement of an interrupt is an operation on the rest of the state.
\<close>

fun run_body :: "('w \<Rightarrow> 'w run) \<Rightarrow> handler_body \<Rightarrow> u64 \<Rightarrow> u64 \<Rightarrow> 'w \<Rightarrow> 'w run" where
  "run_body eoi (PanicWith msg) err cr2 w = Inl (Explicit msg)"
| "run_body eoi (PanicErr msg) err cr2 w = Inl (Explicit (msg @ show_dec (unat err)))"
| "run_body eoi GpFault err cr2 w = gp_fault err"
| "run_body eoi PageFault err cr2 w = page_fault cr2 err"
| "run_body eoi SendEoi err cr2 w = eoi w"

section \<open>The initial table\<close>

definition insert_trap :: "(handler \<Rightarrow> u64) \<Rightarrow> u16 \<Rightarrow> nat \<Rightarrow> handler \<Rightarrow> idt \<Rightarrow> idt run" where
  "insert_trap link kcs idx h i = idt_insert i idx (entry_new (Trap (link h)) kcs)"

definition insert_interrupt :: "(handler \<Rightarrow> u64) \<Rightarrow> u16 \<Rightarrow> nat \<Rightarrow> handler \<Rightarrow> idt \<Rightarrow> idt run" where
  "insert_interrupt link kcs idx h i = idt_insert i idx (entry_new (Interrupt (link h)) kcs)"

abbreviation trap_panic :: "string \<Rightarrow> handler" where
  "trap_panic msg \<equiv> Handler TrapHandlerFn (PanicWith msg)"

abbreviation trap_panic_err :: "string \<Rightarrow> handler" where
  "trap_panic_err msg \<equiv> Handler TrapHandlerFnWithError (PanicErr msg)"

text \<open>The insertions of \<open>create_init_idt\<close> in their order; \<open>False\<close> marks the interrupt gate.\<close>

definition low_gates :: "(bool \<times> nat \<times> handler) list" where
  "low_gates =
    [(True, 0, trap_panic ''divide by 0 exception (0)''),
     (True, 1, trap_panic ''dbg (1)''),
     (False, 2, Handler InterruptHandlerFn (PanicWith ''NMI interrupt? (2)'')),
     (True, 3, trap_panic ''exception 3; breakpoint''),
     (True, 4, trap_panic ''exception 4; overflow''),
     (True, 5, trap_panic ''exception 5; bound ranger exceeded''),
     (True, 6, trap_panic ''exception 6; invalid opcode''),
     (True, 7, trap_panic ''exception 7; device not available''),
     (True, 8, trap_panic_err ''exception 8; double fault; err code: ''),
     (True, 9, trap_panic ''exception 9; coprocessor segment overrun''),
     (True, 10, trap_panic_err ''exception 10; invalid tss; err code ''),
     (True, 11, trap_panic_err ''exception 11; segment not present; err code: ''),
     (True, 12, trap_panic_err ''exception 12; stack segment fault; err code: ''),
     (True, 13, Handler TrapHandlerFnWithError GpFault),
     (True, 15, trap_panic ''exception 15; reserved''),
     (True, 16, trap_panic ''exception 16; x87 floating point exception''),
     (True, 17, trap_panic_err ''exception 17; alignment check; err code: ''),
     (True, 18, trap_panic ''exception 18; machine check''),
     (True, 19, trap_panic ''exception 19; simd floating point exception''),
     (True, 20, trap_panic ''exception 20; virtualization exception'')]"

definition high_gates :: "(bool \<times> nat \<times> handler) list" where
  "high_gates =
    [(True, 21, trap_panic_err ''exception 21; control protection exception; err code: ''),
     (True, 22, trap_panic ''exception 22; reserved''),
     (True, 23, trap_panic ''exception 23; reserved''),
     (True, 24, trap_panic ''exception 24; reserved''),
     (True, 25, trap_panic ''exception 25; reserved''),
     (True, 26, trap_panic ''exception 26; reserved''),
     (True, 27, trap_panic ''exception 27; reserved''),
     (True, 28, trap_panic ''exception 28; hypervisor injection exception''),
     (True, 29, trap_panic_err ''exception 29; vmm communication exception; err code: ''),
     (True, 30, trap_panic_err ''exception 30; security exception; err code: ''),
     (True, 31, trap_panic ''exception 31; reserved''),
     (True, 14, Handler TrapHandlerFnWithError PageFault)]"

definition init_gates :: "(bool \<times> nat \<times> handler) list" where
  "init_gates = low_gates @ high_gates"

lemmas init_gates_unfold = init_gates_def low_gates_def high_gates_def

definition insert_gate :: "(handler \<Rightarrow> u64) \<Rightarrow> u16 \<Rightarrow> bool \<times> nat \<times> handler \<Rightarrow> idt \<Rightarrow> idt run" where
  "insert_gate link kcs g i =
    (case g of (trap, idx, h) \<Rightarrow>
      if trap then insert_trap link kcs idx h i else insert_interrupt link kcs idx h i)"

definition create_init_idt :: "(handler \<Rightarrow> u64) \<Rightarrow> u16 \<Rightarrow> u64 \<Rightarrow> idt run" where
  "create_init_idt link kcs raw_addr = for_list (insert_gate link kcs) init_gates (idt_init raw_addr)"

section \<open>How the processor reads a gate\<close>

definition gate_offset :: "idt_entry_raw \<Rightarrow> u64" where
  "gate_offset r = ucast (fn_ptr_low r) OR push_bit 16 (ucast (fn_ptr_mid r)) OR push_bit 32 (ucast (fn_ptr_high r))"

definition gate_present :: "idt_entry_raw \<Rightarrow> bool" where
  "gate_present r = bit (options r) 15"

definition gate_dpl :: "idt_entry_raw \<Rightarrow> u16" where
  "gate_dpl r = drop_bit 13 (options r) AND 3"

definition gate_type :: "idt_entry_raw \<Rightarrow> u16" where
  "gate_type r = drop_bit 8 (options r) AND 0xF"

definition gate_ist :: "idt_entry_raw \<Rightarrow> u16" where
  "gate_ist r = options r AND 7"

text \<open>The exceptions for which the processor pushes an error code.\<close>

definition pushes_error_code :: "nat \<Rightarrow> bool" where
  "pushes_error_code v = (v \<in> {8, 10, 11, 12, 13, 14, 17, 21, 29, 30})"

lemmas gate_defs = gate_offset_def gate_present_def gate_dpl_def gate_type_def gate_ist_def

section \<open>Encoding\<close>

lemma join_parts:
  "ucast (ucast (f AND 0xffff) :: u16) OR push_bit 16 (ucast (ucast (drop_bit 16 f) :: u16)) OR
    push_bit 32 (ucast (ucast (drop_bit 32 f) :: u32)) = f" for f :: u64
proof (rule bit_word_eqI)
  have mask: "(0xffff :: u64) = mask 16" by (simp add: mask_eq_exp_minus_1)
  fix n assume "n < LENGTH(64)"
  then show "bit (ucast (ucast (f AND 0xffff) :: u16) OR push_bit 16 (ucast (ucast (drop_bit 16 f) :: u16)) OR
      push_bit 32 (ucast (ucast (drop_bit 32 f) :: u32)) :: u64) n = bit f n"
    unfolding mask by (cases "32 \<le> n"; cases "16 \<le> n") (auto simp: bit_simps)
qed

text \<open>
  A gate holds exactly its entry: the processor reads back the address of the handler, the code
  segment, the gate type, privilege level 0, no separate stack and the present bit.
\<close>

lemma gate_roundtrip:
  "let r = to_raw (entry_new ty kcs) in
    gate_offset r = (case ty of Interrupt f \<Rightarrow> f | Trap f \<Rightarrow> f) \<and> raw_kernel_cs r = kcs \<and>
    gate_type r = (case ty of Interrupt _ \<Rightarrow> 0xE | Trap _ \<Rightarrow> 0xF) \<and>
    gate_present r \<and> gate_dpl r = 0 \<and> gate_ist r = 0"
  by (cases ty) (simp_all add: to_raw_def entry_new_def gate_defs join_parts Let_def bit_numeral_rec)

lemma gate_of_entry:
  assumes "r = to_raw (entry_new ty kcs)"
  shows "gate_offset r = (case ty of Interrupt f \<Rightarrow> f | Trap f \<Rightarrow> f)" and "raw_kernel_cs r = kcs"
    and "gate_present r" and "gate_type r = (case ty of Interrupt _ \<Rightarrow> 0xE | Trap _ \<Rightarrow> 0xF)"
  using gate_roundtrip [of ty kcs] by (simp_all add: assms Let_def)

lemma zeroed_not_present [simp]: "\<not> gate_present raw_zeroed"
  by (simp add: gate_defs raw_zeroed_def)

section \<open>Insertions\<close>

definition gate_entry :: "(handler \<Rightarrow> u64) \<Rightarrow> u16 \<Rightarrow> bool \<times> nat \<times> handler \<Rightarrow> idt_entry" where
  "gate_entry link kcs g =
    (case g of (trap, idx, h) \<Rightarrow> entry_new (if trap then Trap (link h) else Interrupt (link h)) kcs)"

lemma insert_gate_eq: "insert_gate link kcs g i = idt_insert i (fst (snd g)) (gate_entry link kcs g)"
  by (simp add: insert_gate_def gate_entry_def insert_trap_def insert_interrupt_def split: prod.split)

lemma insert_gates:
  assumes "\<forall>g \<in> set gs. fst (snd g) < length (raw i)" and "distinct (map (fst \<circ> snd) gs)"
  shows "\<exists>i'. for_list (insert_gate link kcs) gs i = Inr i' \<and> ptr i' = ptr i \<and>
    length (raw i') = length (raw i) \<and>
    (\<forall>g \<in> set gs. raw i' ! fst (snd g) = to_raw (gate_entry link kcs g)) \<and>
    (\<forall>v. v \<notin> (fst \<circ> snd) ` set gs \<longrightarrow> raw i' ! v = raw i ! v)"
  using assms
proof (induction gs arbitrary: i)
  case Nil
  then show ?case by simp
next
  case (Cons g gs)
  let ?i = "i\<lparr>raw := (raw i)[fst (snd g) := to_raw (gate_entry link kcs g)]\<rparr>"
  have g: "fst (snd g) < length (raw i)" "fst (snd g) \<notin> (fst \<circ> snd) ` set gs"
    using Cons.prems by simp_all
  then have step: "insert_gate link kcs g i = Inr ?i" by (simp add: insert_gate_eq idt_insert_def)
  have "\<exists>i'. for_list (insert_gate link kcs) gs ?i = Inr i' \<and> ptr i' = ptr ?i \<and>
      length (raw i') = length (raw ?i) \<and>
      (\<forall>g \<in> set gs. raw i' ! fst (snd g) = to_raw (gate_entry link kcs g)) \<and>
      (\<forall>v. v \<notin> (fst \<circ> snd) ` set gs \<longrightarrow> raw i' ! v = raw ?i ! v)"
    using Cons.prems by (intro Cons.IH) simp_all
  then obtain i' where i': "for_list (insert_gate link kcs) gs ?i = Inr i'" "ptr i' = ptr i"
    "length (raw i') = length (raw i)" "\<forall>g \<in> set gs. raw i' ! fst (snd g) = to_raw (gate_entry link kcs g)"
    and rest: "\<forall>v. v \<notin> (fst \<circ> snd) ` set gs \<longrightarrow> raw i' ! v = raw ?i ! v"
    by (elim exE conjE) simp
  have "raw i' ! fst (snd g) = to_raw (gate_entry link kcs g)"
    using rest [THEN spec, THEN mp, OF g(2)] g(1) by simp
  moreover have "raw i' ! v = raw i ! v" if "v \<notin> (fst \<circ> snd) ` set (g # gs)" for v
    using rest [THEN spec [of _ v]] that by simp
  ultimately show ?case using step i' by (intro exI [of _ i']) simp
qed

lemma init_gates_distinct: "distinct (map (fst \<circ> snd) init_gates)"
  by (simp add: init_gates_unfold)

lemma length_init_gates: "length init_gates = 32"
  by (simp add: init_gates_unfold)

lemma init_gates_vectors: "(fst \<circ> snd) ` set init_gates = {..<32}"
proof (rule card_subset_eq)
  show "(fst \<circ> snd) ` set init_gates \<subseteq> {..<32}" by (simp add: init_gates_unfold)
  show "card ((fst \<circ> snd) ` set init_gates) = card {..<32 :: nat}"
    using distinct_card [OF init_gates_distinct] length_init_gates by simp
qed simp

lemma init_gates_kinds:
  "\<forall>g \<in> set init_gates. (fst g \<longleftrightarrow> fst (snd g) \<noteq> 2) \<and>
    (kind (snd (snd g)) = TrapHandlerFnWithError \<longleftrightarrow> pushes_error_code (fst (snd g))) \<and>
    (kind (snd (snd g)) = InterruptHandlerFn \<longleftrightarrow> fst (snd g) = 2)"
  by (simp add: init_gates_unfold pushes_error_code_def)

lemma init_gate_of:
  assumes "v < 32"
  obtains trap h where "(trap, v, h) \<in> set init_gates" and "trap \<longleftrightarrow> v \<noteq> 2"
    and "kind h = TrapHandlerFnWithError \<longleftrightarrow> pushes_error_code v" and "kind h = InterruptHandlerFn \<longleftrightarrow> v = 2"
proof -
  have "v \<in> (fst \<circ> snd) ` set init_gates" using init_gates_vectors assms by simp
  then obtain g where g: "g \<in> set init_gates" and v: "v = fst (snd g)" by auto
  show thesis
  proof (rule that)
    show "(fst g, v, snd (snd g)) \<in> set init_gates" using g v by simp
  qed (use bspec [OF init_gates_kinds g] v in auto)
qed

lemma init_gates_set:
  "\<exists>i. create_init_idt link kcs addr = Inr i \<and> ptr i = ptr (idt_init addr) \<and> length (raw i) = 256 \<and>
    (\<forall>trap v h. (trap, v, h) \<in> set init_gates \<longrightarrow> raw i ! v = to_raw (gate_entry link kcs (trap, v, h))) \<and>
    (\<forall>v < 256. 32 \<le> v \<longrightarrow> raw i ! v = raw_zeroed)"
proof -
  let ?z = "idt_init addr"
  have len: "length (raw ?z) = 256" by (simp add: idt_init_def IDT_LEN_def Let_def)
  have zero: "raw ?z ! v = raw_zeroed" if "v < 256" for v
    using that by (simp add: idt_init_def IDT_LEN_def Let_def)
  have idx: "v < 32" if "v \<in> (fst \<circ> snd) ` set init_gates" for v
    using that unfolding init_gates_vectors by simp
  then have "fst (snd g) < length (raw ?z)" if "g \<in> set init_gates" for g
    using that len by fastforce
  then obtain i where i: "create_init_idt link kcs addr = Inr i" "ptr i = ptr ?z" "length (raw i) = length (raw ?z)"
    and gates: "\<forall>g \<in> set init_gates. raw i ! fst (snd g) = to_raw (gate_entry link kcs g)"
    and rest: "\<forall>v. v \<notin> (fst \<circ> snd) ` set init_gates \<longrightarrow> raw i ! v = raw ?z ! v"
    using insert_gates [OF _ init_gates_distinct, of ?z link kcs] unfolding create_init_idt_def by auto
  have "raw i ! v = to_raw (gate_entry link kcs (trap, v, h))" if "(trap, v, h) \<in> set init_gates" for trap v h
    using bspec [OF gates that] by simp
  moreover have "raw i ! v = raw_zeroed" if "v < 256" "32 \<le> v" for v
    using rest [THEN spec, THEN mp, of v] idx [of v] zero that by fastforce
  ultimately show ?thesis using i len by (intro exI [of _ i]) simp
qed

text \<open>
  C21. The initial table: building it does not panic; every exception has a present gate to the wrapper
  of its handler in the kernel's code segment, an interrupt gate for the NMI and a trap gate
  otherwise, and the wrapper takes an error code exactly where the processor pushes one. No other gate is
  present. The pointer given to the processor is the table's address and its size minus one.
\<close>

theorem init_idt_gates:
  "\<exists>i. create_init_idt link kcs addr = Inr i \<and>
    idt_load i = \<lparr>limit = 0xFFF, base = addr\<rparr> \<and> length (raw i) = 256 \<and>
    (\<forall>v < 32. \<exists>h. gate_offset (raw i ! v) = link h \<and> raw_kernel_cs (raw i ! v) = kcs \<and> gate_present (raw i ! v) \<and>
      gate_type (raw i ! v) = (if v = 2 then 0xE else 0xF) \<and>
      (kind h = TrapHandlerFnWithError \<longleftrightarrow> pushes_error_code v) \<and>
      (kind h = InterruptHandlerFn \<longleftrightarrow> v = 2)) \<and>
    (\<forall>v < 256. 32 \<le> v \<longrightarrow> \<not> gate_present (raw i ! v))"
proof -
  obtain i where i: "create_init_idt link kcs addr = Inr i" "ptr i = ptr (idt_init addr)" "length (raw i) = 256"
    and gates: "\<forall>trap v h. (trap, v, h) \<in> set init_gates \<longrightarrow> raw i ! v = to_raw (gate_entry link kcs (trap, v, h))"
    and rest: "\<forall>v < 256. 32 \<le> v \<longrightarrow> raw i ! v = raw_zeroed"
    using init_gates_set by blast
  have "\<exists>h. gate_offset (raw i ! v) = link h \<and> raw_kernel_cs (raw i ! v) = kcs \<and> gate_present (raw i ! v) \<and>
      gate_type (raw i ! v) = (if v = 2 then 0xE else 0xF) \<and>
      (kind h = TrapHandlerFnWithError \<longleftrightarrow> pushes_error_code v) \<and> (kind h = InterruptHandlerFn \<longleftrightarrow> v = 2)"
    if v: "v < 32" for v
  proof -
    obtain trap h where h: "(trap, v, h) \<in> set init_gates" "trap \<longleftrightarrow> v \<noteq> 2"
      "kind h = TrapHandlerFnWithError \<longleftrightarrow> pushes_error_code v" "kind h = InterruptHandlerFn \<longleftrightarrow> v = 2"
      by (rule init_gate_of [OF v])
    have "raw i ! v = to_raw (entry_new (if trap then Trap (link h) else Interrupt (link h)) kcs)"
      using gates h(1) by (simp add: gate_entry_def)
    note gate = gate_of_entry [OF this]
    show ?thesis using h gate by (intro exI [of _ h]) simp
  qed
  moreover have "idt_load i = \<lparr>limit = 0xFFF, base = addr\<rparr>"
    by (simp add: idt_load_def i(2) idt_init_def IDT_LEN_def size_of_idt_raw_def Let_def)
  ultimately show ?thesis using i rest by (intro exI [of _ i]) simp
qed

theorem init_idt_gates_witness:
  "\<exists>i. create_init_idt (\<lambda>_. 0x1000) 0x28 0x5000 = Inr i \<and> gate_offset (raw i ! 13) = 0x1000 \<and>
    gate_present (raw i ! 14) \<and> \<not> gate_present (raw i ! 40)"
proof -
  obtain i where i: "create_init_idt (\<lambda>_. 0x1000) 0x28 0x5000 = Inr i"
    and v: "\<forall>v < 32. \<exists>h :: handler. gate_offset (raw i ! v) = 0x1000 \<and> gate_present (raw i ! v)"
    and w: "\<forall>v < 256. 32 \<le> v \<longrightarrow> \<not> gate_present (raw i ! v)"
    using init_idt_gates [of "\<lambda>_. 0x1000" "0x28" "0x5000"] by blast
  show ?thesis
    using i v [THEN spec, of 13] v [THEN spec, of 14] w [THEN spec, of 40] by (intro exI [of _ i]) simp
qed

lemma word_less_4: "w < 4 \<Longrightarrow> w \<in> {0, 1, 2, 3}" for w :: u64
proof -
  assume "w < 4"
  then have "unat w = 0 \<or> unat w = 1 \<or> unat w = 2 \<or> unat w = 3" by (auto simp: word_less_nat_alt)
  then show ?thesis by (auto dest!: word_eq_of_natI)
qed

text \<open>The handler of the general protection fault never reaches its unreachable arm.\<close>

lemma desc_table_total: "\<exists>t \<in> {''GDT'', ''IDT'', ''LDT''}. desc_table err = Inr t"
proof -
  have "unat (drop_bit 1 err AND 3) < 4"
    using word_and_le1 [of "drop_bit 1 err" 3] by (simp add: word_le_nat_alt)
  then have "drop_bit 1 err AND 3 < 4" by (simp add: word_less_nat_alt)
  then have "drop_bit 1 err AND 3 \<in> {0, 1, 2, 3}" by (rule word_less_4)
  then show ?thesis by (auto simp: desc_table_def)
qed

end
