(* ===== verification/Interrupts.thy ===== *)
theory Interrupts
  imports Idt
begin

text \<open>
  Interrupt control (\<open>src/interrupts.rs\<close>, with the flag instructions of
  \<open>src/arch_x86_64.rs\<close>). The state of a processor is its flags register and the rest of the
  world; bit 9 of the flags enables interrupts. A guarded section is a computation on that state.

  Lemmas: the test for enabled interrupts compares the masked flag with 1 instead of 0x200, so
  it is never true and the guards leave interrupts enabled.
\<close>

record 'w hart =
  eflags :: u64
  world :: 'w

definition IF_FLAG :: u64 where
  "IF_FLAG = 0x200"

definition cli :: "'w hart \<Rightarrow> 'w hart" where
  "cli h = h\<lparr>eflags := eflags h AND NOT IF_FLAG\<rparr>"

definition sti :: "'w hart \<Rightarrow> 'w hart" where
  "sti h = h\<lparr>eflags := eflags h OR IF_FLAG\<rparr>"

definition irq_disable :: "'w hart \<Rightarrow> 'w hart" where
  "irq_disable h = cli h"

definition irq_enable :: "'w hart \<Rightarrow> 'w hart" where
  "irq_enable h = sti h"

definition irq_is_enabled :: "'w hart \<Rightarrow> bool" where
  "irq_is_enabled h = (if eflags h AND 0x0200 = 1 then True else False)"

definition interrupt_guard :: "('w hart \<Rightarrow> ('r \<times> 'w hart) run) \<Rightarrow> 'w hart \<Rightarrow> ('r \<times> 'w hart) run" where
  "interrupt_guard func h =
    (let interrupts_enabled = irq_is_enabled h;
         h = (if interrupts_enabled then cli h else h) in
     bnd (func h) (\<lambda>(result, h).
     let h = (if interrupts_enabled then sti h else h) in
     Inr (result, h)))"

record 'a irq_guard =
  inner :: 'a

definition irq_guard_new :: "'a \<Rightarrow> 'a irq_guard" where
  "irq_guard_new x = \<lparr>inner = x\<rparr>"

definition guard ::
  "('a \<Rightarrow> 'w hart \<Rightarrow> ('r \<times> 'w hart) run) \<Rightarrow> 'a irq_guard \<Rightarrow> 'w hart \<Rightarrow> ('r \<times> 'w hart) run" where
  "guard func g h = interrupt_guard (func (inner g)) h"

text \<open>The exclusive variant also gives back the guarded value, which the section may change.\<close>

definition guard_mut ::
  "('a \<Rightarrow> 'w hart \<Rightarrow> (('r \<times> 'a) \<times> 'w hart) run) \<Rightarrow> 'a irq_guard \<Rightarrow> 'w hart
    \<Rightarrow> (('r \<times> 'a irq_guard) \<times> 'w hart) run" where
  "guard_mut func g h =
    bnd (interrupt_guard (func (inner g)) h) (\<lambda>((r, x), h). Inr ((r, g\<lparr>inner := x\<rparr>), h))"

section \<open>Lemmas\<close>

definition irqs_on :: "'w hart \<Rightarrow> bool" where
  "irqs_on h \<longleftrightarrow> eflags h AND IF_FLAG \<noteq> 0"

lemma irq_is_enabled_never: "\<not> irq_is_enabled h"
proof -
  have "\<not> bit (eflags h AND 0x0200) 0" by (simp add: bit_simps)
  then have "eflags h AND 0x0200 \<noteq> 1" by (metis bit_1_0)
  then show ?thesis by (simp add: irq_is_enabled_def)
qed

lemma interrupt_guard_eq: "interrupt_guard f h = f h"
  by (simp add: interrupt_guard_def irq_is_enabled_never Let_def case_prod_unfold)

lemma guard_eq: "guard f g h = f (inner g) h"
  by (simp add: guard_def interrupt_guard_eq)

text \<open>
  C36. A guarded section is not protected: \<open>irq_is_enabled\<close> is false in every state, so both guards run their
  section with the flags unchanged. In particular a section entered with interrupts enabled runs with
  interrupts enabled, contrary to the documentation of the guard.
\<close>

theorem interrupt_guard_ineffective:
  "\<not> irq_is_enabled h \<and> interrupt_guard f h = f h \<and> guard k g h = k (inner g) h \<and>
    interrupt_guard (\<lambda>h. Inr (irqs_on h, h)) h = Inr (irqs_on h, h)"
  by (simp add: irq_is_enabled_never interrupt_guard_eq guard_eq)

text \<open>Disabling and enabling themselves are exact.\<close>

lemma irqs_on_flags: "\<not> irqs_on (irq_disable h)" "irqs_on (irq_enable h)"
proof -
  show "\<not> irqs_on (irq_disable h)" by (simp add: irqs_on_def irq_disable_def cli_def and.assoc)
  have "bit ((eflags h OR 0x200) AND 0x200) 9" by (simp add: bit_simps bit_numeral_rec)
  then have "(eflags h OR 0x200) AND 0x200 \<noteq> 0" by (metis bit_0_eq bot_apply bot_bool_def)
  then show "irqs_on (irq_enable h)" by (simp add: irqs_on_def irq_enable_def sti_def IF_FLAG_def)
qed

end
