(* ===== verification/Cpu.thy ===== *)
theory Cpu
  imports Kernel_Time Device_Mapping Interrupts Console
begin

text \<open>
  Bringing up a processor (\<open>src/cpu.rs\<close>): the interrupt table, the timers, the interrupt
  controllers, the calibration of the local timer and the per-processor data, with the
  messages on the console.

  Parameters: the platform (the ACPI library, what the local controller makes of stores of single bytes, and which field
  the compiler puts first in the structure of a table), the font, the linker's
  addresses of the handlers, the code segment, the processors the boot loader
  reports, and \<open>passes\<close>, which gives the world at the successive polls of a sleep. The start of the other
  processors (the feature \<open>smp\<close>, off by default) is in \<open>Smp\<close>. The final \<open>hlt\<close> loop is left out: the
  functions that end in it return the state in which they enter it.
\<close>

section \<open>State\<close>

record per_cpu =
  lapic_ticks_per_ms :: u32

definition MAX_CPU_COUNT :: nat where
  "MAX_CPU_COUNT = 32"

text \<open>The statics that are computed at their first use; \<open>lazies\<close> are those that have been.\<close>

datatype lazy_static = SharedIdt | HpetBaseAddr | LocalApicAddress | IoApicAddr

record devices =
  lapic_dev :: lapic
  ioapic_dev :: ioapic
  hpet_dev :: hpet
  con :: console
  shared_idt :: "idt irq_guard"
  percpus :: "per_cpu option list"
  loaded_idt :: "idt_ptr option"
  memory :: vm
  lazies :: "lazy_static set"

type_synonym kernel = "devices hart"

definition on_lapic :: "(lapic \<Rightarrow> lapic run) \<Rightarrow> kernel \<Rightarrow> kernel run" where
  "on_lapic f h =
    bnd (f (lapic_dev (world h))) (\<lambda>l. Inr (h\<lparr>world := (world h)\<lparr>lapic_dev := l\<rparr>\<rparr>))"

definition on_hpet :: "(hpet \<Rightarrow> hpet run) \<Rightarrow> kernel \<Rightarrow> kernel run" where
  "on_hpet f h =
    bnd (f (hpet_dev (world h))) (\<lambda>d. Inr (h\<lparr>world := (world h)\<lparr>hpet_dev := d\<rparr>\<rparr>))"

definition on_ioapic :: "(ioapic \<Rightarrow> ('r \<times> ioapic) run) \<Rightarrow> kernel \<Rightarrow> ('r \<times> kernel) run" where
  "on_ioapic f h =
    bnd (f (ioapic_dev (world h))) (\<lambda>(r, d). Inr (r, h\<lparr>world := (world h)\<lparr>ioapic_dev := d\<rparr>\<rparr>))"

definition console_println :: "u8 list \<Rightarrow> string \<Rightarrow> kernel \<Rightarrow> kernel run" where
  "console_println font s h =
    bnd (write_str font (map of_char (s @ ''\<newline>'')) (con (world h))) (\<lambda>c.
    Inr (h\<lparr>world := (world h)\<lparr>con := c\<rparr>\<rparr>))"

text \<open>A section with the shared table locked and guarded.\<close>

definition with_shared_idt :: "(idt \<Rightarrow> idt run) \<Rightarrow> kernel \<Rightarrow> kernel run" where
  "with_shared_idt f h =
    bnd (guard (\<lambda>i h.
          bnd (f i) (\<lambda>i. Inr ((), h\<lparr>world := (world h)\<lparr>shared_idt := irq_guard_new i\<rparr>\<rparr>)))
        (shared_idt (world h)) h) (\<lambda>(_, h). Inr h)"

definition lidt :: "idt_ptr \<Rightarrow> devices \<Rightarrow> devices" where
  [simp]: "lidt p w = w\<lparr>loaded_idt := Some p\<rparr>"

definition load_shared_idt :: "kernel \<Rightarrow> kernel run" where
  "load_shared_idt h =
    bnd (guard (\<lambda>i h. Inr ((), h\<lparr>world := lidt (idt_load i) (world h)\<rparr>))
        (shared_idt (world h)) h) (\<lambda>(_, h). Inr h)"

text \<open>
  The shared table is built at its first use: a block of the heap that is never given back takes the structure, which is the
  table of 256 gates of 16 bytes and the pointer of 10 bytes, both packed. Before its first use, \<open>shared_idt\<close> means nothing.

  The first use of a device maps its registers. Before it the device is described at its physical address, after it at the address
  that the static holds. Mapping the local controller at its usual address also stores a zero to each byte of its page.
\<close>

record 't platform =
  acpi_of :: "'t acpi"
  byte_stores :: "(u64 \<times> u8) list \<Rightarrow> lapic \<Rightarrow> lapic"
  raw_first :: bool

text \<open>The compiler may put either field of the structure first.\<close>

definition raw_offset :: "'t platform \<Rightarrow> u64" where
  "raw_offset P = (if raw_first P then 0 else 10)"

definition idt_layout :: layout where
  "idt_layout = \<lparr>layout_size = IDT_LEN * 16 + 10, layout_align = 1\<rparr>"

definition shared_idt_new :: "'t platform \<Rightarrow> (handler \<Rightarrow> u64) \<Rightarrow> u16 \<Rightarrow> vm \<Rightarrow> (idt irq_guard \<times> vm) run" where
  "shared_idt_new P link kcs st =
    bnd (alloc_or_abort idt_layout st) (\<lambda>(idt_static, st).
    bnd (create_init_idt link kcs (idt_static + raw_offset P)) (\<lambda>i.
    Inr (irq_guard_new i, st)))"

definition force_shared_idt :: "'t platform \<Rightarrow> (handler \<Rightarrow> u64) \<Rightarrow> u16 \<Rightarrow> devices \<Rightarrow> devices run" where
  "force_shared_idt P link kcs w =
    (if SharedIdt \<in> lazies w then Inr w
     else bnd (shared_idt_new P link kcs (memory w)) (\<lambda>(i, st).
       Inr (w\<lparr>shared_idt := i, memory := st, lazies := insert SharedIdt (lazies w)\<rparr>)))"

definition hpet_at :: "u64 \<Rightarrow> hpet \<Rightarrow> hpet" where
  "hpet_at v d = d\<lparr>hpet_base := v, hpet_mem := (\<lambda>a. hpet_mem d (a - v + hpet_base d))\<rparr>"

definition lapic_at :: "u64 \<Rightarrow> lapic \<Rightarrow> lapic" where
  "lapic_at v l = l\<lparr>lapic_addr := v, lapic_regs := (\<lambda>a. lapic_regs l (a - v + lapic_addr l))\<rparr>"

definition new_stores :: "vm \<Rightarrow> vm \<Rightarrow> (u64 \<times> u8) list" where
  "new_stores st st' = drop (length (stores (fst st))) (stores (fst st'))"

definition force_hpet :: "'t platform \<Rightarrow> devices \<Rightarrow> devices run" where
  "force_hpet P w =
    (if HpetBaseAddr \<in> lazies w then Inr w
     else bnd (hpet_base_addr (acpi_of P) (memory w)) (\<lambda>(v, st).
       Inr (w\<lparr>hpet_dev := hpet_at (virt_u64 v) (hpet_dev w), memory := st, lazies := insert HpetBaseAddr (lazies w)\<rparr>)))"

definition force_lapic :: "'t platform \<Rightarrow> devices \<Rightarrow> devices run" where
  "force_lapic P w =
    (if LocalApicAddress \<in> lazies w then Inr w
     else bnd (local_apic_address (acpi_of P) (memory w)) (\<lambda>(v, st).
       Inr (w\<lparr>lapic_dev := byte_stores P (new_stores (memory w) st) (lapic_at (virt_u64 v) (lapic_dev w)), memory := st,
         lazies := insert LocalApicAddress (lazies w)\<rparr>)))"

definition force_ioapic :: "'t platform \<Rightarrow> devices \<Rightarrow> devices run" where
  "force_ioapic P w =
    (if IoApicAddr \<in> lazies w then Inr w
     else bnd (ioapic_address (acpi_of P) (memory w)) (\<lambda>(v, st).
       Inr (w\<lparr>ioapic_dev := (ioapic_dev w)\<lparr>io_addr := virt_u64 v\<rparr>, memory := st, lazies := insert IoApicAddr (lazies w)\<rparr>)))"

definition on_world :: "(devices \<Rightarrow> devices run) \<Rightarrow> kernel \<Rightarrow> kernel run" where
  "on_world f h = bnd (f (world h)) (\<lambda>w. Inr (h\<lparr>world := w\<rparr>))"

section \<open>Operations\<close>

abbreviation eoi_handler :: handler where
  "eoi_handler \<equiv> Handler InterruptHandlerFn SendEoi"

abbreviation irq_panic :: "string \<Rightarrow> handler" where
  "irq_panic msg \<equiv> Handler InterruptHandlerFn (PanicWith msg)"

definition hpet_init :: "'t platform \<Rightarrow> u8 list \<Rightarrow> (handler \<Rightarrow> u64) \<Rightarrow> u16 \<Rightarrow> kernel \<Rightarrow> kernel run" where
  "hpet_init P font link kcs h =
    bnd (on_world (force_hpet P) h) (\<lambda>h.
    bnd (hpet_timer 0 (hpet_dev (world h))) (\<lambda>timer.
    bnd (on_hpet (timer_enable timer) h) (\<lambda>h.
    bnd (on_world (force_lapic P) h) (\<lambda>h.
    bnd (lapic_id (lapic_dev (world h))) (\<lambda>id.
    bnd (timer_trigger_mode timer (hpet_dev (world h))) (\<lambda>mode.
    let irq_redirection = \<lparr>dest = ucast id, entry_mask = False, trigger_mode = mode,
          interrupt_polarity = HighActive, destination_mode = Physical, delivery_mode = Fixed,
          redirected_irq_num = 32\<rparr> in
    bnd (on_hpet enable_legacy_mapping h) (\<lambda>h.
    bnd (on_world (force_ioapic P) h) (\<lambda>h.
    bnd (on_ioapic (\<lambda>d. bnd (redirect_irq 2 irq_redirection d) (\<lambda>d. Inr ((), d))) h) (\<lambda>(_, h).
    bnd (on_hpet hpet_enable h) (\<lambda>h.
    bnd (with_shared_idt (insert_interrupt link kcs 32 eoi_handler) h) (\<lambda>h.
    console_println font (''hpet initialized! irq: '' @ show_dec 2) h)))))))))))"

text \<open>\<open>None\<close>: the calibrating sleep never ends.\<close>

definition calibrate :: "(devices \<Rightarrow> nat \<Rightarrow> devices) \<Rightarrow> kernel \<Rightarrow> (u32 \<times> kernel) run option" where
  "calibrate passes h =
    (let init_ticks = - 1 in
     case bnd (on_lapic (set_timer_div 1) h) (on_lapic (set_timer_init_count init_ticks)) of
       Inl e \<Rightarrow> Some (Inl e)
     | Inr h \<Rightarrow>
         (case poll_sleep (from_millis 1) (\<lambda>k. hpet_dev (passes (world h) k)) of
            None \<Rightarrow> None
          | Some (Inl e) \<Rightarrow> Some (Inl e)
          | Some (Inr n) \<Rightarrow>
              Some (let h = h\<lparr>world := passes (world h) n\<rparr> in
                bnd (current_count (lapic_dev (world h))) (\<lambda>count.
                bnd (chk_sub (- 1) count) (\<lambda>ticks_per_ms.
                bnd (on_lapic (set_timer_init_count 0) h) (\<lambda>h.
                Inr (ticks_per_ms, h)))))))"

definition local_apic_setup :: "(handler \<Rightarrow> u64) \<Rightarrow> u16 \<Rightarrow> kernel \<Rightarrow> kernel run" where
  "local_apic_setup link kcs h =
    bnd (on_lapic (set_spurious_interrupt_irq 33) h) (\<lambda>h.
    bnd (on_lapic (set_lvt_timer_irq 34) h) (\<lambda>h.
    bnd (on_lapic (set_lvt_error_irq 35) h) (\<lambda>h.
    with_shared_idt (\<lambda>i.
      bnd (insert_interrupt link kcs 33 (irq_panic ''spurious interrupt 33'') i) (\<lambda>i.
      bnd (insert_interrupt link kcs 34 (irq_panic ''lapic timer'') i) (\<lambda>i.
      insert_interrupt link kcs 35 (irq_panic ''LAPIC error'') i))) h)))"

definition local_apic_init ::
  "(handler \<Rightarrow> u64) \<Rightarrow> u16 \<Rightarrow> (devices \<Rightarrow> nat \<Rightarrow> devices) \<Rightarrow> kernel \<Rightarrow> (u32 \<times> kernel) run option" where
  "local_apic_init link kcs passes h =
    (case local_apic_setup link kcs h of
       Inl e \<Rightarrow> Some (Inl e)
     | Inr h \<Rightarrow> calibrate passes h)"

definition percpu :: "devices \<Rightarrow> per_cpu run" where
  "percpu w =
    bnd (lapic_id (lapic_dev w)) (\<lambda>id.
    if unat id < length (percpus w) then unwrap (percpus w ! unat id) else Inl IndexOutOfBounds)"

definition set_percpu :: "per_cpu \<Rightarrow> devices \<Rightarrow> devices run" where
  "set_percpu p w =
    bnd (lapic_id (lapic_dev w)) (\<lambda>id.
    if unat id < length (percpus w) then Inr (w\<lparr>percpus := (percpus w)[unat id := Some p]\<rparr>)
    else Inl IndexOutOfBounds)"

definition show_per_cpu :: "per_cpu \<Rightarrow> string" where
  "show_per_cpu p = ''PerCpu { lapic_ticks_per_ms: '' @ show_dec (unat (lapic_ticks_per_ms p)) @ '' }''"

definition cpu_online :: "u8 list \<Rightarrow> u32 \<Rightarrow> kernel \<Rightarrow> kernel run" where
  "cpu_online font cpu_id h =
    bnd (lapic_id (lapic_dev (world h))) (\<lambda>id.
    bnd (lapic_version (lapic_dev (world h))) (\<lambda>ver.
    bnd (console_println font (''cpu '' @ show_dec (unat cpu_id) @ '' online! lapic id: '' @ show_dec (unat id) @
        '', lapic version: '' @ show_radix 16 (unat ver)) h) (\<lambda>h.
    load_shared_idt h)))"

definition cpu_ready :: "u8 list \<Rightarrow> u32 \<Rightarrow> kernel \<Rightarrow> kernel run" where
  "cpu_ready font ticks h =
    bnd (set_percpu \<lparr>lapic_ticks_per_ms = ticks\<rparr> (world h)) (\<lambda>w.
    let h = h\<lparr>world := w\<rparr> in
    bnd (lapic_id (lapic_dev (world h))) (\<lambda>id.
    bnd (percpu (world h)) (\<lambda>p.
    console_println font (''CPU '' @ show_dec (unat id) @ '' init done; data: '' @ show_per_cpu p) h)))"

definition cpu_main_rs ::
  "u8 list \<Rightarrow> (handler \<Rightarrow> u64) \<Rightarrow> u16 \<Rightarrow> (devices \<Rightarrow> nat \<Rightarrow> devices) \<Rightarrow> u32 \<Rightarrow> kernel \<Rightarrow> kernel run option" where
  "cpu_main_rs font link kcs passes cpu_id h =
    (case cpu_online font cpu_id h of
       Inl e \<Rightarrow> Some (Inl e)
     | Inr h \<Rightarrow>
         (case local_apic_init link kcs passes h of
            None \<Rightarrow> None
          | Some (Inl e) \<Rightarrow> Some (Inl e)
          | Some (Inr (ticks, h)) \<Rightarrow> Some (cpu_ready font ticks h)))"

text \<open>The part of \<open>init\<close> before it enters the main function of the boot processor.\<close>

definition init_devices :: "'t platform \<Rightarrow> u8 list \<Rightarrow> (handler \<Rightarrow> u64) \<Rightarrow> u16 \<Rightarrow> kernel \<Rightarrow> kernel run" where
  "init_devices P font link kcs h =
    bnd (on_world (force_shared_idt P link kcs) h) (\<lambda>h.
    bnd (load_shared_idt h) (\<lambda>h.
    bnd (console_println font ''loaded shared idt!'' h) (\<lambda>h.
    bnd (ioapic_init (acpi_of P) (memory (world h))) (\<lambda>st.
    bnd (hpet_init P font link kcs (h\<lparr>world := (world h)\<lparr>memory := st\<rparr>\<rparr>)) (\<lambda>h.
    bnd (lapic_version (lapic_dev (world h))) (\<lambda>v.
    bnd (console_println font (''lapic ver: '' @ show_dec (unat v)) h) (\<lambda>h.
    bnd (lapic_id (lapic_dev (world h))) (\<lambda>id.
    bnd (console_println font (''apic ver: '' @ show_dec (unat id)) h) (\<lambda>h.
    bnd (tick_rate_ms (hpet_dev (world h))) (\<lambda>rate.
    bnd (console_println font (''hpet tick rate: '' @ show_dec (unat rate)) h) (\<lambda>h.
    bnd (on_ioapic ioapic_version h) (\<lambda>(v, h).
    bnd (console_println font (''io apic version: '' @ show_dec (unat v)) h) (\<lambda>h.
    bnd (on_ioapic maximum_redirections h) (\<lambda>(n, h).
    bnd (console_println font (''io apic maximum redirection: '' @ show_dec (unat n)) h) (\<lambda>h.
    bnd (on_ioapic ioapic_id h) (\<lambda>(i, h).
    console_println font (''io apic id: '' @ show_dec (unat i)) h))))))))))))))))"

definition cpu_init ::
  "'t platform \<Rightarrow> u8 list \<Rightarrow> (handler \<Rightarrow> u64) \<Rightarrow> u16 \<Rightarrow> (u32 list \<times> u32) option
    \<Rightarrow> (devices \<Rightarrow> nat \<Rightarrow> devices) \<Rightarrow> kernel \<Rightarrow> kernel run option" where
  "cpu_init P font link kcs cpu_response passes h =
    (case init_devices P font link kcs h of
       Inl e \<Rightarrow> Some (Inl e)
     | Inr h \<Rightarrow>
         (case cpu_response of
            None \<Rightarrow> Some (Inl UnwrapNone)
          | Some (cpus, bsp_lapic_id) \<Rightarrow>
              if unat bsp_lapic_id < length cpus
              then cpu_main_rs font link kcs passes (cpus ! unat bsp_lapic_id) h
              else Some (Inl IndexOutOfBounds)))"

section \<open>Messages\<close>

definition con_good :: "console \<Rightarrow> bool" where
  "con_good c \<longleftrightarrow> console_ok c \<and> columns_fit (screen c)"

definition printed :: "u8 list \<Rightarrow> string \<Rightarrow> console \<Rightarrow> console" where
  "printed font s c = projr (write_str font (map of_char (s @ ''\<newline>'')) c)"

lemma write_str_printed:
  assumes "con_good c" and "length font = 4096"
  shows "write_str font (map of_char (s @ ''\<newline>'')) c = Inr (printed font s c)" and "con_good (printed font s c)"
proof -
  obtain c' where c': "write_str font (map of_char (s @ ''\<newline>'')) c = Inr c'" "console_ok c'"
    "in_framebuffer_only (screen c) (screen c')"
    using write_str_ok [of c font] assms unfolding con_good_def by blast
  then show "write_str font (map of_char (s @ ''\<newline>'')) c = Inr (printed font s c)"
    unfolding printed_def by simp
  show "con_good (printed font s c)"
    using c' assms(1) unfolding printed_def
    by (simp add: con_good_def columns_fit_def in_framebuffer_only_def same_geometry_def)
qed

lemma println_eq:
  assumes "length font = 4096" and "con_good (con (world h))"
  shows "console_println font s h = Inr (h\<lparr>world := (world h)\<lparr>con := printed font s (con (world h))\<rparr>\<rparr>)"
  by (simp only: console_println_def write_str_printed(1) [OF assms(2,1)] bnd_Inr)

section \<open>Effect of the operations\<close>

definition kernel_ok :: "kernel \<Rightarrow> bool" where
  "kernel_ok h \<longleftrightarrow> lapic_ok (lapic_dev (world h)) \<and> ioapic_ok (ioapic_dev (world h)) \<and>
    clock_ok (hpet_dev (world h)) \<and> con_good (con (world h)) \<and> length (percpus (world h)) = MAX_CPU_COUNT"

lemma load_shared_idt_eq:
  "load_shared_idt h = Inr (h\<lparr>world := (world h)\<lparr>loaded_idt := Some (idt_load (inner (shared_idt (world h))))\<rparr>\<rparr>)"
  by (simp add: load_shared_idt_def guard_eq)

lemma with_shared_idt_eq:
  "with_shared_idt f h =
    bnd (f (inner (shared_idt (world h)))) (\<lambda>i. Inr (h\<lparr>world := (world h)\<lparr>shared_idt := irq_guard_new i\<rparr>\<rparr>))"
  by (simp add: with_shared_idt_def guard_eq bnd_assoc)

text \<open>The gate of an interrupt handler.\<close>

definition irq_gate :: "(handler \<Rightarrow> u64) \<Rightarrow> u16 \<Rightarrow> handler \<Rightarrow> idt_entry_raw" where
  "irq_gate link kcs h = to_raw (entry_new (Interrupt (link h)) kcs)"

lemma insert_interrupt_eq:
  "v < length (raw i) \<Longrightarrow> insert_interrupt link kcs v h i = Inr (i\<lparr>raw := (raw i)[v := irq_gate link kcs h]\<rparr>)"
  by (simp add: insert_interrupt_def idt_insert_def irq_gate_def)

definition set_reg :: "u64 \<Rightarrow> u64 \<Rightarrow> hpet \<Rightarrow> hpet" where
  "set_reg r v d = d\<lparr>hpet_mem := (hpet_mem d)(hpet_base d + r := v)\<rparr>"

lemma set_reg_ok [simp]: "hpet_ok (set_reg r v d) = hpet_ok d"
  by (simp add: set_reg_def)

lemma hpet_rmw:
  assumes "hpet_ok d"
  shows "timer_enable (Timer 0) d = Inr (set_reg 0x100 (hpet_reg d 0x100 OR 0b100) d)"
    and "enable_legacy_mapping d = Inr (set_reg 0x10 (hpet_reg d 0x10 OR 0b10) d)"
    and "hpet_enable d = Inr (set_reg 0x10 (hpet_reg d 0x10 OR 0b1) d)"
    and "\<exists>mode. timer_trigger_mode (Timer 0) d = Inr mode"
  using assms
  by (simp_all add: timer_enable_def enable_legacy_mapping_def hpet_enable_def timer_trigger_mode_def
      timer_0_regs hpet_read_ok hpet_write_ok hpet_consts set_reg_def)

lemma set_reg_reg: "hpet_reg (set_reg r v d) r' = (if r' = r then v else hpet_reg d r')"
  by (simp add: set_reg_def)

lemma set_reg_clock: "r \<noteq> 0 \<Longrightarrow> clock_ok (set_reg r v d) = clock_ok d"
  using set_reg_reg [of r v d 0] by (simp add: clock_ok_def tick_fs_def)

lemma clock_hpet_ok: "clock_ok d \<Longrightarrow> hpet_ok d"
  by (simp add: clock_ok_def)

lemma lapic_id_ok: "lapic_ok l \<Longrightarrow> lapic_id l = Inr (drop_bit 24 (lapic_regs l (lapic_addr l + 0x20)))"
  by (simp add: lapic_id_def lapic_read_ok)

lemma lapic_version_ok: "lapic_ok l \<Longrightarrow> lapic_version l = Inr (lapic_regs l (lapic_addr l + 0x30) AND 0xff)"
  by (simp add: lapic_version_def lapic_read_ok)

lemma irq_guard_new_inner [simp]: "inner (irq_guard_new i) = i"
  by (simp add: irq_guard_new_def)

definition hpet_started :: "hpet \<Rightarrow> hpet" where
  "hpet_started d = set_reg 0x10 (hpet_reg d 0x10 OR 0b10 OR 0b1) (set_reg 0x100 (hpet_reg d 0x100 OR 0b100) d)"

lemma hpet_started_clock: "clock_ok d \<Longrightarrow> clock_ok (hpet_started d)"
  by (simp add: hpet_started_def set_reg_clock)

text \<open>The three statics; each is computed once, and its computation looks at no other part of the world.\<close>

definition force_all :: "'t platform \<Rightarrow> devices \<Rightarrow> devices run" where
  "force_all P w = bnd (force_hpet P w) (\<lambda>w. bnd (force_lapic P w) (force_ioapic P))"

lemmas force_defs = force_hpet_def force_lapic_def force_ioapic_def

lemma force_frame:
  "force_lapic P (w\<lparr>hpet_dev := d\<rparr>) = bnd (force_lapic P w) (\<lambda>w. Inr (w\<lparr>hpet_dev := d\<rparr>))"
  "force_ioapic P (w\<lparr>hpet_dev := d\<rparr>) = bnd (force_ioapic P w) (\<lambda>w. Inr (w\<lparr>hpet_dev := d\<rparr>))"
  by (cases w, simp add: force_defs bnd_assoc split_def)+

lemma force_all_frame:
  "force_all P (w\<lparr>loaded_idt := i, con := c\<rparr>) = bnd (force_all P w) (\<lambda>w. Inr (w\<lparr>loaded_idt := i, con := c\<rparr>))"
proof -
  have "force_hpet P (w\<lparr>loaded_idt := i, con := c\<rparr>) = bnd (force_hpet P w) (\<lambda>w. Inr (w\<lparr>loaded_idt := i, con := c\<rparr>))"
    "force_lapic P (w\<lparr>loaded_idt := i, con := c\<rparr>) = bnd (force_lapic P w) (\<lambda>w. Inr (w\<lparr>loaded_idt := i, con := c\<rparr>))"
    "force_ioapic P (w\<lparr>loaded_idt := i, con := c\<rparr>) = bnd (force_ioapic P w) (\<lambda>w. Inr (w\<lparr>loaded_idt := i, con := c\<rparr>))" for w
    by (cases w, simp add: force_defs bnd_assoc split_def)+
  then show ?thesis by (simp add: force_all_def bnd_assoc)
qed

lemma force_allE:
  assumes "force_all P w = Inr w'"
  obtains w1 w2 where "force_hpet P w = Inr w1" and "force_lapic P w1 = Inr w2" and "force_ioapic P w2 = Inr w'"
    and "hpet_dev w1 = hpet_dev w'" and "lapic_dev w2 = lapic_dev w'"
proof -
  obtain w1 w2 where f: "force_hpet P w = Inr w1" "force_lapic P w1 = Inr w2" "force_ioapic P w2 = Inr w'"
    using assms by (auto simp: force_all_def bnd_eq_Inr_iff)
  then have "hpet_dev w1 = hpet_dev w'" "lapic_dev w2 = lapic_dev w'"
    by (auto simp: force_defs bnd_eq_Inr_iff split: if_splits)
  then show thesis by (rule that [OF f])
qed

lemma force_all_same:
  assumes "force_all P w = Inr w'"
  shows "con w' = con w" "shared_idt w' = shared_idt w" "percpus w' = percpus w" "loaded_idt w' = loaded_idt w"
  by (rule force_allE [OF assms], auto simp: force_defs bnd_eq_Inr_iff split: if_splits)+

lemma hpet_init_effect:
  assumes force: "force_all P (world h) = Inr w" and ok: "kernel_ok (h\<lparr>world := w\<rparr>)" and font: "length font = 4096"
    and len: "length (raw (inner (shared_idt w))) = 256"
  shows "\<exists>c d. hpet_init P font link kcs h = Inr (h\<lparr>world := w\<lparr>con := c, ioapic_dev := d,
      hpet_dev := hpet_started (hpet_dev w),
      shared_idt := irq_guard_new ((inner (shared_idt w))
        \<lparr>raw := (raw (inner (shared_idt w)))[32 := irq_gate link kcs eoi_handler]\<rparr>)\<rparr>\<rparr>) \<and>
    con_good c \<and> ioapic_ok d \<and> io_addr d = io_addr (ioapic_dev w) \<and>
    field (redirection d 2) 0 8 = 32 \<and> field (redirection d 2) 16 1 = 0"
proof -
  let ?d = "hpet_dev w"
  obtain w1 w2 where f: "force_hpet P (world h) = Inr w1" "force_lapic P w1 = Inr w2" "force_ioapic P w2 = Inr w"
    and same: "hpet_dev w1 = ?d" "lapic_dev w2 = lapic_dev w"
    by (rule force_allE [OF force])
  have clk: "clock_ok ?d" and l: "lapic_ok (lapic_dev w)" and io: "ioapic_ok (ioapic_dev w)"
    and con: "con_good (con w)"
    using ok by (auto simp: kernel_ok_def)
  note hok = clock_hpet_ok [OF clk]
  let ?d1 = "set_reg 0x100 (hpet_reg ?d 0x100 OR 0b100) ?d"
  have hok1: "hpet_ok ?d1" using hok by simp
  obtain mode where mode: "timer_trigger_mode (Timer 0) ?d1 = Inr mode" using hpet_rmw(4) [OF hok1] by blast
  let ?d2 = "set_reg 0x10 (hpet_reg ?d1 0x10 OR 0b10) ?d1"
  have hok2: "hpet_ok ?d2" using hok by simp
  have d3: "set_reg 0x10 (hpet_reg ?d2 0x10 OR 0b1) ?d2 = hpet_started ?d"
    by (simp add: hpet_started_def set_reg_def or.assoc)
  let ?e = "\<lparr>dest = ucast (drop_bit 24 (lapic_regs (lapic_dev w) (lapic_addr (lapic_dev w) + 0x20))),
    entry_mask = False, trigger_mode = mode, interrupt_polarity = HighActive, destination_mode = Physical,
    delivery_mode = Fixed, redirected_irq_num = 32\<rparr>"
  obtain d where d: "redirect_irq 2 ?e (ioapic_dev w) = Inr d" "redirection d 2 = as_raw ?e"
    by (rule redirect_irq_ok [OF io, of 2 ?e]) simp_all
  have "field (redirection d 2) 0 8 = 32" "field (redirection d 2) 16 1 = 0"
    unfolding d(2) as_raw_fields by simp_all
  moreover have "hpet_init P font link kcs h = Inr (h\<lparr>world := w\<lparr>con := printed font (''hpet initialized! irq: '' @ show_dec 2) (con w),
      ioapic_dev := d, hpet_dev := hpet_started ?d,
      shared_idt := irq_guard_new ((inner (shared_idt w))
        \<lparr>raw := (raw (inner (shared_idt w)))[32 := irq_gate link kcs eoi_handler]\<rparr>)\<rparr>\<rparr>)"
    using len con
    by (simp add: hpet_init_def on_world_def f same force_frame timer_0 [OF hok] on_hpet_def hpet_rmw(1) [OF hok] lapic_id_ok [OF l] mode
        hpet_rmw(2) [OF hok1] on_ioapic_def d(1) hpet_rmw(3) [OF hok2] d3 with_shared_idt_eq
        insert_interrupt_eq println_eq [OF font] Let_def)
  ultimately show ?thesis using redirect_irq_keeps_ok [OF io d(1)] write_str_printed(2) [OF con font] by blast
qed

definition lapic_vectors :: "lapic \<Rightarrow> lapic" where
  "lapic_vectors l = l\<lparr>lapic_regs := (lapic_regs l)
    (lapic_addr l + 0xF0 := (lapic_regs l (lapic_addr l + 0xF0) AND 0xffffff00) OR 33,
     lapic_addr l + 0x320 := 34, lapic_addr l + 0x370 := 35)\<rparr>"

definition irq_gates :: "(handler \<Rightarrow> u64) \<Rightarrow> u16 \<Rightarrow> idt \<Rightarrow> idt" where
  "irq_gates link kcs i = i\<lparr>raw := (raw i)[33 := irq_gate link kcs (irq_panic ''spurious interrupt 33''),
    34 := irq_gate link kcs (irq_panic ''lapic timer''), 35 := irq_gate link kcs (irq_panic ''LAPIC error'')]\<rparr>"

lemma lapic_vectors_ok [simp]: "lapic_ok (lapic_vectors l) = lapic_ok l"
  by (simp add: lapic_vectors_def)

lemma local_apic_setup_eq:
  assumes "lapic_ok (lapic_dev (world h))" and "length (raw (inner (shared_idt (world h)))) = 256"
  shows "local_apic_setup link kcs h = Inr (h\<lparr>world := (world h)\<lparr>lapic_dev := lapic_vectors (lapic_dev (world h)),
    shared_idt := irq_guard_new (irq_gates link kcs (inner (shared_idt (world h))))\<rparr>\<rparr>)"
  using assms
  by (simp add: local_apic_setup_def on_lapic_def lapic_ops lapic_read_ok lapic_write_ok with_shared_idt_eq
      insert_interrupt_eq lapic_vectors_def irq_gates_def)

text \<open>
  What happens during a sleep: only the counter of the timer device and the count of the local
  timer change, and from a counter that is not about to wrap around, the counter advances
  at every poll until a millisecond has passed.
\<close>

definition time_passes :: "(devices \<Rightarrow> nat \<Rightarrow> devices) \<Rightarrow> bool" where
  "time_passes passes \<longleftrightarrow>
    (\<forall>w k. \<exists>c v. passes w k = w\<lparr>hpet_dev := set_reg 0xf0 c (hpet_dev w), lapic_dev := (lapic_dev w)
      \<lparr>lapic_regs := (lapic_regs (lapic_dev w))(lapic_addr (lapic_dev w) + 0x390 := v)\<rparr>\<rparr>) \<and>
    (\<forall>w. clock_ok (hpet_dev w) \<and> counter (hpet_dev w) < 2 ^ 63 \<longrightarrow>
      (\<exists>N. (\<forall>k < N. counter (hpet_dev (passes w k)) < counter (hpet_dev (passes w (Suc k)))) \<and>
        1000001000000 \<le> N * tick_fs (hpet_dev w)))"

lemma tick_fs_set_reg: "r \<noteq> 0 \<Longrightarrow> tick_fs (set_reg r v d) = tick_fs d"
  using set_reg_reg [of r v d 0] by (simp add: tick_fs_def)

lemma sleep_1ms_ends:
  assumes tp: "time_passes passes" and clk: "clock_ok (hpet_dev w)" and c: "counter (hpet_dev w) < 2 ^ 63"
  obtains n where "poll_sleep (from_millis 1) (\<lambda>k. hpet_dev (passes w k)) = Some (Inr n)"
proof -
  obtain N where adv: "\<forall>k < N. counter (hpet_dev (passes w k)) < counter (hpet_dev (passes w (Suc k)))"
    and N: "1000001000000 \<le> N * tick_fs (hpet_dev w)"
    using tp clk c unfolding time_passes_def by blast
  have "clock_ok (hpet_dev (passes w k)) \<and> tick_fs (hpet_dev (passes w k)) = tick_fs (hpet_dev w)" for k
  proof -
    obtain c v where "passes w k = w\<lparr>hpet_dev := set_reg 0xf0 c (hpet_dev w), lapic_dev := (lapic_dev w)
      \<lparr>lapic_regs := (lapic_regs (lapic_dev w))(lapic_addr (lapic_dev w) + 0x390 := v)\<rparr>\<rparr>"
      using tp unfolding time_passes_def by blast
    then show ?thesis using clk by (simp add: set_reg_clock tick_fs_set_reg)
  qed
  then have "\<forall>k \<le> N. clock_ok (hpet_dev (passes w k)) \<and> tick_fs (hpet_dev (passes w k)) = tick_fs (hpet_dev w)" by simp
  moreover have "(as_nanos (from_millis 1) + 1) * 1000000 \<le> N * tick_fs (hpet_dev w)"
    using N by (simp add: as_nanos_def from_millis_def)
  ultimately show thesis using poll_sleep_ends [OF _ adv] that by blast
qed

text \<open>
  The measured rate: from the world \<open>w\<close>, in which the local timer has been started at its largest count, undivided, and the timer device runs, a sleep of a
  millisecond ends at its poll \<open>n\<close>, and the rate is how far the count has then come down.
\<close>

definition calibrated_rate :: "(devices \<Rightarrow> nat \<Rightarrow> devices) \<Rightarrow> devices \<Rightarrow> u32 \<Rightarrow> bool" where
  "calibrated_rate passes w t \<longleftrightarrow> lapic_read 0x3e0 (lapic_dev w) = Inr 1 \<and> lapic_read 0x380 (lapic_dev w) = Inr (- 1) \<and>
    (\<exists>n v. poll_sleep (from_millis 1) (\<lambda>k. hpet_dev (passes w k)) = Some (Inr n) \<and>
      lapic_read 0x390 (lapic_dev (passes w n)) = Inr v \<and> unat t = 2 ^ 32 - 1 - unat v)"

definition lapic_calibrated :: "u32 \<Rightarrow> lapic \<Rightarrow> lapic" where
  "lapic_calibrated count l = l\<lparr>lapic_regs := (lapic_regs l)(lapic_addr l + 0x3e0 := 1,
    lapic_addr l + 0x390 := count, lapic_addr l + 0x380 := 0)\<rparr>"

lemma lapic_calibrated_ok [simp]: "lapic_ok (lapic_calibrated count l) = lapic_ok l"
  by (simp add: lapic_calibrated_def)

lemma calibrate_effect:
  assumes tp: "time_passes passes" and l: "lapic_ok (lapic_dev (world h))" and clk: "clock_ok (hpet_dev (world h))"
    and c: "counter (hpet_dev (world h)) < 2 ^ 63"
  shows "\<exists>n v w1. calibrate passes h = Some (Inr (- 1 - v, h\<lparr>world := (world h)
    \<lparr>hpet_dev := set_reg 0xf0 n (hpet_dev (world h)), lapic_dev := lapic_calibrated v (lapic_dev (world h))\<rparr>\<rparr>)) \<and>
    calibrated_rate passes w1 (- 1 - v) \<and> w1 = (world h)\<lparr>lapic_dev := lapic_dev w1\<rparr> \<and>
    lapic_addr (lapic_dev w1) = lapic_addr (lapic_dev (world h))"
proof -
  let ?l = "lapic_dev (world h)"
  let ?l1 = "?l\<lparr>lapic_regs := (lapic_regs ?l)(lapic_addr ?l + 0x3e0 := 1, lapic_addr ?l + 0x380 := - 1)\<rparr>"
  let ?w1 = "(world h)\<lparr>lapic_dev := ?l1\<rparr>"
  have start: "bnd (on_lapic (set_timer_div 1) h) (on_lapic (set_timer_init_count (- 1))) = Inr (h\<lparr>world := ?w1\<rparr>)"
    using l by (simp add: on_lapic_def lapic_ops lapic_write_ok)
  obtain n where n: "poll_sleep (from_millis 1) (\<lambda>k. hpet_dev (passes ?w1 k)) = Some (Inr n)"
    using sleep_1ms_ends [OF tp, of ?w1] clk c by auto
  obtain cnt v where p: "passes ?w1 n = ?w1\<lparr>hpet_dev := set_reg 0xf0 cnt (hpet_dev ?w1), lapic_dev := (lapic_dev ?w1)
      \<lparr>lapic_regs := (lapic_regs (lapic_dev ?w1))(lapic_addr (lapic_dev ?w1) + 0x390 := v)\<rparr>\<rparr>"
    using tp unfolding time_passes_def by blast
  have v: "v \<le> - 1" by (simp add: word_order.extremum)
  then have "unat (- 1 - v) = 2 ^ 32 - 1 - unat v" by (simp add: unat_sub unsigned_minus_1_eq_mask mask_eq_exp_minus_1)
  moreover have "lapic_ok ?l1" using l by simp
  ultimately have rate: "calibrated_rate passes ?w1 (- 1 - v)"
    using n p by (simp add: calibrated_rate_def lapic_read_ok)
  show ?thesis
    using l v rate by (intro exI [of _ cnt] exI [of _ v] exI [of _ ?w1])
      (simp add: calibrate_def lapic_calibrated_def start n p lapic_ops lapic_read_ok lapic_write_ok on_lapic_def chk_sub_def Let_def fun_upd_twist)
qed

lemma local_apic_init_effect:
  assumes tp: "time_passes passes" and l: "lapic_ok (lapic_dev (world h))" and clk: "clock_ok (hpet_dev (world h))"
    and c: "counter (hpet_dev (world h)) < 2 ^ 63" and len: "length (raw (inner (shared_idt (world h)))) = 256"
  shows "\<exists>n v w1. local_apic_init link kcs passes h = Some (Inr (- 1 - v, h\<lparr>world := (world h)
    \<lparr>hpet_dev := set_reg 0xf0 n (hpet_dev (world h)),
     lapic_dev := lapic_calibrated v (lapic_vectors (lapic_dev (world h))),
     shared_idt := irq_guard_new (irq_gates link kcs (inner (shared_idt (world h))))\<rparr>\<rparr>)) \<and>
    calibrated_rate passes w1 (- 1 - v) \<and> hpet_dev w1 = hpet_dev (world h) \<and> memory w1 = memory (world h) \<and>
    lapic_addr (lapic_dev w1) = lapic_addr (lapic_dev (world h))"
proof -
  let ?h = "h\<lparr>world := (world h)\<lparr>lapic_dev := lapic_vectors (lapic_dev (world h)),
    shared_idt := irq_guard_new (irq_gates link kcs (inner (shared_idt (world h))))\<rparr>\<rparr>"
  have "lapic_ok (lapic_dev (world ?h))" "clock_ok (hpet_dev (world ?h))" "counter (hpet_dev (world ?h)) < 2 ^ 63"
    using l clk c by simp_all
  from calibrate_effect [OF tp this] obtain n v w1 where "calibrate passes ?h = Some (Inr (- 1 - v, ?h\<lparr>world := (world ?h)
    \<lparr>hpet_dev := set_reg 0xf0 n (hpet_dev (world ?h)), lapic_dev := lapic_calibrated v (lapic_dev (world ?h))\<rparr>\<rparr>))"
    and w1: "calibrated_rate passes w1 (- 1 - v)" "w1 = (world ?h)\<lparr>lapic_dev := lapic_dev w1\<rparr>"
      "lapic_addr (lapic_dev w1) = lapic_addr (lapic_dev (world ?h))"
    by blast
  moreover have "hpet_dev w1 = hpet_dev (world h)" "memory w1 = memory (world h)" by (subst w1(2), simp)+
  ultimately show ?thesis unfolding local_apic_init_def local_apic_setup_eq [OF l len]
    by (intro exI [of _ n] exI [of _ v] exI [of _ w1]) (simp add: lapic_vectors_def)
qed

lemma tick_rate_ok:
  assumes "clock_ok d"
  shows "\<exists>r. tick_rate_ms d = Inr r"
proof -
  have "drop_bit 32 (hpet_reg d 0) \<noteq> 0" using assms by (auto simp: clock_ok_def tick_fs_def)
  then show ?thesis by (simp add: tick_rate_ms_def fs_per_tick_ok [OF assms] chk_div_def)
qed

lemma ioapic_reads:
  assumes "ioapic_ok d"
  shows "\<exists>v. ioapic_version d = Inr (v, d\<lparr>io_select := 1\<rparr>)"
    and "\<exists>v. maximum_redirections d = Inr (v, d\<lparr>io_select := 1\<rparr>)"
    and "\<exists>v. ioapic_id d = Inr (v, d\<lparr>io_select := 0\<rparr>)"
  using assms
  by (simp_all add: ioapic_version_def maximum_redirections_def ioapic_id_def io_read_ok IOAPICVER_REG_def IOAPIC_ID_REG_def)

lemma init_devices_effect:
  assumes idt: "force_shared_idt P link kcs (world h) = Inr w0"
    and acpi: "ioapic_init (acpi_of P) (memory w0) = Inr st" and force: "force_all P (w0\<lparr>memory := st\<rparr>) = Inr w"
    and ok: "kernel_ok (h\<lparr>world := w\<rparr>)" and font: "length font = 4096" and len: "length (raw (inner (shared_idt w))) = 256"
  shows "\<exists>c d. init_devices P font link kcs h = Inr (h\<lparr>world := w\<lparr>con := c, ioapic_dev := d,
      hpet_dev := hpet_started (hpet_dev w),
      shared_idt := irq_guard_new ((inner (shared_idt w))
        \<lparr>raw := (raw (inner (shared_idt w)))[32 := irq_gate link kcs eoi_handler]\<rparr>),
      loaded_idt := Some (ptr (inner (shared_idt w)))\<rparr>\<rparr>) \<and>
    con_good c \<and> io_addr d = io_addr (ioapic_dev w) \<and> field (redirection d 2) 0 8 = 32 \<and> field (redirection d 2) 16 1 = 0"
proof -
  note same = force_all_same [OF force, simplified]
  let ?i = "Some (ptr (inner (shared_idt w)))" and ?c = "printed font ''loaded shared idt!'' (con w)"
  let ?h1 = "h\<lparr>world := w0\<lparr>loaded_idt := ?i, con := ?c, memory := st\<rparr>\<rparr>" and ?w1 = "w\<lparr>loaded_idt := ?i, con := ?c\<rparr>"
  have con: "con_good (con w)" using ok by (simp add: kernel_ok_def)
  have ok1: "kernel_ok (?h1\<lparr>world := ?w1\<rparr>)" using ok write_str_printed(2) [OF con font] by (simp add: kernel_ok_def)
  have "world ?h1 = w0\<lparr>memory := st, loaded_idt := ?i, con := ?c\<rparr>" by simp
  then have force1: "force_all P (world ?h1) = Inr ?w1"
    using force_all_frame [where P = P and w = "w0\<lparr>memory := st\<rparr>" and i = ?i and c = ?c] force by (simp only: bnd_Inr)
  obtain c d where h2: "hpet_init P font link kcs ?h1 = Inr (?h1\<lparr>world := ?w1\<lparr>con := c, ioapic_dev := d,
      hpet_dev := hpet_started (hpet_dev w),
      shared_idt := irq_guard_new ((inner (shared_idt w))
        \<lparr>raw := (raw (inner (shared_idt w)))[32 := irq_gate link kcs eoi_handler]\<rparr>)\<rparr>\<rparr>)"
    and c: "con_good c" and d: "ioapic_ok d" "io_addr d = io_addr (ioapic_dev w)"
    and f: "field (redirection d 2) 0 8 = 32" "field (redirection d 2) 16 1 = 0"
    using hpet_init_effect [OF force1 ok1 font, of link kcs] len by auto
  have l: "lapic_ok (lapic_dev w)" and clk: "clock_ok (hpet_started (hpet_dev w))"
    using ok hpet_started_clock by (auto simp: kernel_ok_def)
  obtain r where r: "tick_rate_ms (hpet_started (hpet_dev w)) = Inr r" using tick_rate_ok [OF clk] by blast
  obtain v1 v2 v3 where v: "ioapic_version d = Inr (v1, d\<lparr>io_select := 1\<rparr>)"
    "maximum_redirections (d\<lparr>io_select := 1\<rparr>) = Inr (v2, d\<lparr>io_select := 1\<rparr>)"
    "ioapic_id (d\<lparr>io_select := 1\<rparr>) = Inr (v3, d\<lparr>io_select := 0\<rparr>)"
    using ioapic_reads [of d] ioapic_reads [of "d\<lparr>io_select := 1\<rparr>"] d by auto
  have red: "redirection (d\<lparr>io_select := s\<rparr>) i = redirection d i" for s i by (simp add: redirection_def)
  note good = write_str_printed(2) [OF _ font]
  define c6 where "c6 = printed font (''io apic id: '' @ show_dec (unat v3))
    (printed font (''io apic maximum redirection: '' @ show_dec (unat v2))
    (printed font (''io apic version: '' @ show_dec (unat v1))
    (printed font (''hpet tick rate: '' @ show_dec (unat r))
    (printed font (''apic ver: '' @ show_dec (unat (drop_bit 24 (lapic_regs (lapic_dev w) (lapic_addr (lapic_dev w) + 0x20)))))
    (printed font (''lapic ver: '' @ show_dec (unat (lapic_regs (lapic_dev w) (lapic_addr (lapic_dev w) + 0x30) AND 0xff))) c)))))"
  have "con_good c6" unfolding c6_def by (intro good c)
  moreover have "init_devices P font link kcs h = Inr (h\<lparr>world := w\<lparr>con := c6, ioapic_dev := d\<lparr>io_select := 0\<rparr>,
      hpet_dev := hpet_started (hpet_dev w),
      shared_idt := irq_guard_new ((inner (shared_idt w))
        \<lparr>raw := (raw (inner (shared_idt w)))[32 := irq_gate link kcs eoi_handler]\<rparr>),
      loaded_idt := Some (ptr (inner (shared_idt w)))\<rparr>\<rparr>)"
    using h2 c con good acpi
    by (simp add: init_devices_def on_world_def idt load_shared_idt_eq idt_load_def println_eq [OF font] same [symmetric]
        lapic_version_ok [OF l] lapic_id_ok [OF l] r on_ioapic_def v c6_def)
  ultimately show ?thesis using d f red by (intro exI [of _ c6] exI [of _ "d\<lparr>io_select := 0\<rparr>"]) simp
qed

text \<open>The timer device runs, with the legacy routing and the interrupt of timer 0 enabled.\<close>

definition hpet_started_at :: "hpet \<Rightarrow> bool" where
  "hpet_started_at d \<longleftrightarrow> hpet_is_enabled d = Inr True \<and> is_using_legacy_mapping d = Inr True \<and> bit (hpet_reg d 0x100) 2"

lemma hpet_running:
  assumes "hpet_ok d"
  shows "hpet_started_at (set_reg 0xf0 n (hpet_started d))" and "hpet_started_at (hpet_started d)"
proof -
  show started: "hpet_started_at (set_reg 0xf0 n (hpet_started d))" for n
  proof -
    let ?d = "set_reg 0xf0 n (hpet_started d)"
    have ok: "hpet_ok ?d" using assms by (simp add: hpet_started_def)
    have r: "hpet_reg ?d 0x10 = hpet_reg d 0x10 OR 0b11" "hpet_reg ?d 0x100 = hpet_reg d 0x100 OR 0b100"
      by (simp_all add: hpet_started_def set_reg_def or.assoc)
    have b: "bit (hpet_reg d 0x10 OR 0b11) 0" "bit (hpet_reg d 0x10 OR 0b11) 1" "bit (hpet_reg d 0x100 OR 0b100) 2"
      by (simp_all add: bit_simps bit_numeral_rec)
    have "hpet_is_enabled ?d = Inr True" using b(1) hpet_read_ok [OF ok, of "0x10"]
      by (simp add: hpet_is_enabled_def hpet_consts r and_one_eq odd_iff_mod_2_eq_one bit_0)
    moreover have "is_using_legacy_mapping ?d = Inr True" using b(2) hpet_read_ok [OF ok, of "0x10"]
      by (simp add: is_using_legacy_mapping_def hpet_consts r and_one_eq odd_iff_mod_2_eq_one bit_iff_odd_drop_bit)
    ultimately show ?thesis using b(3) by (simp only: hpet_started_at_def r)
  qed
  have "set_reg 0xf0 (hpet_reg (hpet_started d) 0xf0) (hpet_started d) = hpet_started d" by (simp add: set_reg_def)
  then show "hpet_started_at (hpet_started d)" using started by metis
qed

definition apic_id :: "devices \<Rightarrow> nat" where
  "apic_id w = unat (drop_bit 24 (lapic_regs (lapic_dev w) (lapic_addr (lapic_dev w) + 0x20)))"

lemma cpu_online_effect:
  assumes "lapic_ok (lapic_dev (world h))" and "con_good (con (world h))" and "length font = 4096"
  shows "\<exists>c. cpu_online font cpu_id h = Inr (h\<lparr>world := (world h)\<lparr>con := c,
      loaded_idt := Some (ptr (inner (shared_idt (world h))))\<rparr>\<rparr>) \<and> con_good c"
  using assms write_str_printed(2) [OF assms(2,3)]
  by (auto simp: cpu_online_def lapic_id_ok lapic_version_ok println_eq load_shared_idt_eq idt_load_def)

lemma cpu_ready_effect:
  assumes "lapic_ok (lapic_dev (world h))" and "con_good (con (world h))" and "length font = 4096"
    and "apic_id (world h) < length (percpus (world h))"
  shows "\<exists>c. cpu_ready font t h = Inr (h\<lparr>world := (world h)\<lparr>con := c,
      percpus := (percpus (world h))[apic_id (world h) := Some \<lparr>lapic_ticks_per_ms = t\<rparr>]\<rparr>\<rparr>) \<and> con_good c"
  using assms write_str_printed(2) [OF assms(2,3)]
  by (intro exI [of _ "printed font (''CPU '' @ show_dec (apic_id (world h)) @ '' init done; data: '' @
      show_per_cpu \<lparr>lapic_ticks_per_ms = t\<rparr>) (con (world h))"])
    (simp add: cpu_ready_def set_percpu_def percpu_def lapic_id_ok println_eq apic_id_def Let_def)

text \<open>The whole start of the boot processor.\<close>

lemma spurious_vector: "((x AND 0xffffff00) OR 33) AND 0xff = (33 :: u32)"
proof -
  have "((x AND 0xffffff00) OR 33) AND 0xff = (x AND (0xffffff00 AND 0xff)) OR (33 AND 0xff)"
    by (simp only: bit.conj_disj_distrib2 and.assoc)
  then show ?thesis by simp
qed

lemma cpu_init_effect:
  assumes idt: "force_shared_idt P link kcs (world h) = Inr w0"
    and acpi: "ioapic_init (acpi_of P) (memory w0) = Inr st" and force: "force_all P (w0\<lparr>memory := st\<rparr>) = Inr w"
    and ok: "kernel_ok (h\<lparr>world := w\<rparr>)" and font: "length font = 4096" and tp: "time_passes passes"
    and cnt: "counter (hpet_dev w) < 2 ^ 63" and id: "apic_id w < MAX_CPU_COUNT"
    and bsp: "unat bsp < length cpus" and len: "length (raw (inner (shared_idt w))) = 256"
  shows "\<exists>h' t w1 s. cpu_init P font link kcs (Some (cpus, bsp)) passes h = Some (Inr h') \<and> eflags h' = eflags h \<and>
    loaded_idt (world h') = Some (ptr (inner (shared_idt w))) \<and>
    raw (inner (shared_idt (world h'))) = (raw (inner (shared_idt w)))
      [32 := irq_gate link kcs eoi_handler, 33 := irq_gate link kcs (irq_panic ''spurious interrupt 33''),
       34 := irq_gate link kcs (irq_panic ''lapic timer''), 35 := irq_gate link kcs (irq_panic ''LAPIC error'')] \<and>
    map (\<lambda>r. lapic_read r (lapic_dev (world h'))) [0x320, 0x370, 0x380, 0xF0] = [Inr 34, Inr 35, Inr 0, Inr s] \<and> s AND 0xff = 33 \<and>
    field (redirection (ioapic_dev (world h')) 2) 0 8 = 32 \<and> field (redirection (ioapic_dev (world h')) 2) 16 1 = 0 \<and>
    hpet_started_at (hpet_dev (world h')) \<and>
    percpus (world h') = (percpus w)[apic_id w := Some \<lparr>lapic_ticks_per_ms = t\<rparr>] \<and>
    calibrated_rate passes w1 t \<and> hpet_started_at (hpet_dev w1) \<and> memory w1 = memory w \<and> lapic_addr (lapic_dev w1) = lapic_addr (lapic_dev w) \<and>
    memory (world h') = memory w \<and> lapic_addr (lapic_dev (world h')) = lapic_addr (lapic_dev w) \<and>
    hpet_base (hpet_dev (world h')) = hpet_base (hpet_dev w) \<and> io_addr (ioapic_dev (world h')) = io_addr (ioapic_dev w)"
proof -
  let ?l = "lapic_dev w" and ?d = "hpet_dev w" and ?i = "inner (shared_idt w)"
  have l: "lapic_ok ?l" and clk: "clock_ok ?d"
    and pc: "length (percpus w) = MAX_CPU_COUNT" using ok by (auto simp: kernel_ok_def)
  let ?i1 = "?i\<lparr>raw := (raw ?i)[32 := irq_gate link kcs eoi_handler]\<rparr>"
  obtain c1 d where h1: "init_devices P font link kcs h = Inr (h\<lparr>world := w\<lparr>con := c1, ioapic_dev := d,
      hpet_dev := hpet_started ?d, shared_idt := irq_guard_new ?i1, loaded_idt := Some (ptr ?i)\<rparr>\<rparr>)"
    and c1: "con_good c1" and d: "io_addr d = io_addr (ioapic_dev w)" "field (redirection d 2) 0 8 = 32" "field (redirection d 2) 16 1 = 0"
    using init_devices_effect [OF idt acpi force ok font len] by blast
  let ?h1 = "h\<lparr>world := w\<lparr>con := c1, ioapic_dev := d, hpet_dev := hpet_started ?d,
    shared_idt := irq_guard_new ?i1, loaded_idt := Some (ptr ?i)\<rparr>\<rparr>"
  have "lapic_ok (lapic_dev (world ?h1))" "con_good (con (world ?h1))" using l c1 by simp_all
  from cpu_online_effect [OF this font, of "cpus ! unat bsp"] obtain c2 where
    h2: "cpu_online font (cpus ! unat bsp) ?h1 = Inr (?h1\<lparr>world := (world ?h1)\<lparr>con := c2, loaded_idt := Some (ptr ?i)\<rparr>\<rparr>)"
    and c2: "con_good c2" by auto
  let ?h2 = "?h1\<lparr>world := (world ?h1)\<lparr>con := c2, loaded_idt := Some (ptr ?i)\<rparr>\<rparr>"
  have "counter (hpet_started ?d) = counter ?d" by (simp add: counter_def hpet_started_def set_reg_def)
  then have "lapic_ok (lapic_dev (world ?h2))" "clock_ok (hpet_dev (world ?h2))" "counter (hpet_dev (world ?h2)) < 2 ^ 63"
    "length (raw (inner (shared_idt (world ?h2)))) = 256"
    using l hpet_started_clock [OF clk] cnt len by simp_all
  from local_apic_init_effect [OF tp this, of link kcs] obtain n v w1 where
    h3: "local_apic_init link kcs passes ?h2 = Some (Inr (- 1 - v, ?h2\<lparr>world := (world ?h2)
      \<lparr>hpet_dev := set_reg 0xf0 n (hpet_started ?d), lapic_dev := lapic_calibrated v (lapic_vectors ?l),
       shared_idt := irq_guard_new (irq_gates link kcs ?i1)\<rparr>\<rparr>))"
    and w1: "calibrated_rate passes w1 (- 1 - v)" "hpet_dev w1 = hpet_started ?d" "memory w1 = memory w" "lapic_addr (lapic_dev w1) = lapic_addr ?l"
    by auto
  define hh where "hh = ?h2\<lparr>world := (world ?h2)
    \<lparr>hpet_dev := set_reg 0xf0 n (hpet_started ?d), lapic_dev := lapic_calibrated v (lapic_vectors ?l),
     shared_idt := irq_guard_new (irq_gates link kcs ?i1)\<rparr>\<rparr>"
  have id4: "apic_id (world hh) = apic_id w" by (simp add: hh_def apic_id_def lapic_vectors_def lapic_calibrated_def)
  have l4: "lapic_ok (lapic_dev (world hh))" using l by (simp add: hh_def)
  moreover have "con_good (con (world hh))" using c2 by (simp add: hh_def)
  moreover have "apic_id (world hh) < length (percpus (world hh))" using id id4 pc by (simp add: hh_def)
  ultimately obtain c5 where h5: "cpu_ready font (- 1 - v) hh = Inr (hh\<lparr>world := (world hh)\<lparr>con := c5,
      percpus := (percpus (world hh))[apic_id (world hh) := Some \<lparr>lapic_ticks_per_ms = - 1 - v\<rparr>]\<rparr>\<rparr>)"
    using cpu_ready_effect [OF _ _ font] by blast
  let ?s = "(lapic_regs ?l (lapic_addr ?l + 0xF0) AND 0xffffff00) OR 33"
  have "hpet_started_at (hpet_dev (world hh))" "hpet_started_at (hpet_dev w1)"
    using clock_hpet_ok [OF clk] w1(2) hpet_running by (simp_all add: hh_def)
  moreover have "map (\<lambda>r. lapic_read r (lapic_dev (world hh))) [0x320, 0x370, 0x380, 0xF0] = [Inr 34, Inr 35, Inr 0, Inr ?s]"
    using l4 by (simp add: lapic_read_ok) (simp add: hh_def lapic_vectors_def lapic_calibrated_def)
  moreover have "cpu_init P font link kcs (Some (cpus, bsp)) passes h = Some (cpu_ready font (- 1 - v) hh)"
    using bsp by (simp only: cpu_init_def h1 cpu_main_rs_def h2 h3 hh_def
        sum.case option.case prod.case if_True)
  moreover have "lapic_addr (lapic_dev (world hh)) = lapic_addr ?l" "hpet_base (hpet_dev (world hh)) = hpet_base ?d"
    by (simp_all add: hh_def lapic_vectors_def lapic_calibrated_def hpet_started_def set_reg_def)
  ultimately show ?thesis
    using d h5 id4 w1(1,3,4) spurious_vector [of "lapic_regs ?l (lapic_addr ?l + 0xF0)"]
    by (intro exI [of _ "hh\<lparr>world := (world hh)\<lparr>con := c5,
        percpus := (percpus (world hh))[apic_id (world hh) := Some \<lparr>lapic_ticks_per_ms = - 1 - v\<rparr>]\<rparr>\<rparr>"] exI [of _ "- 1 - v"]
        exI [of _ w1] exI [of _ ?s])
      (simp add: hh_def irq_gates_def)
qed

section \<open>The first uses\<close>

text \<open>The stores of single bytes change neither where the local controller is nor its identification.\<close>

definition stores_harmless :: "'t platform \<Rightarrow> bool" where
  "stores_harmless P \<longleftrightarrow> (\<forall>ss l. lapic_addr (byte_stores P ss l) = lapic_addr l \<and>
    lapic_regs (byte_stores P ss l) (lapic_addr l + 0x20) = lapic_regs l (lapic_addr l + 0x20))"

lemma devices_at:
  "hpet_reg (hpet_at v d) r = hpet_reg d r" "hpet_base (hpet_at v d) = v" "lapic_addr (lapic_at v l) = v"
  "lapic_regs (lapic_at v l) (v + r) = lapic_regs l (lapic_addr l + r)"
  by (simp_all add: hpet_at_def lapic_at_def add.commute)

lemma devices_forced:
  assumes board: "board_ok (acpi_of P) b (memory w)" and lz: "lazies w = {SharedIdt}" and bytes: "stores_harmless P"
  shows "\<exists>st w'. ioapic_init (acpi_of P) (memory w) = Inr st \<and> force_all P (w\<lparr>memory := st\<rparr>) = Inr w' \<and>
    registers_shown b (memory w) (hpet_base (hpet_dev w')) (lapic_addr (lapic_dev w')) (io_addr (ioapic_dev w')) (memory w') \<and>
    lapic_ok (lapic_dev w') \<and> ioapic_ok (ioapic_dev w') \<and> (clock_ok (hpet_dev w) \<longrightarrow> clock_ok (hpet_dev w')) \<and>
    counter (hpet_dev w') = counter (hpet_dev w) \<and> apic_id w' = apic_id w"
proof -
  obtain st1 st2 st3 st4 b1 b2 b3 where r: "ioapic_init (acpi_of P) (memory w) = Inr st1"
    "hpet_base_addr (acpi_of P) st1 = Inr (VirtAddr (block_byte b1 0), st2)"
    "local_apic_address (acpi_of P) st2 = Inr (VirtAddr (block_byte b2 0), st3)"
    "ioapic_address (acpi_of P) st3 = Inr (VirtAddr (block_byte b3 0), st4)"
    and low: "\<forall>b \<in> {b1, b2, b3}. unat (block_byte b 0) + 4096 \<le> 2 ^ 64"
    and ds: "driver_state (memory w) st4 [b3, b2, b1] [ioapic_phys_addr b, lapic_phys_addr b, hpet_phys_addr b] (4 * tables_pages b + 3)"
    using drivers_run [OF board] by blast
  let ?d = "hpet_at (block_byte b1 0) (hpet_dev w)"
  let ?l = "byte_stores P (new_stores st2 st3) (lapic_at (block_byte b2 0) (lapic_dev w))"
  let ?w = "w\<lparr>hpet_dev := ?d, lapic_dev := ?l, ioapic_dev := (ioapic_dev w)\<lparr>io_addr := block_byte b3 0\<rparr>, memory := st4, lazies := {IoApicAddr, LocalApicAddress, HpetBaseAddr, SharedIdt}\<rparr>"
  have l: "lapic_addr ?l = block_byte b2 0" "lapic_regs ?l (block_byte b2 0 + 0x20) = lapic_regs (lapic_dev w) (lapic_addr (lapic_dev w) + 0x20)"
    using bytes [unfolded stores_harmless_def, rule_format, of "new_stores st2 st3" "lapic_at (block_byte b2 0) (lapic_dev w)"]
    by (simp_all add: devices_at)
  have "force_all P (w\<lparr>memory := st1\<rparr>) = Inr ?w"
    by (simp add: force_all_def force_defs lz r)
  moreover have "lapic_ok ?l" using low l(1) by (simp add: lapic_ok_def)
  moreover have "ioapic_ok (ioapic_dev ?w)" using low by (simp add: ioapic_ok_def)
  moreover have "clock_ok ?d = clock_ok (hpet_dev w) \<or> \<not> clock_ok (hpet_dev w)" "hpet_ok ?d"
    using low devices_at(1) [of "block_byte b1 0" "hpet_dev w" 0]
    by (auto simp: clock_ok_def tick_fs_def hpet_ok_def devices_at(2))
  moreover have "counter ?d = counter (hpet_dev w)" unfolding counter_def using devices_at(1) by metis
  moreover have "apic_id ?w = apic_id w" using l by (simp add: apic_id_def)
  moreover have "registers_shown b (memory w) (hpet_base ?d) (lapic_addr ?l) (block_byte b3 0) st4"
    using registers_shownI [OF ds] by (simp add: devices_at(2) l(1))
  ultimately show ?thesis using r(1) by (intro exI [of _ st1] exI [of _ ?w]) auto
qed

text \<open>The first uses in the order of the boot: the shared table, then the devices.\<close>

lemma first_uses:
  assumes room: "board_room 2 (acpi_of P) b (memory w)" and lz: "lazies w = {}" and bytes: "stores_harmless P"
  shows "\<exists>w0 st w' x i. force_shared_idt P link kcs w = Inr w0 \<and> ioapic_init (acpi_of P) (memory w0) = Inr st \<and>
    force_all P (w0\<lparr>memory := st\<rparr>) = Inr w' \<and>
    boot_memory b (memory w) x (hpet_base (hpet_dev w')) (lapic_addr (lapic_dev w')) (io_addr (ioapic_dev w')) (memory w') \<and>
    create_init_idt link kcs (x + raw_offset P) = Inr i \<and> shared_idt w' = irq_guard_new i \<and>
    ptr i = \<lparr>idt_ptr.limit = 0xFFF, idt_ptr.base = x + raw_offset P\<rparr> \<and> length (raw i) = 256 \<and>
    lapic_ok (lapic_dev w') \<and> ioapic_ok (ioapic_dev w') \<and> (clock_ok (hpet_dev w) \<longrightarrow> clock_ok (hpet_dev w')) \<and>
    counter (hpet_dev w') = counter (hpet_dev w) \<and> apic_id w' = apic_id w \<and> con w' = con w \<and> percpus w' = percpus w"
proof -
  have al: "layout_align idt_layout dvd 4096" and n: "2 = layout_size idt_layout div 4096 + 1" by (simp_all add: idt_layout_def IDT_LEN_def)
  obtain b0 st1 fs where b0: "alloc_or_abort idt_layout (memory w) = Inr (block_byte b0 0, st1)" "page_amount b0 = 2"
    "board_ok (acpi_of P) b st1" "live_inv (memory w) st1 [b0] [fs]" "memory_step (memory w, {}, []) (st1, {}, [b0])"
    using heap_block_first [OF room al n] by blast
  let ?a = "block_byte b0 0 + raw_offset P"
  obtain i where i: "create_init_idt link kcs ?a = Inr i" "ptr i = ptr (idt_init ?a)" "length (raw i) = 256"
    using init_gates_set by blast
  let ?w0 = "w\<lparr>shared_idt := irq_guard_new i, memory := st1, lazies := {SharedIdt}\<rparr>"
  have w0: "force_shared_idt P link kcs w = Inr ?w0"
    using lz by (simp add: force_shared_idt_def shared_idt_new_def b0(1) i(1))
  obtain st w' where f: "ioapic_init (acpi_of P) (memory ?w0) = Inr st" "force_all P (?w0\<lparr>memory := st\<rparr>) = Inr w'"
    and shown: "registers_shown b (memory ?w0) (hpet_base (hpet_dev w')) (lapic_addr (lapic_dev w')) (io_addr (ioapic_dev w')) (memory w')"
    and w': "lapic_ok (lapic_dev w')" "ioapic_ok (ioapic_dev w')" "clock_ok (hpet_dev ?w0) \<longrightarrow> clock_ok (hpet_dev w')"
      "counter (hpet_dev w') = counter (hpet_dev ?w0)" "apic_id w' = apic_id ?w0"
    using devices_forced [of P b ?w0] b0(3) bytes by auto
  have "boot_memory b (memory w) (block_byte b0 0) (hpet_base (hpet_dev w')) (lapic_addr (lapic_dev w')) (io_addr (ioapic_dev w')) (memory w')"
    using boot_memoryI [OF b0(4,5,2)] shown by simp
  moreover have "ptr i = \<lparr>idt_ptr.limit = 0xFFF, idt_ptr.base = ?a\<rparr>"
    by (simp add: i(2) idt_init_def IDT_LEN_def size_of_idt_raw_def Let_def)
  moreover have "apic_id ?w0 = apic_id w" by (simp add: apic_id_def)
  ultimately show ?thesis using w0 f w' i(1,3) force_all_same [OF f(2)]
    by (intro exI [of _ ?w0] exI [of _ st] exI [of _ w'] exI [of _ "block_byte b0 0"] exI [of _ i]) simp
qed

lemma cpu_init_booted:
  assumes room: "board_room 2 (acpi_of P) b (memory (world h))" and lz: "lazies (world h) = {}" and bytes: "stores_harmless P"
    and ok: "kernel_ok h" and font: "length font = 4096" and tp: "time_passes passes"
    and cnt: "counter (hpet_dev (world h)) < 2 ^ 63" and id: "apic_id (world h) < MAX_CPU_COUNT"
    and bsp: "unat bsp < length cpus"
  shows "\<exists>h' t x i s w. cpu_init P font link kcs (Some (cpus, bsp)) passes h = Some (Inr h') \<and> eflags h' = eflags h \<and>
    boot_memory b (memory (world h)) x (hpet_base (hpet_dev (world h'))) (lapic_addr (lapic_dev (world h')))
      (io_addr (ioapic_dev (world h'))) (memory (world h')) \<and>
    loaded_idt (world h') = Some \<lparr>idt_ptr.limit = 0xFFF, idt_ptr.base = x + raw_offset P\<rparr> \<and>
    create_init_idt link kcs (x + raw_offset P) = Inr i \<and>
    raw (inner (shared_idt (world h'))) = (raw i)
      [32 := irq_gate link kcs eoi_handler, 33 := irq_gate link kcs (irq_panic ''spurious interrupt 33''),
       34 := irq_gate link kcs (irq_panic ''lapic timer''), 35 := irq_gate link kcs (irq_panic ''LAPIC error'')] \<and>
    map (\<lambda>r. lapic_read r (lapic_dev (world h'))) [0x320, 0x370, 0x380, 0xF0] = [Inr 34, Inr 35, Inr 0, Inr s] \<and> s AND 0xff = 33 \<and>
    field (redirection (ioapic_dev (world h')) 2) 0 8 = 32 \<and> field (redirection (ioapic_dev (world h')) 2) 16 1 = 0 \<and>
    hpet_started_at (hpet_dev (world h')) \<and>
    percpus (world h') = (percpus (world h))[apic_id (world h) := Some \<lparr>lapic_ticks_per_ms = t\<rparr>] \<and>
    calibrated_rate passes w t \<and> hpet_started_at (hpet_dev w) \<and> memory w = memory (world h') \<and>
    lapic_addr (lapic_dev w) = lapic_addr (lapic_dev (world h'))"
proof -
  obtain w0 st w x i where f: "force_shared_idt P link kcs (world h) = Inr w0" "ioapic_init (acpi_of P) (memory w0) = Inr st"
      "force_all P (w0\<lparr>memory := st\<rparr>) = Inr w"
    and mem: "boot_memory b (memory (world h)) x (hpet_base (hpet_dev w)) (lapic_addr (lapic_dev w)) (io_addr (ioapic_dev w)) (memory w)"
    and i: "create_init_idt link kcs (x + raw_offset P) = Inr i" "shared_idt w = irq_guard_new i"
      "ptr i = \<lparr>idt_ptr.limit = 0xFFF, idt_ptr.base = x + raw_offset P\<rparr>" "length (raw i) = 256"
    and w: "lapic_ok (lapic_dev w)" "ioapic_ok (ioapic_dev w)" "clock_ok (hpet_dev (world h)) \<longrightarrow> clock_ok (hpet_dev w)"
      "counter (hpet_dev w) = counter (hpet_dev (world h))" "apic_id w = apic_id (world h)" "con w = con (world h)" "percpus w = percpus (world h)"
    using first_uses [OF room lz bytes] by metis
  have "kernel_ok (h\<lparr>world := w\<rparr>)" using ok w by (simp add: kernel_ok_def)
  from cpu_init_effect [OF f this font tp _ _ bsp] cnt id w(4,5) i(2,4) obtain h' t w1 s where
    "cpu_init P font link kcs (Some (cpus, bsp)) passes h = Some (Inr h')" "eflags h' = eflags h"
    "loaded_idt (world h') = Some (ptr i)"
    "raw (inner (shared_idt (world h'))) = (raw i)[32 := irq_gate link kcs eoi_handler, 33 := irq_gate link kcs (irq_panic ''spurious interrupt 33''),
       34 := irq_gate link kcs (irq_panic ''lapic timer''), 35 := irq_gate link kcs (irq_panic ''LAPIC error'')]"
    "map (\<lambda>r. lapic_read r (lapic_dev (world h'))) [0x320, 0x370, 0x380, 0xF0] = [Inr 34, Inr 35, Inr 0, Inr s]" "s AND 0xff = 33"
    "field (redirection (ioapic_dev (world h')) 2) 0 8 = 32" "field (redirection (ioapic_dev (world h')) 2) 16 1 = 0"
    "hpet_started_at (hpet_dev (world h'))"
    "percpus (world h') = (percpus w)[apic_id w := Some \<lparr>lapic_ticks_per_ms = t\<rparr>]"
    "calibrated_rate passes w1 t" "hpet_started_at (hpet_dev w1)" "memory w1 = memory w" "lapic_addr (lapic_dev w1) = lapic_addr (lapic_dev w)"
    "memory (world h') = memory w" "lapic_addr (lapic_dev (world h')) = lapic_addr (lapic_dev w)"
    "hpet_base (hpet_dev (world h')) = hpet_base (hpet_dev w)" "io_addr (ioapic_dev (world h')) = io_addr (ioapic_dev w)"
    by auto
  then show ?thesis using mem i(1,3) w(5,7)
    by (intro exI [of _ h'] exI [of _ t] exI [of _ x] exI [of _ i] exI [of _ s] exI [of _ w1]) simp
qed

text \<open>
  C19. Bringing up the boot processor ends, without a panic, in the halt loop. The live allocations are then exactly four: the block of the heap, of two pages,
  that holds the shared table, and the pages with the registers of the three devices, at the addresses the drivers use. The processor has loaded the table in that block, with
  the gates of the initial table and interrupt gates for the timer (32), the spurious interrupt (33), the local timer (34) and the controller's error (35); the
  local controller is programmed with these three vectors and its timer is stopped; line 2 of the I/O controller raises vector 32 and is not masked; the
  timer device is running with the legacy routing and the interrupt of timer 0 enabled. The tick rate that is stored for this processor, and for no other,
  is the measured one: how far the local timer, started at its largest count in the world \<open>w\<close>, had come down when the sleep of a millisecond ended. The flags are those at the entry.
\<close>

theorem cpu_init_ready:
  assumes room: "board_room 2 (acpi_of P) b (memory (world h))" and lz: "lazies (world h) = {}" and bytes: "stores_harmless P"
    and ok: "kernel_ok h" and font: "length font = 4096" and tp: "time_passes passes"
    and cnt: "counter (hpet_dev (world h)) < 2 ^ 63" and id: "apic_id (world h) < MAX_CPU_COUNT"
    and bsp: "unat bsp < length cpus"
  shows "\<exists>h' t x i s w. cpu_init P font link kcs (Some (cpus, bsp)) passes h = Some (Inr h') \<and> eflags h' = eflags h \<and>
    boot_memory b (memory (world h)) x (hpet_base (hpet_dev (world h'))) (lapic_addr (lapic_dev (world h')))
      (io_addr (ioapic_dev (world h'))) (memory (world h')) \<and>
    loaded_idt (world h') = Some \<lparr>idt_ptr.limit = 0xFFF, idt_ptr.base = x + raw_offset P\<rparr> \<and>
    create_init_idt link kcs (x + raw_offset P) = Inr i \<and>
    raw (inner (shared_idt (world h'))) = (raw i)
      [32 := irq_gate link kcs eoi_handler, 33 := irq_gate link kcs (irq_panic ''spurious interrupt 33''),
       34 := irq_gate link kcs (irq_panic ''lapic timer''), 35 := irq_gate link kcs (irq_panic ''LAPIC error'')] \<and>
    map (\<lambda>r. lapic_read r (lapic_dev (world h'))) [0x320, 0x370, 0x380, 0xF0] = [Inr 34, Inr 35, Inr 0, Inr s] \<and> s AND 0xff = 33 \<and>
    field (redirection (ioapic_dev (world h')) 2) 0 8 = 32 \<and> field (redirection (ioapic_dev (world h')) 2) 16 1 = 0 \<and>
    hpet_started_at (hpet_dev (world h')) \<and>
    percpus (world h') = (percpus (world h))[apic_id (world h) := Some \<lparr>lapic_ticks_per_ms = t\<rparr>] \<and>
    calibrated_rate passes w t \<and> hpet_started_at (hpet_dev w) \<and> memory w = memory (world h') \<and>
    lapic_addr (lapic_dev w) = lapic_addr (lapic_dev (world h'))"
  by (rule cpu_init_booted [OF assms])

definition example_kernel :: kernel where
  "example_kernel = \<lparr>eflags = 2, world = \<lparr>lapic_dev = \<lparr>lapic_addr = 0xffff900000000000, lapic_regs = (\<lambda>_. 0)\<rparr>,
    ioapic_dev = example_ioapic, hpet_dev = example_hpet 7, con = example_console,
    shared_idt = irq_guard_new (idt_init 0x5000), percpus = replicate 32 None, loaded_idt = None,
    memory = (boot_machine, boot_inner), lazies = {}\<rparr>\<rparr>"

definition example_passes :: "devices \<Rightarrow> nat \<Rightarrow> devices" where
  "example_passes w k = w\<lparr>hpet_dev := set_reg 0xf0 (of_nat k) (hpet_dev w), lapic_dev := (lapic_dev w)
    \<lparr>lapic_regs := (lapic_regs (lapic_dev w))(lapic_addr (lapic_dev w) + 0x390 := 5)\<rparr>\<rparr>"

lemma example_time_passes: "time_passes example_passes"
proof -
  have "counter (hpet_dev (example_passes w k)) = k" if "k < 2 ^ 64" for w k
    using that by (simp add: example_passes_def counter_def set_reg_def)
  then have "\<forall>k < 1000001000000. counter (hpet_dev (example_passes w k)) < counter (hpet_dev (example_passes w (Suc k)))" for w
    by simp
  moreover have "1000001000000 \<le> 1000001000000 * tick_fs (hpet_dev w)" if "clock_ok (hpet_dev w)" for w
    using that by (simp add: clock_ok_def)
  ultimately show ?thesis unfolding time_passes_def by (auto simp: example_passes_def)
qed

definition example_platform :: "unit platform" where
  "example_platform = \<lparr>acpi_of = example_acpi, byte_stores = (\<lambda>ss l. l), raw_first = True\<rparr>"

lemma example_platform_ok:
  "board_room 2 (acpi_of example_platform) example_board (memory (world example_kernel))" "lazies (world example_kernel) = {}"
  "stores_harmless example_platform" "kernel_ok example_kernel"
proof -
  have "free_run boot_machine (last_page_alloc boot_inner) 0 10" "40 \<le> free_count (physical_allocator boot_inner)"
    using boot_free_run [of 10] by (simp_all add: boot_free)
  then show "board_room 2 (acpi_of example_platform) example_board (memory (world example_kernel))"
    using example_board_ok by (auto simp: board_room_def example_platform_def example_kernel_def example_board_def)
qed (simp_all add: example_platform_def stores_harmless_def kernel_ok_def example_kernel_def lapic_ok_def ioapic_ok_def
      example_ioapic_def example_hpet_clock con_good_def example_console_def example_screen_def console_ok_def screen_ok_def
      columns_fit_def MAX_CPU_COUNT_def)

theorem cpu_init_ready_witness:
  "\<exists>h' t w. cpu_init example_platform (replicate 4096 0) (\<lambda>_. 0x1000) 0x28 (Some ([0], 0)) example_passes example_kernel = Some (Inr h') \<and>
    percpus (world h') ! 0 = Some \<lparr>lapic_ticks_per_ms = t\<rparr> \<and> calibrated_rate example_passes w t"
proof -
  from cpu_init_ready [OF example_platform_ok length_replicate example_time_passes, of 0 "[0]" 0 "\<lambda>_. 0x1000" "0x28"]
  obtain h' t w where "cpu_init example_platform (replicate 4096 0) (\<lambda>_. 0x1000) 0x28 (Some ([0], 0)) example_passes example_kernel = Some (Inr h')"
    "percpus (world h') = (percpus (world example_kernel))[apic_id (world example_kernel) := Some \<lparr>lapic_ticks_per_ms = t\<rparr>]"
    "calibrated_rate example_passes w t"
    by (auto simp: example_kernel_def example_hpet_clock apic_id_def MAX_CPU_COUNT_def)
  then show ?thesis
    by (intro exI [of _ h'] exI [of _ t] exI [of _ w]) (simp add: example_kernel_def apic_id_def)
qed

end
