(* ===== verification/Boot.thy ===== *)
theory Boot
  imports Cpu
begin

text \<open>
  The entry of the kernel (\<open>src/main.rs\<close>), with the global console (\<open>src/lib.rs\<close>) and the initialisation of the
  memory (\<open>memory::init\<close>) that it calls, up to the halt loop.

  What the boot loader answers to the kernel's requests is the record \<open>boot\<close>, an unanswered request being \<open>None\<close>;
  the font, the addresses the linker gives the handlers and the initial table, and the passing of time are parameters as
  in \<open>Cpu\<close>. The values that the code creates when they are first used (the console, the shared table, the addresses of the devices)
  are created where they are first used. Without a screen the code executes \<open>hlt\<close> and goes on
  at the next interrupt: that branch changes nothing of the state here.
\<close>

section \<open>Definitions\<close>

record boot =
  framebuffers :: "framebuffer list option"
  base_supported :: bool
  memory_map :: "memory_map_entry list option"
  executable :: "(u64 \<times> u64) option"
  cpu_response :: "(u32 list \<times> u32) option"

record linked =
  font :: "u8 list"
  link :: "handler \<Rightarrow> u64"
  kcs :: u16
  init_addr :: u64

definition SCREEN :: "framebuffer list option \<Rightarrow> screen run" where
  "SCREEN response =
    bnd (unwrap response) (\<lambda>fbs.
    bnd (unwrap (case fbs of [] \<Rightarrow> None | fb # _ \<Rightarrow> Some fb)) (\<lambda>fb. Inr (screen_new fb)))"

definition CONSOLE :: "framebuffer list option \<Rightarrow> console run" where
  "CONSOLE response = bnd (SCREEN response) (\<lambda>s. console_new s black blue)"

definition kernel_size :: "u64 \<Rightarrow> u64 \<Rightarrow> u64 run" where
  "kernel_size at_kernel_begin at_kernel_end = chk_sub at_kernel_end at_kernel_begin"

definition kernel_phy_begin :: "(u64 \<times> u64) option \<Rightarrow> u64 run" where
  "kernel_phy_begin response = bnd (unwrap response) (\<lambda>r. Inr (fst r))"

definition kernel_virt_begin :: "(u64 \<times> u64) option \<Rightarrow> u64 run" where
  "kernel_virt_begin response = bnd (unwrap response) (\<lambda>r. Inr (snd r))"

definition kernel_virt_end :: "u64 \<Rightarrow> u64 \<Rightarrow> (u64 \<times> u64) option \<Rightarrow> u64 run" where
  "kernel_virt_end at_kernel_begin at_kernel_end response =
    bnd (unwrap response) (\<lambda>r.
    bnd (kernel_size at_kernel_begin at_kernel_end) (\<lambda>n. chk_add (snd r) n))"

text \<open>\<open>console\<close> is what the access to the console does: it creates it when this is its first use.\<close>

definition memory_init ::
  "u8 list \<Rightarrow> (kernel \<Rightarrow> kernel run) \<Rightarrow> memory_map_entry list option \<Rightarrow> kernel \<Rightarrow> kernel run" where
  "memory_init fnt console response h =
    bnd (unwrap response) (\<lambda>entries.
    bnd (unwrap (max_by_length (filter usable entries))) (\<lambda>usable_mem.
    bnd (sum_u64 0 (map len (filter usable entries))) (\<lambda>max_mem.
    bnd (console h) (\<lambda>h.
    bnd (console_println fnt (''base mem: 0x'' @ show_radix 16 (unat (memory_map_entry.base usable_mem)) @ '', size: '' @
        show_dec (unat (len usable_mem)) @ '' bytes, max_mem: '' @ show_dec (unat max_mem)) h) (\<lambda>h.
    bnd (configure_physical_area (PhyAddr (memory_map_entry.base usable_mem)) (len usable_mem) (snd (memory (world h)))) (\<lambda>pa.
    Inr (h\<lparr>world := (world h)\<lparr>memory := (fst (memory (world h)), pa)\<rparr>\<rparr>)))))))"

text \<open>The part of \<open>kmain_rs\<close> before it starts the boot processor.\<close>

definition kmain_early :: "linked \<Rightarrow> boot \<Rightarrow> kernel \<Rightarrow> kernel run" where
  "kmain_early l b h =
    bnd (assert_that (base_supported b)) (\<lambda>_.
    bnd (create_init_idt (link l) (kcs l) (init_addr l)) (\<lambda>init.
    let h = h\<lparr>world := lidt (idt_load init) (world h)\<rparr> in
    bnd (CONSOLE (framebuffers b)) (\<lambda>c.
    let h = h\<lparr>world := (world h)\<lparr>con := c\<rparr>\<rparr> in
    bnd (console_println (font l) ''IDT has been loaded'' h) (\<lambda>h.
    bnd (memory_init (font l) Inr (memory_map b) h) (\<lambda>h.
    bnd (console_println (font l) ''memory has been loaded!'' h) (\<lambda>h.
    bnd (kernel_phy_begin (executable b)) (\<lambda>phy.
    bnd (kernel_virt_begin (executable b)) (\<lambda>virt.
    console_println (font l) (''kernel phy_addr: '' @ show_radix 16 (unat phy) @ '', kernel virt_addr: '' @
        show_radix 16 (unat virt)) h))))))))"

definition kmain_rs :: "linked \<Rightarrow> boot \<Rightarrow> 't platform \<Rightarrow> (devices \<Rightarrow> nat \<Rightarrow> devices) \<Rightarrow> kernel \<Rightarrow> kernel run option" where
  "kmain_rs l b P passes h =
    (case kmain_early l b h of
       Inl e \<Rightarrow> Some (Inl e)
     | Inr h \<Rightarrow> cpu_init P (font l) (link l) (kcs l) (cpu_response b) passes h)"

section \<open>The usable memory\<close>

lemma max_by_length_Some:
  "es \<noteq> [] \<Longrightarrow> \<exists>u \<in> set es. max_by_length es = Some u \<and> (\<forall>e \<in> set es. len e \<le> len u)"
proof (induction es)
  case (Cons e es)
  show ?case
  proof (cases "es = []")
    case False
    then obtain u where "u \<in> set es" "max_by_length es = Some u" "\<forall>e \<in> set es. len e \<le> len u"
      using Cons.IH by auto
    then show ?thesis by (cases "len u < len e") force+
  qed simp
qed simp

lemma sum_u64_total:
  "unat acc + sum_list (map unat xs) < 2 ^ 64 \<Longrightarrow> sum_u64 acc xs = Inr (acc + sum_list xs)"
proof (induction xs arbitrary: acc)
  case (Cons x xs)
  have "unat acc + unat x < 2 ^ 64" using Cons.prems by simp
  moreover from this have "unat (acc + x) = unat acc + unat x" by (simp add: unat_word_ariths)
  ultimately show ?case using Cons by (simp add: chk_add_def add.assoc)
qed simp

text \<open>A memory map from which the kernel can boot: its largest usable area starts on a frame boundary.\<close>

definition memory_map_ok :: "memory_map_entry list \<Rightarrow> bool" where
  "memory_map_ok es \<longleftrightarrow> filter usable es \<noteq> [] \<and>
    sum_list (map (\<lambda>e. unat (len e)) (filter usable es)) < 2 ^ 64 \<and>
    (\<forall>e \<in> set es. usable e \<longrightarrow> memory_map_entry.base e mod frame_size = 0)"

definition largest_usable :: "memory_map_entry list \<Rightarrow> memory_map_entry \<Rightarrow> bool" where
  "largest_usable es u \<longleftrightarrow> u \<in> set es \<and> usable u \<and> (\<forall>e \<in> set es. usable e \<longrightarrow> len e \<le> len u)"

text \<open>The memory after \<open>memory::init\<close>: the bitmap describes the frames from the start of the area on, as many as it holds.\<close>

definition configured :: "memory_map_entry \<Rightarrow> vm \<Rightarrow> vm" where
  "configured u st = (fst st, (snd st)\<lparr>physical_allocator :=
    set_limit ((physical_allocator (snd st))\<lparr>offset := PhyAddr (memory_map_entry.base u)\<rparr>) (len u)\<rparr>)"

lemma memory_init_effect:
  assumes "memory_map_ok es" and "con_good (con (world h))" and "length fnt = 4096" and "console h0 = Inr h"
  shows "\<exists>u c. largest_usable es u \<and> con_good c \<and>
    memory_init fnt console (Some es) h0 = Inr (h\<lparr>world := (world h)\<lparr>con := c, memory := configured u (memory (world h))\<rparr>\<rparr>)"
proof -
  obtain u where u: "max_by_length (filter usable es) = Some u" "largest_usable es u"
    using max_by_length_Some [of "filter usable es"] assms(1) by (auto simp: memory_map_ok_def largest_usable_def)
  moreover have "memory_map_entry.base u mod frame_size = 0" using assms(1) u(2) by (auto simp: memory_map_ok_def largest_usable_def)
  moreover have "sum_u64 0 (map len (filter usable es)) = Inr (sum_list (map len (filter usable es)))"
    using assms(1) sum_u64_total [of 0 "map len (filter usable es)"] by (simp add: memory_map_ok_def comp_def)
  ultimately show ?thesis
    using println_eq [OF assms(3,2)] write_str_printed(2) [OF assms(2,3)]
    by (auto simp: memory_init_def assms(4) configured_def configure_physical_area_def set_offset_def assert_that_def)
qed

section \<open>From the entry to the halt loop\<close>

text \<open>What the boot loader must have answered, and a screen on which the console works.\<close>

definition boot_ok :: "boot \<Rightarrow> bool" where
  "boot_ok b \<longleftrightarrow> base_supported b \<and>
    (case framebuffers b of
       Some (fb # _) \<Rightarrow> screen_ok (screen_new fb) \<and> columns_fit (screen_new fb) \<and>
         8 \<le> width (screen_new fb) \<and> 16 \<le> height (screen_new fb)
     | _ \<Rightarrow> False) \<and>
    (case memory_map b of Some es \<Rightarrow> memory_map_ok es | None \<Rightarrow> False) \<and>
    executable b \<noteq> None \<and>
    (case cpu_response b of Some (cpus, bsp) \<Rightarrow> unat bsp < length cpus | None \<Rightarrow> False)"

definition devices_ok :: "devices \<Rightarrow> bool" where
  "devices_ok w \<longleftrightarrow> lapic_ok (lapic_dev w) \<and> ioapic_ok (ioapic_dev w) \<and> clock_ok (hpet_dev w) \<and>
    length (percpus w) = MAX_CPU_COUNT"

lemma CONSOLE_good:
  assumes "boot_ok b"
  obtains c where "CONSOLE (framebuffers b) = Inr c" and "con_good c"
proof -
  obtain fb fbs where fb: "framebuffers b = Some (fb # fbs)" "screen_ok (screen_new fb)" "columns_fit (screen_new fb)"
    "8 \<le> width (screen_new fb)" "16 \<le> height (screen_new fb)"
    using assms by (auto simp: boot_ok_def split: option.splits list.splits)
  obtain c where c: "console_new (screen_new fb) black blue = Inr c" "console_ok c"
    "paints (screen_new fb) (\<lambda>p. if on_screen (screen_new fb) p then Some black else None) (screen c)"
    by (rule console_new_ok [OF fb(2,4,5)])
  show thesis
  proof (rule that)
    show "CONSOLE (framebuffers b) = Inr c" using c(1) fb(1) by (simp add: CONSOLE_def SCREEN_def)
    show "con_good c"
      using c(2) fb(3) paints_geometry(1) [OF c(3)] by (simp add: con_good_def columns_fit_def)
  qed
qed

lemma kmain_early_effect:
  assumes b: "boot_ok b" and f: "length (font l) = 4096" and es: "memory_map b = Some es"
  shows "\<exists>u c i. largest_usable es u \<and> con_good c \<and>
    kmain_early l b h = Inr (h\<lparr>world := (world h)\<lparr>con := c, loaded_idt := Some i, memory := configured u (memory (world h))\<rparr>\<rparr>)"
proof -
  obtain init where init: "create_init_idt (link l) (kcs l) (init_addr l) = Inr init" using init_gates_set by blast
  obtain c where c: "CONSOLE (framebuffers b) = Inr c" "con_good c" by (rule CONSOLE_good [OF b])
  let ?h1 = "h\<lparr>world := (world h)\<lparr>loaded_idt := Some (idt_load init), con := c\<rparr>\<rparr>"
  define h2 where "h2 = ?h1\<lparr>world := (world ?h1)\<lparr>con := printed (font l) ''IDT has been loaded'' (con (world ?h1))\<rparr>\<rparr>"
  have p1: "console_println (font l) ''IDT has been loaded'' ?h1 = Inr h2"
    unfolding h2_def using c(2) by (intro println_eq [OF f]) simp
  have "con_good (con (world h2))" unfolding h2_def using write_str_printed(2) [OF c(2) f] by simp
  moreover have "memory_map_ok es" using b es by (simp add: boot_ok_def)
  ultimately obtain u c2 where u: "largest_usable es u" "con_good c2" and
    m: "memory_init (font l) Inr (Some es) h2 = Inr (h2\<lparr>world := (world h2)\<lparr>con := c2, memory := configured u (memory (world h2))\<rparr>\<rparr>)"
    using memory_init_effect [OF _ _ f refl] by meson
  obtain phy virt where x: "executable b = Some (phy, virt)" using b by (auto simp: boot_ok_def)
  let ?c3 = "printed (font l) ''memory has been loaded!'' c2"
  let ?c4 = "printed (font l) (''kernel phy_addr: '' @ show_radix 16 (unat phy) @ '', kernel virt_addr: '' @
         show_radix 16 (unat virt)) ?c3"
  have good: "con_good ?c3" "con_good ?c4" using write_str_printed(2) [OF _ f] u(2) by blast+
  have "kmain_early l b h = Inr (h\<lparr>world := (world h)\<lparr>con := ?c4, loaded_idt := Some (idt_load init),
      memory := configured u (memory (world h))\<rparr>\<rparr>)"
    using b p1 m u(2) good
    by (simp add: kmain_early_def boot_ok_def assert_that_def init c(1) es x kernel_phy_begin_def kernel_virt_begin_def
        println_eq [OF f]) (simp add: h2_def)
  then show ?thesis using u(1) good(2) by blast
qed

section \<open>An instance\<close>

definition example_boot :: boot where
  "example_boot = \<lparr>framebuffers = Some [\<lparr>fb_bpp = 32, fb_pitch = 4096, fb_height = 768, fb_width = 1024, fb_bytes = (\<lambda>_. 0)\<rparr>],
    base_supported = True,
    memory_map = Some [\<lparr>memory_map_entry.base = 0, len = 0x9fc00, usable = True\<rparr>,
      \<lparr>memory_map_entry.base = 0x9fc00, len = 0x400, usable = False\<rparr>,
      \<lparr>memory_map_entry.base = 0x100000, len = 0x40000000, usable = True\<rparr>],
    executable = Some (0x200000, 0xffffffff80000000), cpu_response = Some ([0], 0)\<rparr>"

lemma example_boot_ok: "boot_ok example_boot"
  by (simp add: boot_ok_def example_boot_def screen_new_def screen_ok_def columns_fit_def memory_map_ok_def)

definition example_start :: kernel where
  "example_start = example_kernel\<lparr>world := (world example_kernel)
    \<lparr>memory := (boot_machine, \<lparr>physical_allocator = init_phys (PhyAddr 0), last_page_alloc = Page 1\<rparr>)\<rparr>\<rparr>"

lemma example_configured:
  assumes "largest_usable (the (memory_map example_boot)) u"
  shows "configured u (memory (world example_start)) = (boot_machine, boot_inner)"
proof -
  have "memory_map_entry.base u = 0x100000" "len u = 0x40000000"
    using assms by (auto simp: largest_usable_def example_boot_def)
  then show ?thesis by (simp add: configured_def example_start_def boot_inner_def init_phys_def set_limit_def)
qed

end
