(* ===== verification/Test_Build.thy ===== *)
theory Test_Build
  imports Self_Tests Boot Memory_System "HOL-Library.Char_ord" "HOL-Library.List_Lexorder"
begin

text \<open>
  The kernel built for its tests: its entry (\<open>kmain_rs\<close> of \<open>src/test.rs\<close>), which loads the initial interrupt table, initialises
  the memory and calls the harness, and the tests of the global allocator (\<open>src/memory/allocator.rs\<close>), as
  the requests that the collections of the standard library make for them: a vector asks for the layout of its capacity, doubles it when it is full
  by a request for the new block and the release of the old one, and a box asks for the layout of its content.

  The state that the tests share is that of the page allocator. The file system is modelled with a store of its own; the
  blocks that its collections take from the heap during a test, and give back, are a parameter: \<open>traffic\<close> maps a test to any sequence of requests and releases.

  Lemmas: the tests of the allocator give back all they take, and the whole run of the test build ends with
  the report that all tests have succeeded.
\<close>

section \<open>Requests of the standard library\<close>

record 'a vec =
  vec_ptr :: u64
  vec_cap :: nat
  vec_items :: "'a list"

definition array_layout :: "layout \<Rightarrow> nat \<Rightarrow> layout" where
  "array_layout el n = \<lparr>layout_size = n * layout_size el, layout_align = layout_align el\<rparr>"

definition vec_of :: "layout \<Rightarrow> 'a list \<Rightarrow> vm \<Rightarrow> ('a vec \<times> vm) run" where
  "vec_of el xs st =
    bnd (alloc_or_abort (array_layout el (length xs)) st) (\<lambda>(ptr, st).
    Inr (\<lparr>vec_ptr = ptr, vec_cap = length xs, vec_items = xs\<rparr>, st))"

definition vec_push :: "layout \<Rightarrow> 'a \<Rightarrow> 'a vec \<Rightarrow> vm \<Rightarrow> ('a vec \<times> vm) run" where
  "vec_push el x v st =
    (if length (vec_items v) < vec_cap v then Inr (v\<lparr>vec_items := vec_items v @ [x]\<rparr>, st)
     else let cap = max 4 (max (2 * vec_cap v) (vec_cap v + 1)) in
       bnd (alloc_or_abort (array_layout el cap) st) (\<lambda>(ptr, st).
       bnd (heap_dealloc (vec_ptr v) (array_layout el (vec_cap v)) st) (\<lambda>st.
       Inr (\<lparr>vec_ptr = ptr, vec_cap = cap, vec_items = vec_items v @ [x]\<rparr>, st))))"

definition vec_set :: "nat \<Rightarrow> 'a \<Rightarrow> 'a vec \<Rightarrow> 'a vec run" where
  "vec_set i x v =
    (if i < length (vec_items v) then Inr (v\<lparr>vec_items := (vec_items v)[i := x]\<rparr>) else Inl IndexOutOfBounds)"

definition vec_drop :: "layout \<Rightarrow> 'a vec \<Rightarrow> vm \<Rightarrow> vm run" where
  "vec_drop el v st = heap_dealloc (vec_ptr v) (array_layout el (vec_cap v)) st"

section \<open>The heap under the tests of the file system\<close>

text \<open>A release names a block by its position among the live ones, the newest first.\<close>

datatype heap_op = Take layout | Give nat

fun heap_run :: "heap_op list \<Rightarrow> (u64 \<times> layout) list \<Rightarrow> vm \<Rightarrow> ((u64 \<times> layout) list \<times> vm) run" where
  "heap_run [] live st = Inr (live, st)"
| "heap_run (Take l # ops) live st = bnd (alloc_or_abort l st) (\<lambda>(x, st). heap_run ops ((x, l) # live) st)"
| "heap_run (Give i # ops) live st =
    (if i < length live
     then bnd (heap_dealloc (fst (live ! i)) (snd (live ! i)) st) (\<lambda>st. heap_run ops (take i live @ drop (Suc i) live) st)
     else Inl IndexOutOfBounds)"

text \<open>Requests with the alignments of ordinary types, releases of live blocks only; and how many pages the requests take.\<close>

fun traffic_ok :: "heap_op list \<Rightarrow> nat \<Rightarrow> bool" where
  "traffic_ok [] n \<longleftrightarrow> True"
| "traffic_ok (Take l # ops) n \<longleftrightarrow> layout_align l dvd 4096 \<and> traffic_ok ops (Suc n)"
| "traffic_ok (Give i # ops) n \<longleftrightarrow> i < n \<and> traffic_ok ops (n - 1)"

fun traffic_pages :: "heap_op list \<Rightarrow> nat" where
  "traffic_pages [] = 0"
| "traffic_pages (Take l # ops) = layout_size l div 4096 + 1 + traffic_pages ops"
| "traffic_pages (Give i # ops) = traffic_pages ops"

section \<open>The tests of the allocator\<close>

definition str_layout :: layout where
  "str_layout = \<lparr>layout_size = 16, layout_align = 8\<rparr>"

text \<open>The conversion of a literal to text succeeds, and the search in it has no effect.\<close>

definition basic_alloc :: "vm \<Rightarrow> vm run" where
  "basic_alloc st =
    bnd (vec_of str_layout [''hello'', ''wassup'', ''hi''] st) (\<lambda>(vec, st).
    bnd (vec_push str_layout ''value'' vec st) (\<lambda>(vec, st).
    bnd (vec_push str_layout ''value'' vec st) (\<lambda>(vec, st).
    bnd (vec_set 0 ''test'' vec) (\<lambda>vec.
    bnd (vec_set 4 ''test'' vec) (\<lambda>vec.
    bnd (vec_drop str_layout vec st) (\<lambda>st.
    bnd (alloc_or_abort str_layout st) (\<lambda>(ok, st).
    heap_dealloc ok str_layout st)))))))"

definition big_alloc :: "vm \<Rightarrow> vm run" where
  "big_alloc st =
    (let el = \<lparr>layout_size = 4, layout_align = 4\<rparr> in
     bnd (vec_of el (replicate 10000 (0 :: int)) st) (\<lambda>(big_box, st).
     bnd (vec_set 0 1 big_box) (\<lambda>big_box.
     bnd (usize_sub (length (vec_items big_box)) 1) (\<lambda>i.
     bnd (vec_set i (- 3321) big_box) (\<lambda>big_box.
     vec_drop el big_box st)))))"

text \<open>A test that panics is recorded with the state in which it began.\<close>

definition vm_test :: "(vm \<Rightarrow> vm run) \<Rightarrow> vm test_body" where
  "vm_test f st = (case f st of Inl e \<Rightarrow> (False, st, Some e) | Inr st' \<Rightarrow> (False, st', None))"

definition on_machine :: "machine testable \<Rightarrow> vm testable" where
  "on_machine x = \<lparr>type_name = type_name x,
    test_body = (\<lambda>(m, inner). case test_body x m of (mark, m', r) \<Rightarrow> (mark, (m', inner), r))\<rparr>"

text \<open>
  A test of the file system runs on the heap: a request that cannot be met ends the test.
\<close>

definition with_heap :: "(string \<Rightarrow> heap_op list) \<Rightarrow> machine testable \<Rightarrow> vm testable" where
  "with_heap traffic x = \<lparr>type_name = type_name x,
    test_body = (\<lambda>st. case heap_run (traffic (type_name x)) [] st of
      Inl e \<Rightarrow> (False, st, Some e)
    | Inr (live, st) \<Rightarrow> test_body (on_machine x) st)\<rparr>"

text \<open>All tests of the library, sorted by their paths.\<close>

definition allocator_tests :: "vm testable list" where
  "allocator_tests =
    [\<lparr>type_name = ''os_test::memory::allocator::test::basic_alloc'', test_body = vm_test basic_alloc\<rparr>,
     \<lparr>type_name = ''os_test::memory::allocator::test::big_alloc'', test_body = vm_test big_alloc\<rparr>]"

definition lib_tests :: "(string \<Rightarrow> heap_op list) \<Rightarrow> vm testable list" where
  "lib_tests traffic = map (with_heap traffic) fs_tests @ allocator_tests @ map on_machine memory_tests"

section \<open>The entry of the test build\<close>

text \<open>The console is first used in the initialisation of the memory.\<close>

definition test_init :: "linked \<Rightarrow> boot \<Rightarrow> kernel \<Rightarrow> kernel run" where
  "test_init l b h =
    bnd (create_init_idt (link l) (kcs l) (init_addr l)) (\<lambda>init.
    let h = h\<lparr>world := lidt (idt_load init) (world h)\<rparr> in
    memory_init (font l) (\<lambda>h. bnd (CONSOLE (framebuffers b)) (\<lambda>c. Inr (h\<lparr>world := (world h)\<lparr>con := c\<rparr>\<rparr>)))
      (memory_map b) h)"

text \<open>A panic before the first test goes to the panic handler of the tests, which finds no test to go on with.\<close>

definition test_kmain_rs ::
  "linked \<Rightarrow> boot \<Rightarrow> (string \<Rightarrow> heap_op list) \<Rightarrow> (panic \<Rightarrow> string) \<Rightarrow> port_trace \<Rightarrow> kernel \<Rightarrow> vm test_run" where
  "test_kmain_rs l b traffic show_panic tr h =
    (case test_init l b h of
       Inl e \<Rightarrow> next_test show_panic (test_panicked show_panic e (TESTS (memory (world h)) tr))
     | Inr h \<Rightarrow> test_runner show_panic (lib_tests traffic) (TESTS (memory (world h)) tr))"

section \<open>A session of heap requests\<close>

text \<open>
  The state after some requests from \<open>st0\<close>, which has \<open>L\<close> free pages where it starts to search: the search has moved on by \<open>d\<close> pages, the live blocks
  lie behind it, and at least \<open>F\<close> frames are free.
\<close>

definition heap_inv :: "vm \<Rightarrow> nat \<Rightarrow> vm \<Rightarrow> page_allocation list \<Rightarrow> nat \<Rightarrow> nat \<Rightarrow> bool" where
  "heap_inv st0 L st live d F \<longleftrightarrow> (\<exists>fss. live_inv st0 st live fss) \<and> F \<le> free_count (physical_allocator (snd st)) \<and>
    (let p = last_page_alloc (snd st0) in
     page_ok p \<and> free_run (fst st0) p 0 L \<and> d < L \<and> last_page_alloc (snd st) = page_plus p d \<and>
     (\<forall>b \<in> set live. \<forall>c \<in> block_pages b. c \<le> canonical_num p + d) \<and>
     root (fst st) = root (fst st0) \<and>
     root_kept (root (fst st0)) ((\<lambda>j. level4_idx (page_plus p j)) ` {..d}) (fst st0) (fst st))"

lemma root_kept_mono: "root_kept t S m m' \<Longrightarrow> S \<subseteq> S' \<Longrightarrow> root_kept t S' m m'"
  by (auto simp: root_kept_def)

lemma heap_inv_run:
  assumes "heap_inv st0 L st live d F" and "d + n < L"
  shows "free_run (fst st) (last_page_alloc (snd st)) 1 n"
proof -
  let ?p = "last_page_alloc (snd st0)"
  obtain fss where inv: "live_inv st0 st live fss" and p: "page_ok ?p" "free_run (fst st0) ?p 0 L"
    and last: "last_page_alloc (snd st) = page_plus ?p d" and live: "\<forall>b \<in> set live. \<forall>c \<in> block_pages b. c \<le> canonical_num ?p + d"
    using assms(1) by (auto simp: heap_inv_def Let_def)
  have num: "canonical_num (page_plus ?p j) = canonical_num ?p + j" if "j < L" for j
    using page_plus_nums(2) [OF p(1), of j] p(2) that by (simp add: free_run_def)
  have "view (fst st) (root (fst st)) (page_plus ?p j) = Unmapped" if "d < j" "j < L" for j
  proof -
    have "canonical_num (page_plus ?p j) \<notin> block_pages b" if "b \<in> set live" for b
      using live that num [OF \<open>j < L\<close>] \<open>d < j\<close> by fastforce
    then show ?thesis using live_invD(4) [OF inv] p(2) that by (simp add: free_run_def)
  qed
  then show ?thesis using assms(2) p(2) num [of d] by (simp add: free_run_def last page_plus_plus)
qed

lemma heap_inv_alloc:
  assumes inv: "heap_inv st0 L st live d F" and al: "layout_align l dvd 4096" and n: "n = layout_size l div 4096 + 1"
    and room: "d + n < L" "F' + 4 * n \<le> F"
  shows "\<exists>x st' b d'. alloc_or_abort l st = Inr (x, st') \<and> heap_inv st0 L st' (b # live) d' F' \<and> d' \<le> d + n \<and>
    page_allocation_new (VirtAddr x) n = Inr b \<and> pages_needed (layout_size l) (layout_align l) = Inr n"
proof -
  obtain m inner where st: "st = (m, inner)" by fastforce
  let ?p = "last_page_alloc (snd st0)"
  obtain fss where lv: "live_inv st0 st live fss" and p: "page_ok ?p" "free_run (fst st0) ?p 0 L" "d < L"
    and last: "last_page_alloc inner = page_plus ?p d" and live: "\<forall>b \<in> set live. \<forall>c \<in> block_pages b. c \<le> canonical_num ?p + d"
    and root: "root m = root (fst st0)" "root_kept (root (fst st0)) ((\<lambda>j. level4_idx (page_plus ?p j)) ` {..d}) (fst st0) m"
    and free: "F \<le> free_count (physical_allocator inner)"
    using inv by (auto simp: heap_inv_def Let_def st)
  note ok = live_invD(1) [OF lv, unfolded st]
  have run: "free_run m (last_page_alloc inner) 1 n" using heap_inv_run [OF inv room(1)] by (simp add: st)
  have "4 * n \<le> free_count (physical_allocator inner)" using free room(2) by simp
  from heap_alloc_pages [OF ok n al this run] obtain q fs m' inner' where
    a: "heap_alloc l (m, inner) = Inr (num q * PAGE_SIZE, m', inner')" "vm_ok (set fs \<union> set (concat fss)) (m', inner')"
      "page_ok q" "canonical_num q + n < 2 ^ 36" "unat (num q) + n < 2 ^ 36"
      "\<forall>x\<in>set (pages_from q n). view m (root m) x = Unmapped" "length fs = n" "distinct fs"
      "set fs \<inter> set (concat fss) = {}" "root m' = root m" "view m' (root m) = map_pages (view m (root m)) (pages_from q n) fs"
      "pages_needed (layout_size l) (layout_align l) = Inr n" "vm_kept {} (4 * n) (m, inner) (m', inner')"
    and k: "\<exists>k\<le>1. q = page_plus (last_page_alloc inner) k" "last_page_alloc inner' = page_plus q (n - 1)"
      "root_kept (root m) (level4_idx ` set (pages_from q n)) m m'"
    by metis
  obtain i where i: "i \<le> 1" "q = page_plus ?p (d + i)" using k(1) by (auto simp: last page_plus_plus)
  let ?b = "\<lparr>first_page = q, page_amount = n\<rparr>" and ?d = "d + i + n - 1"
  have d: "last_page_alloc inner' = page_plus ?p ?d" "?d \<le> d + n" "?d < L"
    using k(2) i n room(1) by (simp_all add: page_plus_plus add.assoc)
  have num: "canonical_num (page_plus ?p j) = canonical_num ?p + j" if "j < L" for j
    using page_plus_nums(2) [OF p(1), of j] p(2) that by (simp add: free_run_def)
  have grown: "grown (set (concat fss)) st ?b fs (m', inner')"
    using a n vm_kept_mono [OF a(13)] by (auto simp: grown_def block_ok_def st)
  have blk: "\<forall>c \<in> block_pages ?b. c \<le> canonical_num ?p + ?d"
    using num d(3) by (auto simp: block_pages_def set_pages_from i(2) page_plus_plus)
  have S: "(\<lambda>j. level4_idx (page_plus ?p j)) ` {..d} \<union> level4_idx ` set (pages_from q n) \<subseteq> (\<lambda>j. level4_idx (page_plus ?p j)) ` {..?d}"
    using n by (auto simp: set_pages_from i(2) page_plus_plus)
  have kept: "root_kept (root (fst st0)) ((\<lambda>j. level4_idx (page_plus ?p j)) ` {..?d}) (fst st0) m'"
    by (rule root_kept_mono [OF _ S], rule root_kept_trans [OF root(2)]) (use k(3) root(1) in simp)
  have "unat (num q) = unat (num (last_page_alloc inner)) + i"
    using page_plus_nums(1) [OF vm_okD(2) [OF ok], of i] run i by (simp add: free_run_def last page_plus_plus)
  then have "0 < unat (num q)" using vm_okD(7) [OF ok] by simp
  then have "unat (num q * PAGE_SIZE) \<noteq> 0" using a(5) by (simp add: unat_word_ariths)
  then have ptr: "alloc_or_abort l st = Inr (num q * PAGE_SIZE, m', inner')"
    using a(1) by (auto simp: alloc_or_abort_def st)
  have new: "page_allocation_new (VirtAddr (num q * PAGE_SIZE)) n = Inr ?b"
    using page_from_low [of q] a(5) by (simp add: page_allocation_new_def)
  have "F' \<le> free_count (physical_allocator inner')" using a(13) free room(2) by (auto simp: vm_kept_def)
  then have "heap_inv st0 L (m', inner') (?b # live) ?d F'"
    using live_inv_grown [OF lv grown] p d live blk root(1) a(10) kept n
    by (fastforce simp: heap_inv_def Let_def)
  then show ?thesis using ptr d(2) new a(12) by blast
qed

lemma heap_inv_free:
  assumes inv: "heap_inv st0 L st (xs @ b # ys) d F" and b: "page_allocation_new (VirtAddr x) n = Inr b"
    and n: "pages_needed (layout_size l) (layout_align l) = Inr n"
  shows "\<exists>st'. heap_dealloc x l st = Inr st' \<and> heap_inv st0 L st' (xs @ ys) d F"
proof -
  obtain fss where lv: "live_inv st0 st (xs @ b # ys) fss" using inv by (auto simp: heap_inv_def)
  then have "list_all2 (block_mapped (fst st)) (xs @ b # ys) fss" by (rule live_invD(3))
  then obtain ms fs ns where fss: "fss = ms @ fs # ns" "length xs = length ms"
    by (auto simp: list_all2_append1 list_all2_Cons1 dest: list_all2_lengthD)
  from live_inv_release_at [OF lv [unfolded fss(1)] fss(2)] obtain st' where
    st': "dealloc_pages free_frame b st = Inr st'" "live_inv st0 st' (xs @ ys) (ms @ ns)" "vm_kept {} 0 st st'"
      "last_page_alloc (snd st') = last_page_alloc (snd st)" "root_kept (root (fst st)) {} (fst st) (fst st')"
      "root (fst st') = root (fst st)"
    by blast
  have "heap_dealloc x l st = dealloc_pages free_frame b st"
    using b n by (auto simp: heap_dealloc_def page_allocation_new_def bnd_eq_Inr_iff)
  moreover have "heap_inv st0 L st' (xs @ ys) d F"
    using inv st' root_kept_trans [of "root (fst st0)" _ "fst st0" "fst st" "{}" "fst st'"]
    by (auto simp: heap_inv_def Let_def vm_kept_def)
  ultimately show ?thesis using st'(1) by simp
qed

text \<open>The blocks of a session and the pages they are in.\<close>

definition block_of :: "u64 \<times> layout \<Rightarrow> page_allocation \<Rightarrow> bool" where
  "block_of xl b \<longleftrightarrow> (\<exists>n. page_allocation_new (VirtAddr (fst xl)) n = Inr b \<and>
    pages_needed (layout_size (snd xl)) (layout_align (snd xl)) = Inr n)"

lemma heap_run_ok:
  assumes "heap_inv st0 L st (bs @ ys) d (F + 4 * traffic_pages ops)" and "list_all2 block_of live bs"
    and "traffic_ok ops (length live)" and "d + traffic_pages ops < L"
  shows "\<exists>live' st' bs' d'. heap_run ops live st = Inr (live', st') \<and> heap_inv st0 L st' (bs' @ ys) d' F \<and> d' \<le> d + traffic_pages ops"
  using assms
proof (induction ops live st arbitrary: bs d rule: heap_run.induct)
  case (1 live st)
  then show ?case by auto
next
  case (2 l ops live st)
  let ?n = "layout_size l div 4096 + 1"
  obtain x st' b d' where a: "alloc_or_abort l st = Inr (x, st')" "heap_inv st0 L st' (b # bs @ ys) d' (F + 4 * traffic_pages ops)"
    "d' \<le> d + ?n" "page_allocation_new (VirtAddr x) ?n = Inr b" "pages_needed (layout_size l) (layout_align l) = Inr ?n"
    using heap_inv_alloc [OF 2(2) _ refl, of l "F + 4 * traffic_pages ops"] 2(4,5) by force
  have "block_of (x, l) b" using a(4,5) by (auto simp: block_of_def)
  then have "list_all2 block_of ((x, l) # live) (b # bs)" using 2(3) by simp
  then show ?case using 2(1) [OF _ refl, of x st' "b # bs" d'] a(1-3) 2(4,5) by fastforce
next
  case (3 i ops live st)
  then have i: "i < length live" "i < length bs" by (auto dest: list_all2_lengthD)
  have bs: "take i bs @ bs ! i # (drop (Suc i) bs @ ys) = bs @ ys" using id_take_nth_drop [OF i(2)] by (metis append.assoc append_Cons)
  obtain n where n: "page_allocation_new (VirtAddr (fst (live ! i))) n = Inr (bs ! i)"
    "pages_needed (layout_size (snd (live ! i))) (layout_align (snd (live ! i))) = Inr n"
    using list_all2_nthD [OF 3(3) i(1)] by (auto simp: block_of_def)
  have "heap_inv st0 L st (take i bs @ bs ! i # (drop (Suc i) bs @ ys)) d (F + 4 * traffic_pages ops)" using 3(2) by (simp add: bs)
  from heap_inv_free [OF this n] obtain st' where
    st': "heap_dealloc (fst (live ! i)) (snd (live ! i)) st = Inr st'"
      "heap_inv st0 L st' ((take i bs @ drop (Suc i) bs) @ ys) d (F + 4 * traffic_pages ops)" by auto
  have "list_all2 block_of (take i live @ drop (Suc i) live) (take i bs @ drop (Suc i) bs)"
    using 3(3) by (intro list_all2_appendI list_all2_takeI list_all2_dropI)
  then show ?case using 3(1) [OF i(1), of st' "take i bs @ drop (Suc i) bs" d] st' 3(4,5) i(1) by simp
qed

lemma basic_alloc_ok:
  assumes "heap_inv st0 L st ys d (F + 12)" and "d + 3 < L"
  shows "\<exists>st' d'. basic_alloc st = Inr st' \<and> heap_inv st0 L st' ys d' F \<and> d' \<le> d + 3"
proof -
  let ?l = "array_layout str_layout"
  have al: "layout_align (?l k) dvd 4096" "layout_align str_layout dvd 4096" for k
    by (simp_all add: array_layout_def str_layout_def)
  have one: "1 = layout_size (?l 3) div 4096 + 1" "1 = layout_size (?l 6) div 4096 + 1" "1 = layout_size str_layout div 4096 + 1"
    by (simp_all add: array_layout_def str_layout_def)
  obtain x1 s1 b1 d1 where 1: "alloc_or_abort (?l 3) st = Inr (x1, s1)" "heap_inv st0 L s1 (b1 # ys) d1 (F + 8)" "d1 \<le> d + 1"
    "page_allocation_new (VirtAddr x1) 1 = Inr b1" "pages_needed (layout_size (?l 3)) (layout_align (?l 3)) = Inr 1"
    using heap_inv_alloc [OF assms(1) al(1) one(1), of "F + 8"] assms(2) by force
  obtain x2 s2 b2 d2 where 2: "alloc_or_abort (?l 6) s1 = Inr (x2, s2)" "heap_inv st0 L s2 (b2 # b1 # ys) d2 (F + 4)" "d2 \<le> d1 + 1"
    "page_allocation_new (VirtAddr x2) 1 = Inr b2" "pages_needed (layout_size (?l 6)) (layout_align (?l 6)) = Inr 1"
    using heap_inv_alloc [OF 1(2) al(1) one(2), of "F + 4"] 1(3) assms(2) by force
  obtain s3 where 3: "heap_dealloc x1 (?l 3) s2 = Inr s3" "heap_inv st0 L s3 (b2 # ys) d2 (F + 4)"
    using heap_inv_free [of st0 L s2 "[b2]" b1 ys d2 "F + 4", OF _ 1(4,5)] 2(2) by auto
  obtain s4 where 4: "heap_dealloc x2 (?l 6) s3 = Inr s4" "heap_inv st0 L s4 ys d2 (F + 4)"
    using heap_inv_free [of st0 L s3 "[]" b2 ys d2 "F + 4", OF _ 2(4,5)] 3(2) by auto
  obtain x5 s5 b5 d5 where 5: "alloc_or_abort str_layout s4 = Inr (x5, s5)" "heap_inv st0 L s5 (b5 # ys) d5 F" "d5 \<le> d2 + 1"
    "page_allocation_new (VirtAddr x5) 1 = Inr b5" "pages_needed (layout_size str_layout) (layout_align str_layout) = Inr 1"
    using heap_inv_alloc [OF 4(2) al(2) one(3), of F] 1(3) 2(3) assms(2) by force
  obtain s6 where 6: "heap_dealloc x5 str_layout s5 = Inr s6" "heap_inv st0 L s6 ys d5 F"
    using heap_inv_free [of st0 L s5 "[]" b5 ys d5 F, OF _ 5(4,5)] 5(2) by auto
  have "basic_alloc st = Inr s6"
    using 1(1) 2(1) 3(1) 4(1) 5(1) 6(1)
    by (simp add: basic_alloc_def vec_of_def vec_push_def vec_set_def vec_drop_def numeral_3_eq_3 [symmetric])
  then show ?thesis using 6(2) 1(3) 2(3) 5(3) by fastforce
qed

lemma big_alloc_ok:
  assumes "heap_inv st0 L st ys d (F + 40)" and "d + 10 < L"
  shows "\<exists>st' d'. big_alloc st = Inr st' \<and> heap_inv st0 L st' ys d' F \<and> d' \<le> d + 10"
proof -
  let ?l = "array_layout \<lparr>layout_size = 4, layout_align = 4\<rparr> 10000"
  have al: "layout_align ?l dvd 4096" and n: "10 = layout_size ?l div 4096 + 1" by (simp_all add: array_layout_def)
  obtain x s1 b d' where 1: "alloc_or_abort ?l st = Inr (x, s1)" "heap_inv st0 L s1 (b # ys) d' F" "d' \<le> d + 10"
    "page_allocation_new (VirtAddr x) 10 = Inr b" "pages_needed (layout_size ?l) (layout_align ?l) = Inr 10"
    using heap_inv_alloc [OF assms(1) al n, of F] assms(2) by force
  obtain s2 where 2: "heap_dealloc x ?l s1 = Inr s2" "heap_inv st0 L s2 ys d' F"
    using heap_inv_free [of st0 L s1 "[]" b ys d' F, OF _ 1(4,5)] 1(2) by auto
  have "big_alloc st = Inr s2"
    using 1(1) 2(1) by (simp add: big_alloc_def vec_of_def vec_set_def vec_drop_def usize_sub_def Let_def)
  then show ?thesis using 2(2) 1(3) by blast
qed

section \<open>The run of the tests\<close>

lemma passes_of_append:
  "passes_of (xs @ ys) k = (case passes_of xs k of (ps, k') \<Rightarrow> case passes_of ys k' of (qs, k'') \<Rightarrow> (ps @ qs, k''))"
  by (induction xs k rule: passes_of.induct) (auto split: prod.split)

lemma passes_of_machine:
  "passes_of (map on_machine ts) (m, vi) = (case passes_of ts m of (ps, m') \<Rightarrow> (ps, m', vi))"
  by (induction ts arbitrary: m) (auto simp: on_machine_def split: prod.split)

lemma fs_tests_plain: "x \<in> set fs_tests \<Longrightarrow> test_body x m = (False, m, None)"
  unfolding fs_tests_def by (auto simp: plain_test_def path_tests ramfs_tests)

lemma heap_tests_pass:
  assumes "\<forall>x \<in> set ts. (\<forall>m. test_body x m = (False, m, None)) \<and> traffic_ok (traffic (type_name x)) 0"
    and "heap_inv st0 L st ys d (F + 4 * (\<Sum>x\<leftarrow>ts. traffic_pages (traffic (type_name x))))"
    and "d + (\<Sum>x\<leftarrow>ts. traffic_pages (traffic (type_name x))) < L"
  shows "\<exists>st' ys' d'. passes_of (map (with_heap traffic) ts) st = (replicate (length ts) True, st') \<and>
    heap_inv st0 L st' ys' d' F \<and> d' \<le> d + (\<Sum>x\<leftarrow>ts. traffic_pages (traffic (type_name x)))"
  using assms
proof (induction ts arbitrary: st ys d)
  case (Cons x ts)
  let ?ops = "traffic (type_name x)" and ?rest = "\<Sum>x\<leftarrow>ts. traffic_pages (traffic (type_name x))"
  have "heap_inv st0 L st ([] @ ys) d (F + 4 * ?rest + 4 * traffic_pages ?ops)" using Cons.prems(2) by (simp add: algebra_simps)
  moreover have "traffic_ok ?ops (length ([] :: (u64 \<times> layout) list))" "d + traffic_pages ?ops < L" using Cons.prems(1,3) by simp_all
  ultimately obtain live st' bs d' where h: "heap_run ?ops [] st = Inr (live, st')" "heap_inv st0 L st' (bs @ ys) d' (F + 4 * ?rest)"
    "d' \<le> d + traffic_pages ?ops"
    using heap_run_ok [where live = "[]" and bs = "[]"] by (metis list_all2_Nil)
  obtain st'' ys' d'' where r: "passes_of (map (with_heap traffic) ts) st' = (replicate (length ts) True, st'')"
    "heap_inv st0 L st'' ys' d'' F" "d'' \<le> d' + ?rest"
    using Cons.IH [of st' "bs @ ys" d'] Cons.prems(1,3) h(2,3) by auto
  have "test_body (with_heap traffic x) st = (False, st', None)"
    using h(1) Cons.prems(1) by (simp add: with_heap_def on_machine_def split_def)
  then show ?case using r h(3) by (intro exI [of _ st''] exI [of _ ys'] exI [of _ d'']) simp
qed auto

lemma absent_count_kept:
  assumes "root_kept t S m m'" and "finite S"
  shows "absent_count m t \<le> absent_count m' t + card S"
proof -
  let ?A = "\<lambda>m. {j. j < 512 \<and> \<not> present (tables m t j)}"
  have card: "absent_count m t = card (?A m)" for m
    unfolding absent_count_def using distinct_card [of "filter (\<lambda>i. \<not> present (tables m t i)) [0..<512]"]
    by (simp add: conj_commute)
  have "?A m \<subseteq> ?A m' \<union> S" using assms(1) by (auto simp: root_kept_def)
  then have "card (?A m) \<le> card (?A m' \<union> S)" using assms(2) by (intro card_mono) auto
  also have "\<dots> \<le> card (?A m') + card S" by (rule card_Un_le)
  finally show ?thesis by (simp add: card)
qed

text \<open>What the tests need of the memory, when those of the file system take \<open>k\<close> pages.\<close>

definition room_for_tests :: "nat \<Rightarrow> vm \<Rightarrow> bool" where
  "room_for_tests k st \<longleftrightarrow> vm_ok {} st \<and> free_run (fst st) (last_page_alloc (snd st)) 0 (k + 16) \<and>
    4 * k + 52 \<le> free_count (physical_allocator (snd st)) \<and> k + 24 \<le> absent_count (fst st) (root (fst st))"

definition fs_traffic :: "(string \<Rightarrow> heap_op list) \<Rightarrow> nat \<Rightarrow> bool" where
  "fs_traffic traffic k \<longleftrightarrow> (\<forall>x \<in> set fs_tests. traffic_ok (traffic (type_name x)) 0) \<and>
    (\<Sum>x\<leftarrow>fs_tests. traffic_pages (traffic (type_name x))) = k"

lemma heap_inv_start:
  assumes "room_for_tests k st"
  shows "heap_inv st (k + 16) st [] 0 (52 + 4 * k)"
proof -
  have "live_inv st st [] []" using assms by (simp add: room_for_tests_def live_inv_def outside_kept_refl)
  then have "\<exists>fss. live_inv st st [] fss" by blast
  then show ?thesis using assms vm_okD(2) [of "{}" "fst st" "snd st"] by (simp add: heap_inv_def room_for_tests_def)
qed

lemma memory_tests_pass:
  assumes st: "room_for_tests k (m, vi)" and inv: "heap_inv (m, vi) L (m2, vi2) ys d 0" "d \<le> k + 13"
  shows "fst (passes_of memory_tests m2) = replicate 9 True"
proof -
  obtain fss where "live_inv (m, vi) (m2, vi2) ys fss" using inv(1) by (auto simp: heap_inv_def)
  then have "vm_ok (set (concat fss)) (m2, vi2)" by (rule live_invD(1))
  note D = vm_okD [OF this]
  have "hhdm_ok m2 (root m2)" using D(5) by (simp add: space_ok_def)
  then have cur: "current m2 = Inr (root m2)" using current_eq [OF walk_low(1) D(3)] by (simp add: root_def)
  let ?S = "(\<lambda>j. level4_idx (page_plus (last_page_alloc vi) j)) ` {..d}"
  have kept: "root_kept (root m) ?S m m2" "root m2 = root m" using inv(1) by (simp_all add: heap_inv_def Let_def)
  have "card ?S \<le> card {..d}" by (rule card_image_le) simp
  then have "k + 24 \<le> absent_count m2 (root m2) + (k + 14)"
    using absent_count_kept [OF kept(1)] st inv(2) by (simp add: room_for_tests_def kept(2))
  moreover have "length memory_tests = 9" by (simp add: memory_tests_def)
  ultimately show ?thesis
    using passes_of_ok [of memory_tests "root m2" m2] cur self_tests_ok by (simp add: self_tests_def)
qed

lemma lib_tests_pass:
  assumes st: "room_for_tests k st" and tr: "fs_traffic traffic k"
  shows "fst (passes_of (lib_tests traffic) st) = replicate 17 True"
proof -
  have k: "(\<Sum>x\<leftarrow>fs_tests. traffic_pages (traffic (type_name x))) = k"
    and plain: "\<forall>x \<in> set fs_tests. (\<forall>m. test_body x m = (False, m, None)) \<and> traffic_ok (traffic (type_name x)) 0"
    using tr fs_tests_plain by (simp_all add: fs_traffic_def)
  have six: "length fs_tests = 6" by (simp add: fs_tests_def)
  obtain s0 ys d0 where 0: "passes_of (map (with_heap traffic) fs_tests) st = (replicate 6 True, s0)"
    "heap_inv st (k + 16) s0 ys d0 52" "d0 \<le> k"
    using heap_tests_pass [OF plain, of st "k + 16" st "[]" 0 52] heap_inv_start [OF st] by (auto simp: k six)
  obtain s1 d1 where 1: "basic_alloc s0 = Inr s1" "heap_inv st (k + 16) s1 ys d1 40" "d1 \<le> k + 3"
    using basic_alloc_ok [of st "k + 16" s0 ys d0 40] 0(2,3) by fastforce
  obtain s2 d2 where 2: "big_alloc s1 = Inr s2" "heap_inv st (k + 16) s2 ys d2 0" "d2 \<le> k + 13"
    using big_alloc_ok [of st "k + 16" s1 ys d1 0] 1(2,3) by fastforce
  obtain m vi m2 vi2 where s: "st = (m, vi)" "s2 = (m2, vi2)" by fastforce
  have al: "passes_of allocator_tests s0 = ([True, True], s2)" using 1(1) 2(1) by (simp add: allocator_tests_def vm_test_def)
  obtain qs m3 where q: "passes_of memory_tests m2 = (qs, m3)" by fastforce
  then have "qs = replicate 9 True" using memory_tests_pass [OF st [unfolded s] 2(2) [unfolded s] 2(3)] by simp
  moreover have "passes_of (lib_tests traffic) st = (replicate 6 True @ [True, True] @ qs, m3, vi2)"
    using al 0(1) q by (simp add: lib_tests_def passes_of_append passes_of_machine s)
  ultimately show ?thesis by (simp add: numeral_eq_Suc)
qed

lemma lib_tests_sorted: "sorted (map type_name (lib_tests traffic))"
  by (simp add: lib_tests_def fs_tests_def memory_tests_def allocator_tests_def with_heap_def on_machine_def)

text \<open>
  C34. The kernel built for its tests passes them: from its entry, with the requests to the boot loader answered and room in the memory,
  it loads the interrupt table, initialises the memory and runs all the tests of the library, sorted by their paths as the compiler sorts them; each of them
  does what it announces, and the harness ends with the line that 17 tests have succeeded and none has failed and with the exit code of success. The tests of
  the file system may take any blocks from the heap, give some of them back and keep others, \<open>k\<close> pages altogether; the memory has room for these and for what
  the tests of the allocator take after them.
\<close>

theorem test_build_passes:
  assumes "boot_ok b" and "length (font l) = 4096" and "fs_traffic traffic k"
    and "\<forall>u. largest_usable (the (memory_map b)) u \<longrightarrow> room_for_tests k (configured u (memory (world h)))"
  shows "let s = test_kmain_rs l b traffic show_panic tr h in
    length (lib_tests traffic) = 17 \<and> sorted (map type_name (lib_tests traffic)) \<and>
    success_tests_num s = 17 \<and> failed_tests_num s = 0 \<and> ended s"
proof -
  obtain es where es: "memory_map b = Some es" "memory_map_ok es" using assms(1) by (auto simp: boot_ok_def split: option.splits)
  obtain i where i: "create_init_idt (link l) (kcs l) (init_addr l) = Inr i" using init_gates_set by blast
  obtain c where c: "CONSOLE (framebuffers b) = Inr c" "con_good c" by (rule CONSOLE_good [OF assms(1)])
  let ?con = "\<lambda>h :: kernel. bnd (CONSOLE (framebuffers b)) (\<lambda>c. Inr (h\<lparr>world := (world h)\<lparr>con := c\<rparr>\<rparr>))"
  let ?h = "h\<lparr>world := (world h)\<lparr>loaded_idt := Some (idt_load i)\<rparr>\<rparr>"
  from memory_init_effect [OF es(2) _ assms(2), of "?h\<lparr>world := (world ?h)\<lparr>con := c\<rparr>\<rparr>" ?con ?h] c
  obtain c' u where u: "largest_usable es u"
    and m: "memory_init (font l) ?con (Some es) ?h = Inr (?h\<lparr>world := (world ?h)\<lparr>con := c', memory := configured u (memory (world h))\<rparr>\<rparr>)"
    by auto
  define h' where "h' = ?h\<lparr>world := (world ?h)\<lparr>con := c', memory := configured u (memory (world h))\<rparr>\<rparr>"
  have h': "test_init l b h = Inr h'" "memory (world h') = configured u (memory (world h))"
    using m by (simp_all add: test_init_def i es(1) h'_def)
  obtain ps st' where ps: "passes_of (lib_tests traffic) (memory (world h')) = (ps, st')" by (rule prod.exhaust)
  have "ps = replicate 17 True" using lib_tests_pass [of k "memory (world h')" traffic] assms(3,4) u h'(2) es(1) ps by simp
  moreover have len: "length (lib_tests traffic) = 17" by (simp add: lib_tests_def fs_tests_def memory_tests_def allocator_tests_def)
  moreover have "lib_tests traffic \<noteq> []" using len by auto
  ultimately show ?thesis using test_runner_result [OF _ ps, of show_panic tr] h'(1) lib_tests_sorted by (simp add: test_kmain_rs_def)
qed

lemma boot_room_for_tests: "k \<le> 400 \<Longrightarrow> room_for_tests k (boot_machine, boot_inner)"
proof -
  have "absent_count boot_machine (root boot_machine) = 512"
    by (simp add: absent_count_def boot_machine_def present_def contains_def flags_def PRESENT_def)
  then show "k \<le> 400 \<Longrightarrow> room_for_tests k (boot_machine, boot_inner)"
    using boot_vm_ok boot_free_run [of "k + 16"] by (simp add: room_for_tests_def boot_free)
qed

text \<open>The blocks of a file system with a folder, a file and its data: all are given back but the first.\<close>

definition example_traffic :: "string \<Rightarrow> heap_op list" where
  "example_traffic name = (if name = ''os_test::fs::ramfs::test::basic_ramfs''
    then [Take \<lparr>layout_size = 96, layout_align = 8\<rparr>, Take \<lparr>layout_size = 64, layout_align = 8\<rparr>, Take \<lparr>layout_size = 13, layout_align = 1\<rparr>,
      Give 1, Give 0] else [])"

lemma example_fs_traffic: "fs_traffic example_traffic 3"
  by (simp add: fs_traffic_def fs_tests_def example_traffic_def)

theorem test_build_passes_witness:
  "success_tests_num (test_kmain_rs \<lparr>font = replicate 4096 0x3C, link = (\<lambda>_. 0x1000), kcs = 0x28, init_addr = 0x4000\<rparr>
    example_boot example_traffic (\<lambda>_. ''panicked'') [] example_start) = 17"
  using test_build_passes [of example_boot "\<lparr>font = replicate 4096 0x3C, link = (\<lambda>_. 0x1000), kcs = 0x28, init_addr = 0x4000\<rparr>" example_traffic 3
      example_start "\<lambda>_. ''panicked''" "[]"] example_boot_ok example_fs_traffic example_configured boot_room_for_tests [of 3]
  by (simp add: Let_def)

end
