(* ===== verification/Hexdump.thy ===== *)
theory Hexdump
  imports Format
begin

text \<open>
  The hex dump (\<open>src/hexdump.rs\<close>). The writer is any sink that may refuse a write: a function from a piece
  of text and the sink's state to the new state, or \<open>None\<close> for an error. A \<open>Vec\<close>-like sink that
  appends to a string is the instance the round trip is stated for.

  Lemmas: a writer that accepts everything receives exactly the dump of the first lines asked for; the
  dump determines the bytes.
\<close>

type_synonym 'w writer = "string \<Rightarrow> 'w \<Rightarrow> 'w option"

section \<open>Formatting a line\<close>

definition is_ascii_graphic :: "u8 \<Rightarrow> bool" where
  "is_ascii_graphic b \<longleftrightarrow> 33 \<le> b \<and> b \<le> 126"

fun write_each :: "('a \<Rightarrow> string) \<Rightarrow> 'w writer \<Rightarrow> 'a list \<Rightarrow> 'w \<Rightarrow> 'w option" where
  "write_each f wr [] w = Some w"
| "write_each f wr (x # xs) w = Option.bind (wr (f x) w) (write_each f wr xs)"

definition hex_byte :: "u8 \<Rightarrow> string" where
  "hex_byte b = pad0 2 (show_upper_hex (unat b)) @ '' ''"

definition text_byte :: "u8 \<Rightarrow> string" where
  "text_byte b = (if is_ascii_graphic b then [char_of (unat b)] else ''.'')"

definition hex :: "'w writer \<Rightarrow> nat \<Rightarrow> u8 list \<Rightarrow> 'w \<Rightarrow> 'w option" where
  "hex wr line parts w =
    Option.bind (if line > 0 then wr ''\<newline>'' w else Some w) (\<lambda>w.
    Option.bind (wr (pad0 4 (show_dec (line * 16)) @ '': '') w) (\<lambda>w.
    Option.bind (write_each hex_byte wr parts w) (\<lambda>w.
    Option.bind (write_each (\<lambda>_. ''   '') wr [length parts..<16] w) (\<lambda>w.
    Option.bind (wr '' '' w) (\<lambda>w.
    write_each text_byte wr parts w)))))"

section \<open>The dump\<close>

function chunks16 :: "'a list \<Rightarrow> 'a list list" where
  "chunks16 xs = (if xs = [] then [] else take 16 xs # chunks16 (drop 16 xs))"
  by auto
termination
  by (relation "measure length") auto

declare chunks16.simps [simp del]

fun dump_lines :: "'w writer \<Rightarrow> nat option \<Rightarrow> (nat \<times> u8 list) list \<Rightarrow> 'w \<Rightarrow> 'w option" where
  "dump_lines wr lim [] w = Some w"
| "dump_lines wr lim ((line, parts) # rest) w =
    (case lim of
       Some m \<Rightarrow> if line < m then Option.bind (hex wr line parts w) (dump_lines wr lim rest) else Some w
     | None \<Rightarrow> Option.bind (hex wr line parts w) (dump_lines wr lim rest))"

definition hexdumpm :: "'w writer \<Rightarrow> u8 list \<Rightarrow> nat option \<Rightarrow> 'w \<Rightarrow> 'w option" where
  "hexdumpm wr buffer max_lines_opt w = dump_lines wr max_lines_opt (List.enumerate 0 (chunks16 buffer)) w"

section \<open>The text of a dump\<close>

definition append_writer :: "string writer" where
  "append_writer s w = Some (w @ s)"

definition line_text :: "nat \<Rightarrow> u8 list \<Rightarrow> string" where
  "line_text line parts = pad0 4 (show_dec (line * 16)) @ '': '' @ concat (map hex_byte parts) @
    concat (map (\<lambda>_. ''   '') [length parts..<16]) @ '' '' @ concat (map text_byte parts)"

definition dump_text :: "(nat \<times> u8 list) list \<Rightarrow> string" where
  "dump_text ls = concat (map (\<lambda>(line, parts). (if line > 0 then ''\<newline>'' else []) @ line_text line parts) ls)"

lemma write_each_append: "write_each f append_writer xs w = Some (w @ concat (map f xs))"
  by (induction xs arbitrary: w) (simp_all add: append_writer_def)

lemma hex_append: "hex append_writer line parts w = Some (w @ dump_text [(line, parts)])"
  by (simp add: hex_def write_each_append line_text_def dump_text_def append_writer_def)

lemma dump_lines_append:
  "dump_lines append_writer lim ls w = Some (w @ dump_text
    (case lim of None \<Rightarrow> ls | Some m \<Rightarrow> takeWhile (\<lambda>l. fst l < m) ls))"
  by (induction "append_writer :: string writer" lim ls w rule: dump_lines.induct)
    (auto simp: hex_append dump_text_def split: option.splits)

lemma takeWhile_enumerate:
  "takeWhile (\<lambda>l. fst l < m) (List.enumerate n xs) = List.enumerate n (take (m - n) xs)"
proof (induction xs arbitrary: n)
  case (Cons x xs)
  show ?case
  proof (cases "n < m")
    case True
    then have "m - n = Suc (m - Suc n)" by simp
    then show ?thesis using True Cons by simp
  qed simp
qed simp

lemma hexdumpm_text:
  "hexdumpm append_writer buf lim w = Some (w @ dump_text (List.enumerate 0
    (case lim of None \<Rightarrow> chunks16 buf | Some m \<Rightarrow> take m (chunks16 buf))))"
  by (simp add: hexdumpm_def dump_lines_append takeWhile_enumerate split: option.splits)

lemma concat_take_chunks: "concat (take m (chunks16 xs)) = take (16 * m) xs"
proof (induction m arbitrary: xs)
  case (Suc m)
  show ?case
  proof (cases "xs = []")
    case False
    then have "chunks16 xs = take 16 xs # chunks16 (drop 16 xs)" by (subst chunks16.simps) simp
    then show ?thesis using Suc [of "drop 16 xs"] by (simp add: take_add [symmetric] add.commute)
  qed (simp add: chunks16.simps)
qed simp

lemma concat_chunks: "concat (chunks16 xs) = xs"
  by (induction xs rule: chunks16.induct) (subst chunks16.simps, simp)

lemma chunk_length: "c \<in> set (chunks16 xs) \<Longrightarrow> length c \<le> 16"
  by (induction xs rule: chunks16.induct) (subst (asm) (2) chunks16.simps, auto split: if_splits)

section \<open>Reading a dump back\<close>

fun unhex :: "string \<Rightarrow> u8 list" where
  "unhex (a # b # c # rest) =
    (case (char_digit a, char_digit b) of
       (Some x, Some y) \<Rightarrow> of_nat (16 * x + y) # unhex rest
     | _ \<Rightarrow> [])"
| "unhex _ = []"

definition decode_line :: "string \<Rightarrow> u8 list" where
  "decode_line l = unhex (tl (dropWhile (\<lambda>c. c \<noteq> CHR '' '') l))"

lemma hex_byte_digits:
  "hex_byte b = [upper_digit_char (unat b div 16), upper_digit_char (unat b mod 16), CHR '' '']"
proof -
  have "unat b < 256" using unsigned_less [of b, where ?'a = nat] by simp
  then have "unat b div 16 < 16" by simp
  then have "digits 16 (unat b div 16) = [unat b div 16]" by (subst digits.simps) simp
  then have "digits 16 (unat b) = (if unat b < 16 then [unat b] else [unat b div 16, unat b mod 16])"
    by (subst digits.simps) simp
  then show ?thesis by (simp add: hex_byte_def pad0_def show_upper_hex_def upper_digit_char_def)
qed

lemma char_digit_upper:
  assumes "d < 16"
  shows "char_digit (upper_digit_char d) = Some d"
proof -
  have "\<forall>d \<in> set [0..<16]. char_digit (upper_digit_char d) = Some d" by code_simp
  then show ?thesis using assms by simp
qed

lemma unhex_bytes: "unhex (concat (map hex_byte bs) @ CHR '' '' # rest) = bs"
proof (induction bs)
  case Nil
  have "char_digit (CHR '' '') = None" by (simp add: char_digit_def)
  then show ?case by (cases rest; cases "tl rest") simp_all
next
  case (Cons b bs)
  have "unat b < 256" using unsigned_less [of b, where ?'a = nat] by simp
  then have "char_digit (upper_digit_char (unat b div 16)) = Some (unat b div 16)"
    "char_digit (upper_digit_char (unat b mod 16)) = Some (unat b mod 16)" by (simp_all add: char_digit_upper)
  then show ?case using Cons by (simp add: hex_byte_digits)
qed

lemma digit_char_not_space:
  assumes "d < 16"
  shows "digit_char d \<noteq> CHR '' '' \<and> digit_char d \<noteq> CHR ''\<newline>''"
proof -
  have "\<forall>d \<in> set [0..<16]. digit_char d \<noteq> CHR '' '' \<and> digit_char d \<noteq> CHR ''\<newline>''" by code_simp
  then show ?thesis using assms by simp
qed

lemma line_offset_chars:
  assumes "c \<in> set (pad0 4 (show_dec n))"
  shows "c \<noteq> CHR '' '' \<and> c \<noteq> CHR ''\<newline>''"
proof -
  have "c = CHR ''0'' \<or> c \<in> digit_char ` set (digits 10 n)"
    using assms by (auto simp: pad0_def show_radix_def)
  then show ?thesis using digits_less [of 10 _ n] digit_char_not_space by force
qed

lemma decode_line_text: "length parts \<le> 16 \<Longrightarrow> decode_line (line_text line parts) = parts"
proof -
  let ?rest = "concat (map hex_byte parts) @ concat (map (\<lambda>_. ''   '') [length parts..<16]) @ '' '' @ concat (map text_byte parts)"
  have "dropWhile (\<lambda>c. c \<noteq> CHR '' '') (line_text line parts) = CHR '' '' # ?rest"
    using line_offset_chars by (simp add: line_text_def dropWhile_append2)
  moreover have "\<exists>r. concat (map (\<lambda>_. ''   '') [length parts..<16]) @ '' '' @ concat (map text_byte parts) = CHR '' '' # r"
    by (cases "[length parts..<16]") simp_all
  ultimately show ?thesis using unhex_bytes by (auto simp: decode_line_def)
qed

lemma no_newline_in_line: "\<forall>c \<in> set (line_text line parts). c \<noteq> CHR ''\<newline>''"
proof -
  have "c \<noteq> CHR ''\<newline>''" if "c \<in> set (hex_byte b)" for b c
  proof -
    have "unat b < 256" using unsigned_less [of b, where ?'a = nat] by simp
    moreover have "\<forall>d \<in> set [0..<16]. upper_digit_char d \<noteq> CHR ''\<newline>''" by code_simp
    ultimately show ?thesis using that by (auto simp: hex_byte_digits)
  qed
  moreover have "c \<noteq> CHR ''\<newline>''" if "c \<in> set (text_byte b)" for b c
  proof
    assume "c = CHR ''\<newline>''"
    then have g: "is_ascii_graphic b" and c: "char_of (unat b) = CHR ''\<newline>''"
      using that by (auto simp: text_byte_def split: if_splits)
    from c have "(of_char (char_of (unat b) :: char) :: nat) = of_char (CHR ''\<newline>'')" by (rule arg_cong)
    then have "unat b mod 256 = 10" by simp
    then show False using g by (simp add: is_ascii_graphic_def word_le_nat_alt)
  qed
  ultimately show ?thesis by (auto simp: line_text_def dest: line_offset_chars)
qed

lemma split_dump_text:
  "split_on (\<lambda>c. c = CHR ''\<newline>'') (dump_text (List.enumerate 0 (p # ps))) =
    map (\<lambda>(line, parts). line_text line parts) (List.enumerate 0 (p # ps))"
proof -
  have "split_on (\<lambda>c. c = CHR ''\<newline>'') (line_text n q @ dump_text (List.enumerate (Suc n) qs)) =
      line_text n q # map (\<lambda>(line, parts). line_text line parts) (List.enumerate (Suc n) qs)" for n q qs
  proof (induction qs arbitrary: n q)
    case Nil
    then show ?case using no_newline_in_line by (simp add: dump_text_def split_on_free)
  next
    case (Cons a qs)
    have "dump_text (List.enumerate (Suc n) (a # qs)) =
        CHR ''\<newline>'' # line_text (Suc n) a @ dump_text (List.enumerate (Suc (Suc n)) qs)"
      by (simp add: dump_text_def)
    then show ?case using Cons no_newline_in_line by (simp add: split_on_piece)
  qed
  from this [of 0 p ps] show ?thesis by (simp add: dump_text_def)
qed

text \<open>
  C33. A hex dump can be read back: the lines of what the dump writes, without the newlines between them,
  decode to the bytes of the buffer, or to its first \<open>16 * m\<close> bytes when at most \<open>m\<close> lines are asked for. A
  writer that accepts every write makes the dump succeed.
\<close>

theorem hexdump_roundtrip:
  "\<exists>s. hexdumpm append_writer buf lim [] = Some s \<and>
    concat (map decode_line (split_on (\<lambda>c. c = CHR ''\<newline>'') s)) =
      (case lim of None \<Rightarrow> buf | Some m \<Rightarrow> take (16 * m) buf)"
proof -
  define cs where "cs = (case lim of None \<Rightarrow> chunks16 buf | Some m \<Rightarrow> take m (chunks16 buf))"
  have concat: "concat cs = (case lim of None \<Rightarrow> buf | Some m \<Rightarrow> take (16 * m) buf)"
    by (simp add: cs_def concat_chunks concat_take_chunks split: option.split)
  have len: "\<forall>c \<in> set cs. length c \<le> 16"
    using chunk_length by (auto simp: cs_def dest: in_set_takeD split: option.splits)
  have "concat (map decode_line (split_on (\<lambda>c. c = CHR ''\<newline>'') (dump_text (List.enumerate 0 cs)))) = concat cs"
  proof (cases cs)
    case Nil
    then show ?thesis by (simp add: dump_text_def decode_line_def)
  next
    case (Cons p ps)
    have "map decode_line (map (\<lambda>(line, parts). line_text line parts) (List.enumerate n qs)) = qs"
      if "\<forall>c \<in> set qs. length c \<le> 16" for n qs
      using that by (induction qs arbitrary: n) (simp_all add: decode_line_text)
    then show ?thesis using len unfolding Cons split_dump_text by (simp add: decode_line_text)
  qed
  then show ?thesis using hexdumpm_text [of buf lim "[]"] concat unfolding cs_def [symmetric] by simp
qed

end
