(* ===== verification/Stack_Trace.thy ===== *)
theory Stack_Trace
  imports Format
begin

text \<open>
  Stack traces and symbol lookup (\<open>src/stack_trace.rs\<close>). Parameters: the memory, by quadword, that holds the
  chain of stack frames; the modules the boot loader loaded (path and contents; \<open>None\<close> when it
  did not answer); the start of the kernel. A \<open>&str\<close> is its bytes.

  Lemmas: in a symbol file sorted by address, the lookup for a return address finds the symbol with the greatest address below it.
\<close>

section \<open>Walking the frames\<close>

record stack_trace =
  rbp :: "u64 option"

definition stack_trace_new :: "u64 \<Rightarrow> stack_trace" where
  "stack_trace_new rbp_reg = \<lparr>rbp = Some rbp_reg\<rparr>"

definition trace_next :: "(u64 \<Rightarrow> u64) \<Rightarrow> stack_trace \<Rightarrow> u64 option \<times> stack_trace" where
  "trace_next mem st =
    (case rbp st of
       None \<Rightarrow> (None, st)
     | Some as_ptr \<Rightarrow>
         let ret = mem (as_ptr + 8);
             st = st\<lparr>rbp := Some (mem as_ptr)\<rparr>;
             st = (if rbp st = Some 0 then st\<lparr>rbp := None\<rparr> else st)
         in (Some ret, st))"

section \<open>Symbols\<close>

definition is_ascii_whitespace :: "u8 \<Rightarrow> bool" where
  "is_ascii_whitespace b \<longleftrightarrow> b \<in> {32, 9, 10, 12, 13}"

fun splitn :: "nat \<Rightarrow> ('a \<Rightarrow> bool) \<Rightarrow> 'a list \<Rightarrow> 'a list list" where
  "splitn 0 p xs = []"
| "splitn (Suc 0) p xs = [xs]"
| "splitn (Suc (Suc n)) p xs =
    (case dropWhile (\<lambda>x. \<not> p x) xs of
       [] \<Rightarrow> [xs]
     | _ # rest \<Rightarrow> takeWhile (\<lambda>x. \<not> p x) xs # splitn (Suc n) p rest)"

definition cont_byte :: "u8 \<Rightarrow> bool" where
  "cont_byte b \<longleftrightarrow> 0x80 \<le> b \<and> b \<le> 0xBF"

text \<open>Well-formed UTF-8: no overlong forms, no surrogates, nothing above U+10FFFF.\<close>

fun utf8_valid :: "u8 list \<Rightarrow> bool" where
  "utf8_valid [] = True"
| "utf8_valid (a # bs) =
    (if a < 0x80 then utf8_valid bs
     else if 0xC2 \<le> a \<and> a \<le> 0xDF then
       (case bs of b # cs \<Rightarrow> cont_byte b \<and> utf8_valid cs | _ \<Rightarrow> False)
     else if 0xE0 \<le> a \<and> a \<le> 0xEF then
       (case bs of
          b # c # cs \<Rightarrow> (if a = 0xE0 then 0xA0 \<le> b \<and> b \<le> 0xBF else if a = 0xED then 0x80 \<le> b \<and> b \<le> 0x9F
            else cont_byte b) \<and> cont_byte c \<and> utf8_valid cs
        | _ \<Rightarrow> False)
     else if 0xF0 \<le> a \<and> a \<le> 0xF4 then
       (case bs of
          b # c # d # cs \<Rightarrow> (if a = 0xF0 then 0x90 \<le> b \<and> b \<le> 0xBF else if a = 0xF4 then 0x80 \<le> b \<and> b \<le> 0x8F
            else cont_byte b) \<and> cont_byte c \<and> cont_byte d \<and> utf8_valid cs
        | _ \<Rightarrow> False)
     else False)"

definition from_utf8 :: "u8 list \<Rightarrow> u8 list option" where
  "from_utf8 bs = (if utf8_valid bs then Some bs else None)"

definition chars_of :: "u8 list \<Rightarrow> string" where
  "chars_of bs = map (\<lambda>b. char_of (unat b)) bs"

definition parse_addr :: "u8 list \<Rightarrow> u64 run" where
  "parse_addr sym_addr =
    bnd (unwrap (from_utf8 sym_addr)) (\<lambda>s. unwrap (from_str_radix (chars_of s) 16))"

fun lookup_lines :: "u8 list list \<Rightarrow> u64 \<Rightarrow> u8 list option run" where
  "lookup_lines [] a = Inr None"
| "lookup_lines (line # lines) a =
    (if line = [] then lookup_lines lines a
     else
       let split = splitn 3 is_ascii_whitespace line;
           name = (if 2 < length split then Some (split ! 2) else None) in
       bnd (parse_addr (hd split)) (\<lambda>addr_as_num.
       if addr_as_num > a then Inr None
       else
         case name of
           Some n \<Rightarrow>
             if addr_as_num = a then bnd (unwrap (from_utf8 n)) (\<lambda>s. Inr (Some s))
             else lookup_lines lines a
         | None \<Rightarrow> lookup_lines lines a))"

text \<open>A module: its path and its contents.\<close>

type_synonym loaded_module = "u8 list \<times> u8 list"

definition ends_with :: "u8 list \<Rightarrow> u8 list \<Rightarrow> bool" where
  "ends_with xs ys \<longleftrightarrow> length ys \<le> length xs \<and> drop (length xs - length ys) xs = ys"

definition lookup_symbol :: "u8 list \<Rightarrow> loaded_module list option \<Rightarrow> u64 \<Rightarrow> u8 list option run" where
  "lookup_symbol sym_path response a =
    bnd (unwrap response) (\<lambda>modules.
    bnd (unwrap (find (\<lambda>m. ends_with (fst m) sym_path) modules)) (\<lambda>symbols_module.
    lookup_lines (split_on (\<lambda>b. b = 10) (snd symbols_module)) a))"

text \<open>The addresses from \<open>begin + n - 1\<close> down to \<open>begin\<close>.\<close>

fun lookup_down :: "(u64 \<Rightarrow> u8 list option run) \<Rightarrow> u64 \<Rightarrow> nat \<Rightarrow> u8 list option run" where
  "lookup_down lookup start 0 = Inr None"
| "lookup_down lookup start (Suc n) =
    bnd (lookup (start + of_nat n)) (\<lambda>r.
    case r of Some found \<Rightarrow> Inr (Some found) | None \<Rightarrow> lookup_down lookup start n)"

definition lookup_symbol_from_return_addr ::
  "u8 list \<Rightarrow> loaded_module list option \<Rightarrow> u64 option \<Rightarrow> u64 \<Rightarrow> u8 list option run" where
  "lookup_symbol_from_return_addr sym_path response virt_base ret_addr =
    bnd (unwrap virt_base) (\<lambda>start.
    lookup_down (lookup_symbol sym_path response) start (unat ret_addr - unat start))"

definition lookup_current_function :: "u8 list \<Rightarrow> loaded_module list option \<Rightarrow> u64 option \<Rightarrow> u64 \<Rightarrow> u8 list option run" where
  "lookup_current_function sym_path response virt_base rip_reg =
    lookup_symbol_from_return_addr sym_path response virt_base rip_reg"

section \<open>Lookup in a sorted symbol file\<close>

definition bytes_of :: "string \<Rightarrow> u8 list" where
  "bytes_of s = map (\<lambda>c. of_nat (of_char c)) s"

text \<open>A symbol: address, type letter and name; its line is that of the tool \<open>nm\<close>.\<close>

type_synonym symbol = "u64 \<times> u8 \<times> u8 list"

definition symbol_line :: "symbol \<Rightarrow> u8 list" where
  "symbol_line s = (case s of (a, ty, name) \<Rightarrow>
    bytes_of (pad0 16 (show_radix 16 (unat a))) @ 32 # ty # 32 # name)"

definition symbol_ok :: "symbol \<Rightarrow> bool" where
  "symbol_ok s \<longleftrightarrow> (case s of (a, ty, name) \<Rightarrow>
    \<not> is_ascii_whitespace ty \<and> utf8_valid name \<and> 10 \<notin> set name)"

definition symbol_file :: "symbol list \<Rightarrow> u8 list" where
  "symbol_file syms = concat (map (\<lambda>s. symbol_line s @ [10]) syms)"

definition symbol_at :: "symbol list \<Rightarrow> u64 \<Rightarrow> u8 list option" where
  "symbol_at syms a = map_option (\<lambda>s. snd (snd s)) (find (\<lambda>s. fst s = a) syms)"

lemma chars_of_bytes_of: "chars_of (bytes_of s) = s"
proof -
  have "char_of (unat (of_nat (of_char c) :: u8)) = c" for c
  proof -
    have "(of_char c :: nat) < 256" by simp
    then have "unat (of_nat (of_char c) :: u8) = of_char c" by (intro unat_of_nat_less) simp
    then show ?thesis by simp
  qed
  then show ?thesis by (simp add: chars_of_def bytes_of_def comp_def map_idI)
qed

lemma digit_char_byte:
  assumes "d < 16"
  shows "of_nat (of_char (digit_char d)) < (0x80 :: u8) \<and> \<not> is_ascii_whitespace (of_nat (of_char (digit_char d)))"
proof -
  have "\<forall>d \<in> set [0..<16]. of_char (digit_char d) < (128 :: nat) \<and> (of_char (digit_char d) :: nat) \<notin> {32, 9, 10, 12, 13}"
    by code_simp
  then have d: "of_char (digit_char d) < (128 :: nat)" "(of_char (digit_char d) :: nat) \<notin> {32, 9, 10, 12, 13}"
    using assms by auto
  then have u: "unat (of_nat (of_char (digit_char d)) :: u8) = of_char (digit_char d)"
    by (intro unat_of_nat_less) simp
  then show ?thesis using d by (auto simp: word_less_nat_alt is_ascii_whitespace_def word_unat_eq_iff)
qed

lemma addr_bytes:
  assumes "b \<in> set (bytes_of (pad0 16 (show_radix 16 (unat a))))"
  shows "b < 0x80" and "\<not> is_ascii_whitespace b"
proof -
  have "b \<in> (\<lambda>d. of_nat (of_char (digit_char d))) ` ({0} \<union> set (digits 16 (unat a)))"
    using assms by (auto simp: bytes_of_def pad0_def show_radix_def digit_char_def)
  then obtain d where "b = of_nat (of_char (digit_char d))" "d = 0 \<or> d \<in> set (digits 16 (unat a))" by auto
  moreover from this(2) have "d < 16" using digits_less [of 16 d] by auto
  ultimately show "b < 0x80" "\<not> is_ascii_whitespace b" using digit_char_byte [of d] by auto
qed

lemma utf8_ascii: "\<forall>b \<in> set bs. b < 0x80 \<Longrightarrow> utf8_valid bs"
  by (induction bs) auto

lemma parse_digits_zeros: "parse_digits 16 0 (replicate n (CHR ''0'') @ s) = parse_digits 16 0 s"
  by (induction n) (simp_all add: char_digit_def)

lemma parse_addr_symbol: "parse_addr (bytes_of (pad0 16 (show_radix 16 (unat a)))) = Inr a"
proof -
  let ?s = "pad0 16 (show_radix 16 (unat a))"
  have "utf8_valid (bytes_of ?s)" by (intro utf8_ascii ballI addr_bytes(1))
  then have "from_utf8 (bytes_of ?s) = Some (bytes_of ?s)" by (simp add: from_utf8_def)
  moreover have "from_str_radix ?s 16 = Some a"
  proof -
    have "parse_digits 16 0 ?s = Some (unat a)"
      using parse_show [of 16 "unat a"] by (simp add: pad0_def parse_digits_zeros show_radix_def)
    moreover have "?s \<noteq> []" by (simp add: pad0_def show_radix_def)
    moreover have "hd ?s \<noteq> CHR ''+''"
      using hd_in_set [OF \<open>?s \<noteq> []\<close>] digits_less [of 16 _ "unat a"] digit_char_not_plus
      by (auto simp: pad0_def show_radix_def)
    ultimately show ?thesis by (cases ?s) (auto simp: from_str_radix_def)
  qed
  ultimately show ?thesis by (simp add: parse_addr_def chars_of_bytes_of)
qed

lemma splitn_symbol_line:
  assumes "symbol_ok (a, ty, name)"
  shows "splitn 3 is_ascii_whitespace (symbol_line (a, ty, name)) =
    [bytes_of (pad0 16 (show_radix 16 (unat a))), [ty], name]"
proof -
  have ws: "is_ascii_whitespace 32" by (simp add: is_ascii_whitespace_def)
  let ?ad = "bytes_of (pad0 16 (show_radix 16 (unat a)))"
  have "dropWhile (\<lambda>x. \<not> is_ascii_whitespace x) (?ad @ 32 # ty # 32 # name) = 32 # ty # 32 # name"
    "takeWhile (\<lambda>x. \<not> is_ascii_whitespace x) (?ad @ 32 # ty # 32 # name) = ?ad"
    using ws by (simp_all add: dropWhile_append2 takeWhile_append2 addr_bytes(2))
  then show ?thesis using assms ws by (simp add: symbol_line_def symbol_ok_def eval_nat_numeral)
qed

lemma symbol_line_no_newline:
  assumes "symbol_ok s"
  shows "\<forall>b \<in> set (symbol_line s). b \<noteq> 10"
proof -
  have "is_ascii_whitespace 10" by (simp add: is_ascii_whitespace_def)
  then show ?thesis using assms addr_bytes(2) by (fastforce simp: symbol_line_def symbol_ok_def split: prod.splits)
qed

lemma split_symbol_file:
  "\<forall>s \<in> set syms. symbol_ok s \<Longrightarrow> split_on (\<lambda>b. b = 10) (symbol_file syms) = map symbol_line syms @ [[]]"
proof (induction syms)
  case (Cons s syms)
  then show ?case using split_on_piece [OF symbol_line_no_newline [of s], of 10] by (simp add: symbol_file_def)
qed (simp add: symbol_file_def)

lemma lookup_lines_symbols:
  assumes "\<forall>s \<in> set syms. symbol_ok s" and "sorted (map fst syms)"
  shows "lookup_lines (map symbol_line syms @ [[]]) a = Inr (symbol_at syms a)"
  using assms
proof (induction syms)
  case (Cons s syms)
  obtain x ty name where s: "s = (x, ty, name)" by (cases s)
  have ok: "symbol_ok (x, ty, name)" using Cons.prems(1) s by simp
  have "symbol_line s \<noteq> []" by (simp add: s symbol_line_def)
  moreover have "from_utf8 name = Some name" using ok by (simp add: symbol_ok_def from_utf8_def)
  moreover have "symbol_at (s # syms) a = None" if "a < x"
    using Cons.prems(2) that by (auto simp: s symbol_at_def find_None_iff)
  ultimately show ?case
    using Cons splitn_symbol_line [OF ok] parse_addr_symbol [of x]
    by (simp add: s symbol_at_def Let_def)
qed (simp add: symbol_at_def)

lemma lookup_down_none:
  assumes "\<And>a. lookup a = Inr (f a)" and "\<And>k. k < n \<Longrightarrow> f (start + of_nat k) = None"
  shows "lookup_down lookup start n = Inr None"
  using assms(2) by (induction n) (simp_all add: assms(1))

lemma lookup_down_some:
  assumes "\<And>a. lookup a = Inr (f a)" and "k < n" and "f (start + of_nat k) = Some nm"
    and "\<And>j. k < j \<Longrightarrow> j < n \<Longrightarrow> f (start + of_nat j) = None"
  shows "lookup_down lookup start n = Inr (Some nm)"
  using assms(2,4)
proof (induction n)
  case (Suc n)
  show ?case
  proof (cases "k = n")
    case True
    then show ?thesis using assms(1,3) by simp
  next
    case False
    then show ?thesis using Suc assms(1) by simp
  qed
qed simp

lemma lookup_symbol_file:
  assumes "find (\<lambda>m. ends_with (fst m) sym_path) modules = Some (path, symbol_file syms)"
    and "\<forall>s \<in> set syms. symbol_ok s" and "sorted (map fst syms)"
  shows "lookup_symbol sym_path (Some modules) a = Inr (symbol_at syms a)"
  using assms by (simp add: lookup_symbol_def split_symbol_file lookup_lines_symbols)

lemma lookup_from_return_addr_cases:
  assumes "\<And>a. lookup_symbol sym_path response a = Inr (f a)"
  shows lookup_from_return_addr_some: "start \<le> a \<Longrightarrow> a < ret \<Longrightarrow> f a = Some nm \<Longrightarrow>
      (\<And>b. a < b \<Longrightarrow> b < ret \<Longrightarrow> f b = None) \<Longrightarrow>
      lookup_symbol_from_return_addr sym_path response (Some start) ret = Inr (Some nm)"
    and lookup_from_return_addr_none: "(\<And>b. start \<le> b \<Longrightarrow> b < ret \<Longrightarrow> f b = None) \<Longrightarrow>
      lookup_symbol_from_return_addr sym_path response (Some start) ret = Inr None"
proof -
  define n where "n = unat ret - unat start"
  have eq: "lookup_symbol_from_return_addr sym_path response (Some start) ret =
      lookup_down (lookup_symbol sym_path response) start n"
    by (simp add: lookup_symbol_from_return_addr_def n_def)
  have off: "unat (start + of_nat k) = unat start + k" if "k < n" for k
  proof -
    have "unat ret < 2 ^ 64" by simp
    then have "unat start + k < 2 ^ 64" using that unfolding n_def by linarith
    then show ?thesis by (simp add: unat_word_ariths unat_of_nat)
  qed
  have range: "start \<le> start + of_nat k" "start + of_nat k < ret" if "k < n" for k
    using off [OF that] that by (simp_all add: word_le_nat_alt word_less_nat_alt n_def)
  show "lookup_symbol_from_return_addr sym_path response (Some start) ret = Inr None"
    if "\<And>b. start \<le> b \<Longrightarrow> b < ret \<Longrightarrow> f b = None"
    unfolding eq using that range by (intro lookup_down_none [OF assms]) blast
  show "lookup_symbol_from_return_addr sym_path response (Some start) ret = Inr (Some nm)"
    if a: "start \<le> a" "a < ret" "f a = Some nm" and none: "\<And>b. a < b \<Longrightarrow> b < ret \<Longrightarrow> f b = None"
    unfolding eq
  proof (rule lookup_down_some [OF assms])
    define k where "k = unat a - unat start"
    have k: "start + of_nat k = a" "k < n"
      using a(1,2) by (simp_all add: k_def n_def word_le_nat_alt word_less_nat_alt of_nat_diff)
    show "k < n" by (fact k)
    show "f (start + of_nat k) = Some nm" using a(3) k by simp
    show "f (start + of_nat j) = None" if "k < j" "j < n" for j
      using none [of "start + of_nat j"] off [OF that(2)] off [OF k(2)] range [OF that(2)] that k
      by (simp add: word_less_nat_alt)
  qed
qed

text \<open>The symbol with the greatest address in a range, in a file sorted by address.\<close>

definition nearest_symbol :: "symbol list \<Rightarrow> u64 \<Rightarrow> u64 \<Rightarrow> u8 list option" where
  "nearest_symbol syms start ret =
    (let below = filter (\<lambda>s. start \<le> fst s \<and> fst s < ret) syms in
     if below = [] then None else symbol_at syms (fst (last below)))"

lemma symbol_at_None: "symbol_at syms a = None \<longleftrightarrow> a \<notin> fst ` set syms"
  by (force simp: symbol_at_def find_None_iff)

lemma lookup_nearest_symbol:
  assumes "find (\<lambda>m. ends_with (fst m) sym_path) modules = Some (path, symbol_file syms)"
    and "\<forall>s \<in> set syms. symbol_ok s" and "sorted (map fst syms)"
  shows "lookup_symbol_from_return_addr sym_path (Some modules) (Some start) ret = Inr (nearest_symbol syms start ret)"
proof (cases "filter (\<lambda>s. start \<le> fst s \<and> fst s < ret) syms = []")
  case True
  then show ?thesis
    using lookup_from_return_addr_none [OF lookup_symbol_file [OF assms], of start ret]
    by (auto simp: nearest_symbol_def symbol_at_None filter_empty_conv)
next
  case False
  define below where "below = filter (\<lambda>s. start \<le> fst s \<and> fst s < ret) syms"
  have ne: "below \<noteq> []" using False by (simp add: below_def)
  have "last below \<in> set below" using ne by simp
  then have l: "start \<le> fst (last below)" "fst (last below) < ret" "last below \<in> set syms"
    by (simp_all add: below_def)
  then obtain nm where nm: "symbol_at syms (fst (last below)) = Some nm"
    using symbol_at_None [of syms "fst (last below)"] by auto
  have "sorted (map fst below)" using assms(3) unfolding below_def by (rule sorted_filter)
  then have le: "fst s \<le> fst (last below)" if "s \<in> set below" for s
    using that ne by (induction below rule: rev_induct) (auto simp: sorted_append)
  have "symbol_at syms b = None" if "fst (last below) < b" "b < ret" for b
    using le l(1) that by (fastforce simp: symbol_at_None below_def)
  then show ?thesis
    using lookup_from_return_addr_some [OF lookup_symbol_file [OF assms] l(1,2) nm] ne nm
    by (simp add: nearest_symbol_def below_def)
qed

text \<open>
  C32. Symbol lookup: with a symbol file sorted by address, the lookup for a return address gives the name of the symbol with the
  greatest address between the start of the kernel and the return address, the first one in the file if several share that
  address, and nothing if there is no symbol in that range.
\<close>

theorem symbol_lookup_correct:
  assumes "find (\<lambda>m. ends_with (fst m) sym_path) modules = Some (path, symbol_file syms)"
    and "\<forall>s \<in> set syms. symbol_ok s" and "sorted (map fst syms)"
  shows "(\<forall>a nm. start \<le> a \<and> a < ret \<and> symbol_at syms a = Some nm \<and>
      (\<forall>b. a < b \<and> b < ret \<longrightarrow> symbol_at syms b = None) \<longrightarrow>
      lookup_symbol_from_return_addr sym_path (Some modules) (Some start) ret = Inr (Some nm)) \<and>
    ((\<forall>b. start \<le> b \<and> b < ret \<longrightarrow> symbol_at syms b = None) \<longrightarrow>
      lookup_symbol_from_return_addr sym_path (Some modules) (Some start) ret = Inr None)"
  using lookup_from_return_addr_cases [OF lookup_symbol_file [OF assms]] by blast

definition example_symbols :: "symbol list" where
  "example_symbols = [(0x1000, 116, [109, 97, 105, 110]), (0x2000, 116, [105, 110, 105, 116])]"

theorem symbol_lookup_correct_witness:
  "lookup_symbol_from_return_addr [115] (Some [([47, 115], symbol_file example_symbols)]) (Some 0x1000) 0x1010 =
    Inr (Some [109, 97, 105, 110])"
proof -
  have found: "find (\<lambda>m. ends_with (fst m) [115]) [([47, 115], symbol_file example_symbols)] = Some ([47, 115], symbol_file example_symbols)"
    by (simp add: ends_with_def)
  have ok: "\<forall>s \<in> set example_symbols. symbol_ok s" "sorted (map fst example_symbols)"
    by (simp_all add: example_symbols_def symbol_ok_def is_ascii_whitespace_def)
  have "symbol_at example_symbols 0x1000 = Some [109, 97, 105, 110]"
    "\<forall>b. 0x1000 < b \<and> b < 0x1010 \<longrightarrow> symbol_at example_symbols b = None"
    by (auto simp: example_symbols_def symbol_at_def)
  then have "0x1000 \<le> (0x1000 :: u64) \<and> (0x1000 :: u64) < 0x1010 \<and>
      symbol_at example_symbols 0x1000 = Some [109, 97, 105, 110] \<and>
      (\<forall>b. 0x1000 < b \<and> b < 0x1010 \<longrightarrow> symbol_at example_symbols b = None)" by simp
  then show ?thesis by (rule symbol_lookup_correct [OF found ok, THEN conjunct1, THEN spec, THEN spec, THEN mp])
qed

end
