(* ===== verification/Panic_Handler.thy ===== *)
theory Panic_Handler
  imports Stack_Trace Port_Io Cpu
begin

text \<open>
  The panic handler (\<open>src/panic.rs\<close>): it logs the message, clears the console to the panic colours, prints the
  message and the stack trace and halts. The message, the registers and the memory of the panicking processor
  and the symbol lookup are parameters. The forced release of the locks has no counterpart here, as
  sections under a lock are single steps; \<open>Console_Session\<close> has it for the lock of the console. The model ends where the handler enters its halt loop; \<open>None\<close>
  is a trace that never ends, and a panic inside the handler is a panic of the model.
\<close>

section \<open>Definitions\<close>

definition codepoints :: "string \<Rightarrow> nat list" where
  "codepoints s = map of_char s"

text \<open>The bytes of a name above 127 belong to characters that the console skips, as it skips the bytes.\<close>

definition name_codepoints :: "u8 list \<Rightarrow> nat list" where
  "name_codepoints n = map unat n"

definition trace_line :: "u8 list \<Rightarrow> u64 \<Rightarrow> nat list" where
  "trace_line func_name a = name_codepoints func_name @
    codepoints ('' <called at 0x'' @ show_radix 16 (unat a) @ ''>\<newline>'')"

definition unknown_func :: "u8 list" where
  "unknown_func = bytes_of ''unknown_func''"

text \<open>One round of the loop: the line of the trace, then the name of the caller.\<close>

definition trace_round ::
  "u8 list \<Rightarrow> (u64 \<Rightarrow> u8 list option run) \<Rightarrow> u64 \<Rightarrow> u8 list \<times> console \<Rightarrow> (u8 list \<times> console) run" where
  "trace_round font lookup a s =
    (case s of (func_name, c) \<Rightarrow>
     bnd (write_str font (trace_line func_name a) c) (\<lambda>c.
     bnd (lookup a) (\<lambda>r. Inr (case r of Some found \<Rightarrow> found | None \<Rightarrow> unknown_func, c))))"

partial_function (option) trace_loop ::
  "u8 list \<Rightarrow> (u64 \<Rightarrow> u8 list option run) \<Rightarrow> (u64 \<Rightarrow> u64) \<Rightarrow> stack_trace \<Rightarrow> u8 list \<times> console
    \<Rightarrow> (u8 list \<times> console) run option" where
  "trace_loop font lookup mem st s =
    (case trace_next mem st of
       (None, _) \<Rightarrow> Some (Inr s)
     | (Some a, st) \<Rightarrow>
         (case trace_round font lookup a s of
            Inl e \<Rightarrow> Some (Inl e)
          | Inr s \<Rightarrow> trace_loop font lookup mem st s))"

definition panic_screen :: "u8 list \<Rightarrow> string \<Rightarrow> console \<Rightarrow> console run" where
  "panic_screen font info c =
    bnd (console_clear (c\<lparr>bg_color := blue, fg_color := white\<rparr>)) (\<lambda>c.
    bnd (write_str font (codepoints (info @ ''\<newline>'')) c) (\<lambda>c.
    write_str font (codepoints ''\<newline>stack trace:\<newline>'') c))"

text \<open>What the processor and the boot loader hold when the handler starts.\<close>

record panic_env =
  rbp_reg :: u64
  rip_reg :: u64
  stack_mem :: "u64 \<Rightarrow> u64"
  modules :: "loaded_module list option"
  virt_base :: "u64 option"

definition panic_handler ::
  "u8 list \<Rightarrow> u8 list \<Rightarrow> panic_env \<Rightarrow> string \<Rightarrow> console \<times> port_trace \<Rightarrow> (console \<times> port_trace) run option" where
  "panic_handler font sym_path env info s =
    (case s of (c, tr) \<Rightarrow>
     let tr = qemu_write_str (codepoints (info @ ''\<newline>'')) tr;
         trace = stack_trace_new (rbp_reg env);
         lookup = lookup_symbol_from_return_addr sym_path (modules env) (virt_base env) in
     case bnd (panic_screen font info c) (\<lambda>c.
          bnd (lookup_current_function sym_path (modules env) (virt_base env) (rip_reg env)) (\<lambda>r.
          bnd (unwrap r) (\<lambda>func_name. Inr (func_name, c)))) of
       Inl e \<Rightarrow> Some (Inl e)
     | Inr s \<Rightarrow>
         map_option (\<lambda>r. bnd r (\<lambda>(func_name, c).
             bnd (write_str font (name_codepoints func_name @ codepoints ''\<newline>'') c) (\<lambda>c. Inr (c, tr))))
           (trace_loop font lookup (stack_mem env) trace s))"

section \<open>The report\<close>

text \<open>
  A chain of frames: each frame holds the address of its caller's frame and, above it, the return
  address; the outermost frame was entered with the frame pointer cleared.
\<close>

fun frame_chain :: "(u64 \<Rightarrow> u64) \<Rightarrow> u64 \<Rightarrow> u64 list \<Rightarrow> bool" where
  "frame_chain mem p [] = False"
| "frame_chain mem p [a] \<longleftrightarrow> mem (p + 8) = a \<and> mem p = 0"
| "frame_chain mem p (a # as) \<longleftrightarrow> mem (p + 8) = a \<and> mem p \<noteq> 0 \<and> frame_chain mem (mem p) as"

text \<open>The lines of the trace: each function with the address it was called from, then the outermost function.\<close>

definition name_of :: "(u64 \<Rightarrow> u8 list option) \<Rightarrow> u64 \<Rightarrow> u8 list" where
  "name_of f a = (case f a of Some n \<Rightarrow> n | None \<Rightarrow> unknown_func)"

fun trace_text :: "(u64 \<Rightarrow> u8 list option) \<Rightarrow> u8 list \<Rightarrow> u64 list \<Rightarrow> nat list" where
  "trace_text f func_name [] = name_codepoints func_name @ codepoints ''\<newline>''"
| "trace_text f func_name (a # as) = trace_line func_name a @ trace_text f (name_of f a) as"

definition report :: "string \<Rightarrow> (u64 \<Rightarrow> u8 list option) \<Rightarrow> u8 list \<Rightarrow> u64 list \<Rightarrow> nat list" where
  "report info f func_name ras = codepoints (info @ ''\<newline>\<newline>stack trace:\<newline>'') @ trace_text f func_name ras"

lemma trace_loop_None: "trace_loop font lookup mem \<lparr>rbp = None\<rparr> s = Some (Inr s)"
  by (subst trace_loop.simps) (simp add: trace_next_def)

lemma trace_loop_step:
  "trace_loop font lookup mem \<lparr>rbp = Some p\<rparr> s =
    (case trace_round font lookup (mem (p + 8)) s of
       Inl e \<Rightarrow> Some (Inl e)
     | Inr s \<Rightarrow> trace_loop font lookup mem \<lparr>rbp = (if mem p = 0 then None else Some (mem p))\<rparr> s)"
  by (subst trace_loop.simps) (simp add: trace_next_def Let_def split: sum.split)

lemma trace_loop_chain:
  "frame_chain mem p ras \<Longrightarrow>
    trace_loop font lookup mem \<lparr>rbp = Some p\<rparr> s = Some (for_list (trace_round font lookup) ras s)"
proof (induction mem p ras arbitrary: s rule: frame_chain.induct)
  case (2 mem p a)
  then show ?case by (simp add: trace_loop_step [of font lookup mem p] trace_loop_None split: sum.split)
next
  case (3 mem p a b as)
  then show ?case by (simp add: trace_loop_step [of font lookup mem p] split: sum.split)
qed simp

lemma write_good:
  assumes "con_good c" and "length font = 4096"
  obtains c' where "write_str font s c = Inr c'" and "con_good c'"
proof -
  obtain c' where "write_str font s c = Inr c'" "console_ok c'" "in_framebuffer_only (screen c) (screen c')"
    using write_str_ok [of c font s] assms unfolding con_good_def by blast
  then show thesis using assms(1) that
    by (simp add: con_good_def columns_fit_def in_framebuffer_only_def same_geometry_def)
qed

lemma trace_rounds_text:
  assumes lk: "\<And>a. lookup a = Inr (f a)" and font: "length font = 4096" and "con_good c"
  shows "bnd (for_list (trace_round font lookup) ras (n, c)) (\<lambda>(n, c).
      write_str font (name_codepoints n @ codepoints ''\<newline>'') c) = write_str font (trace_text f n ras) c"
  using assms(3)
proof (induction ras arbitrary: n c)
  case (Cons a ras)
  obtain c' where "write_str font (trace_line n a) c = Inr c'" "con_good c'"
    using write_good [OF Cons.prems font] .
  then show ?case using Cons.IH by (simp add: trace_round_def lk name_of_def con_text.put_append)
qed simp

lemma console_clear_good:
  assumes "con_good c"
  obtains c' where "console_clear c = Inr c'" and "con_good c'" and "cursor_pos c' = (0, 0)"
    and "fg_color c' = fg_color c" and "bg_color c' = bg_color c"
    and "\<forall>p. on_screen (screen c) p \<longrightarrow> pixel (screen c') p = color_bytes (bg_color c)"
    and "in_framebuffer_only (screen c) (screen c')"
proof -
  have ok: "screen_ok (screen c)" using assms by (simp add: con_good_def console_ok_def)
  obtain s where s: "draw_all (bg_color c) (screen c) = Inr s"
    "paints (screen c) (\<lambda>p. if on_screen (screen c) p then Some (bg_color c) else None) s"
    using draw_all_paints [OF ok] by blast
  show thesis
  proof (rule that)
    show "console_clear c = Inr (c\<lparr>screen := s, cursor_pos := (0, 0)\<rparr>)" using s(1) by (simp add: console_clear_def)
  qed (use assms s(2) paints_geometry [OF s(2)] paints_in_framebuffer [OF s(2)] in
      \<open>auto simp: con_good_def console_ok_def columns_fit_def paints_def\<close>)
qed

lemma panic_handler_eq:
  assumes "con_good c" and "length font = 4096" and "frame_chain (stack_mem env) (rbp_reg env) ras"
    and lk: "\<And>a. lookup_symbol_from_return_addr sym_path (modules env) (virt_base env) a = Inr (f a)"
    and cur: "f (rip_reg env) = Some n"
  shows "panic_handler font sym_path env info (c, tr) =
    Some (bnd (console_clear (c\<lparr>bg_color := blue, fg_color := white\<rparr>)) (\<lambda>c.
      bnd (write_str font (report info f n ras) c) (\<lambda>c.
      Inr (c, qemu_write_str (codepoints (info @ ''\<newline>'')) tr))))"
proof -
  let ?s = "c\<lparr>bg_color := blue, fg_color := white\<rparr>"
  have "con_good ?s" using assms(1) by (simp add: con_good_def console_ok_def)
  then obtain c0 where c0: "console_clear ?s = Inr c0" "con_good c0" by (rule console_clear_good)
  obtain c1 where c1: "write_str font (codepoints (info @ ''\<newline>'')) c0 = Inr c1" "con_good c1"
    using write_good [OF c0(2) assms(2)] .
  obtain c2 where c2: "write_str font (codepoints ''\<newline>stack trace:\<newline>'') c1 = Inr c2" "con_good c2"
    using write_good [OF c1(2) assms(2)] .
  have "report info f n ras = codepoints (info @ ''\<newline>'') @ codepoints ''\<newline>stack trace:\<newline>'' @ trace_text f n ras"
    by (simp add: report_def codepoints_def)
  then have rep: "write_str font (report info f n ras) c0 = write_str font (trace_text f n ras) c2"
    by (simp only: con_text.put_twice [OF c1(1)] con_text.put_twice [OF c2(1)])
  have scr: "panic_screen font info c = Inr c2"
    by (simp only: panic_screen_def c0 c1 c2 bnd_Inr)
  have cf: "lookup_current_function sym_path (modules env) (virt_base env) (rip_reg env) = Inr (Some n)"
    by (simp add: lookup_current_function_def lk cur)
  note rounds = trace_rounds_text [where lookup = "lookup_symbol_from_return_addr sym_path (modules env) (virt_base env)"
        and f = f and ras = ras and n = n, OF lk assms(2) c2(2)]
  show ?thesis
    by (simp add: panic_handler_def scr cf stack_trace_new_def trace_loop_chain [OF assms(3)] c0(1) rep rounds [symmetric] bnd_assoc
        case_prod_unfold)
qed

lemma panic_handler_reports:
  assumes "con_good c" and "length font = 4096" and "frame_chain (stack_mem env) (rbp_reg env) ras"
    and "modules env = Some mods" and "virt_base env = Some start"
    and "find (\<lambda>m. ends_with (fst m) sym_path) mods = Some (path, symbol_file syms)"
    and "\<forall>s \<in> set syms. symbol_ok s" and "sorted (map fst syms)"
    and "nearest_symbol syms start (rip_reg env) = Some n"
  shows "\<exists>c0 c'. panic_handler font sym_path env info (c, tr) =
      Some (Inr (c', tr @ map (Out8 QEMU_PORT) (List.map_filter as_ascii (codepoints (info @ ''\<newline>''))))) \<and>
    (\<forall>p. on_screen (screen c) p \<longrightarrow> pixel (screen c0) p = color_bytes blue) \<and>
    cursor_pos c0 = (0, 0) \<and> fg_color c0 = white \<and> bg_color c0 = blue \<and>
    write_str font (report info (nearest_symbol syms start) n ras) c0 = Inr c' \<and>
    con_good c' \<and> in_framebuffer_only (screen c) (screen c')"
proof -
  let ?s = "c\<lparr>bg_color := blue, fg_color := white\<rparr>"
  have "con_good ?s" using assms(1) by (simp add: con_good_def console_ok_def)
  then obtain c0 where c0: "console_clear ?s = Inr c0" "con_good c0" "cursor_pos c0 = (0, 0)"
    "fg_color c0 = white" "bg_color c0 = blue" "in_framebuffer_only (screen c) (screen c0)"
    "\<forall>p. on_screen (screen c) p \<longrightarrow> pixel (screen c0) p = color_bytes blue"
    by (rule console_clear_good) simp
  let ?r = "report info (nearest_symbol syms start) n ras"
  obtain c' where c': "write_str font ?r c0 = Inr c'" "console_ok c'" "in_framebuffer_only (screen c0) (screen c')"
    using write_str_ok [of c0 font ?r] c0(2) assms(2) unfolding con_good_def by blast
  have good: "con_good c'" using write_good [OF c0(2) assms(2), of ?r] c'(1) by auto
  show ?thesis
    using panic_handler_eq [OF assms(1-3), of sym_path "nearest_symbol syms start" n info tr]
      lookup_nearest_symbol [OF assms(6-8)] assms(4,5,9) c0 c' good
      in_framebuffer_trans [OF c0(6) c'(3)]
    by (intro exI [of _ c0] exI [of _ c']) (simp add: qemu_write_str_eq)
qed

text \<open>
  C14. The panic handler ends its report: with a chain of stack frames, a loaded symbol file sorted by address, a symbol for the
  current function and a console in a valid state, it reaches its halt loop. By then the debug log has the ASCII
  characters of the message, and the console is the one that the text of the report, written on a screen that is
  entirely blue, gives: the message, and for every frame from the innermost outwards the name of the function and the address
  it was called from.
\<close>

theorem panic_report:
  assumes "con_good c" and "length font = 4096" and "frame_chain (stack_mem env) (rbp_reg env) ras"
    and "modules env = Some mods" and "virt_base env = Some start"
    and "find (\<lambda>m. ends_with (fst m) sym_path) mods = Some (path, symbol_file syms)"
    and "\<forall>s \<in> set syms. symbol_ok s" and "sorted (map fst syms)"
    and "nearest_symbol syms start (rip_reg env) = Some n"
  shows "\<exists>c0 c'. panic_handler font sym_path env info (c, tr) =
      Some (Inr (c', tr @ map (Out8 QEMU_PORT) (List.map_filter as_ascii (codepoints (info @ ''\<newline>''))))) \<and>
    (\<forall>p. on_screen (screen c) p \<longrightarrow> pixel (screen c0) p = color_bytes blue) \<and>
    cursor_pos c0 = (0, 0) \<and> fg_color c0 = white \<and> bg_color c0 = blue \<and>
    write_str font (report info (nearest_symbol syms start) n ras) c0 = Inr c' \<and>
    con_good c' \<and> in_framebuffer_only (screen c) (screen c')"
  by (rule panic_handler_reports [OF assms])

definition example_panic :: panic_env where
  "example_panic = \<lparr>rbp_reg = 0x100, rip_reg = 0x2010, stack_mem = (\<lambda>_. 0)(0x100 := 0x200, 0x108 := 0x1010, 0x208 := 0x40),
    modules = Some [([47, 115], symbol_file example_symbols)], virt_base = Some 0x1000\<rparr>"

theorem panic_report_witness:
  "\<exists>c' tr'. panic_handler (replicate 4096 0x3C) [115] example_panic ''stop'' (example_console, []) = Some (Inr (c', tr')) \<and> con_good c'"
proof -
  have "con_good example_console"
    by (simp add: con_good_def example_console_def example_screen_def console_ok_def screen_ok_def columns_fit_def)
  moreover have "frame_chain (stack_mem example_panic) (rbp_reg example_panic) [0x1010, 0x40]"
    by (simp add: example_panic_def)
  moreover have "find (\<lambda>m. ends_with (fst m) [115]) [([47, 115], symbol_file example_symbols)] = Some ([47, 115], symbol_file example_symbols)"
    by (simp add: ends_with_def)
  moreover have "\<forall>s \<in> set example_symbols. symbol_ok s" "sorted (map fst example_symbols)"
    by (simp_all add: example_symbols_def symbol_ok_def is_ascii_whitespace_def)
  moreover have "nearest_symbol example_symbols 0x1000 (rip_reg example_panic) = Some [105, 110, 105, 116]"
    by (simp add: nearest_symbol_def example_symbols_def example_panic_def symbol_at_def)
  ultimately show ?thesis
    using panic_report [where c = example_console and font = "replicate 4096 0x3C" and env = example_panic
      and ras = "[0x1010, 0x40]" and mods = "[([47, 115], symbol_file example_symbols)]" and start = "0x1000"
      and sym_path = "[115]" and path = "[47, 115]" and syms = example_symbols and n = "[105, 110, 105, 116]"
      and info = "''stop''" and tr = "[]"]
    by (auto simp: example_panic_def)
qed

end
