(* ===== verification/Call_Stack.thy ===== *)
theory Call_Stack
  imports Handlers Panic_Handler
begin

text \<open>
  The entry stubs of the kernel (\<open>kmain\<close> of \<open>src/main.rs\<close>, \<open>cpu_main\<close> of \<open>src/cpu.rs\<close>) and the
  stack of frames that grows from them, which the stack trace of the panic handler walks.

  The code of the functions is the compiler's. The target description asks it to keep frame pointers, so
  \<open>enter_fn\<close> and \<open>leave_fn\<close> are the calling sequence it emits, and a function body may do anything but change
  the frame pointer, raise the stack above it or overwrite the records of the live frames.

  Lemmas: the records of the live frames lie one above the other and end in the record that a stub began with a
  cleared frame pointer, so the trace visits the return addresses of the live calls, innermost first, and stops.
\<close>

section \<open>The stubs and the calling sequence\<close>

definition kmain :: "instr list" where
  "kmain = [XorSelf RBP, Call]"

definition cpu_main :: "instr list" where
  "cpu_main = [XorSelf RBP, Call]"

text \<open>The call pushes the return address; the function pushes the frame pointer and makes the stack pointer its own.\<close>

definition enter_fn :: "u64 \<Rightarrow> cpu_state \<Rightarrow> cpu_state" where
  "enter_fn ra s =
    (let s = pushq ra s; s = pushq (regs s RBP) s in s\<lparr>regs := (regs s)(RBP := regs s RSP)\<rparr>)"

definition leave_fn :: "cpu_state \<Rightarrow> cpu_state" where
  "leave_fn s = s\<lparr>rip := quad s (regs s RBP + 8),
    regs := (regs s)(RSP := regs s RBP + 16, RBP := quad s (regs s RBP))\<rparr>"

text \<open>The addresses of the records of the innermost \<open>n\<close> frames.\<close>

fun frame_slots :: "(u64 \<Rightarrow> u64) \<Rightarrow> u64 \<Rightarrow> nat \<Rightarrow> u64 set" where
  "frame_slots mem p 0 = {}"
| "frame_slots mem p (Suc n) = {p, p + 8} \<union> frame_slots mem (mem p) n"

text \<open>A run of the kernel from one of its stubs, with the return addresses of the calls that are live.\<close>

inductive call_stack :: "u64 list \<Rightarrow> cpu_state \<Rightarrow> bool" where
  entry: "prog = kmain \<or> prog = cpu_main \<Longrightarrow> 16 \<le> unat (regs s RSP) \<Longrightarrow>
    call_stack [ra] (enter_fn ra (at_call prog s))"
| call: "call_stack ras s \<Longrightarrow> 16 \<le> unat (regs s RSP) \<Longrightarrow> call_stack (ra # ras) (enter_fn ra s)"
| body: "call_stack ras s \<Longrightarrow> regs s' RBP = regs s RBP \<Longrightarrow> unat (regs s' RSP) \<le> unat (regs s' RBP) \<Longrightarrow>
    (\<And>a. a \<in> frame_slots (quad s) (regs s RBP) (length ras) \<Longrightarrow> quad s' a = quad s a) \<Longrightarrow> call_stack ras s'"
| return: "call_stack (ra # ra' # ras) s \<Longrightarrow> call_stack (ra' # ras) (leave_fn s)"

section \<open>The order of the frames\<close>

fun rising_frames :: "(u64 \<Rightarrow> u64) \<Rightarrow> u64 \<Rightarrow> u64 list \<Rightarrow> bool" where
  "rising_frames mem p [] = False"
| "rising_frames mem p [a] \<longleftrightarrow> mem (p + 8) = a \<and> mem p = 0 \<and> unat p + 16 \<le> 2 ^ 64"
| "rising_frames mem p (a # as) \<longleftrightarrow>
    mem (p + 8) = a \<and> unat p + 16 \<le> unat (mem p) \<and> rising_frames mem (mem p) as"

lemma rising_frame_chain: "rising_frames mem p ras \<Longrightarrow> frame_chain mem p ras"
  by (induction mem p ras rule: rising_frames.induct) auto

lemma unat_plus_8: "unat p + 16 \<le> 2 ^ 64 \<Longrightarrow> unat (p + 8) = unat p + 8" for p :: u64
  by (simp add: unat_word_ariths)

lemma rising_room: "rising_frames mem p ras \<Longrightarrow> unat p + 16 \<le> 2 ^ 64"
proof (induction mem p ras rule: rising_frames.induct)
  case (3 mem p a b as)
  then show ?case using unat_u64_less [of "mem p"] by simp
qed simp_all

lemma frame_slots_above:
  "rising_frames mem p ras \<Longrightarrow> a \<in> frame_slots mem p (length ras) \<Longrightarrow> unat p \<le> unat a"
proof (induction mem p ras rule: rising_frames.induct)
  case (2 mem p b)
  then show ?case using rising_room [OF 2(1)] by (auto simp: unat_plus_8)
next
  case (3 mem p b c as)
  then show ?case using rising_room [OF 3(2)] by (auto simp: unat_plus_8)
qed simp

lemma rising_frames_cong:
  "rising_frames mem p ras \<Longrightarrow> (\<And>a. a \<in> frame_slots mem p (length ras) \<Longrightarrow> mem' a = mem a) \<Longrightarrow>
    rising_frames mem' p ras"
  by (induction mem p ras rule: rising_frames.induct) auto

section \<open>The invariant of a run\<close>

definition stack_inv :: "u64 list \<Rightarrow> cpu_state \<Rightarrow> bool" where
  "stack_inv ras s \<longleftrightarrow> rising_frames (quad s) (regs s RBP) ras \<and> unat (regs s RSP) \<le> unat (regs s RBP)"

lemma enter_fn_simps:
  "regs (enter_fn ra s) RSP = regs s RSP - 16" "regs (enter_fn ra s) RBP = regs s RSP - 16"
  "quad (enter_fn ra s) = (quad s)(regs s RSP - 8 := ra, regs s RSP - 16 := regs s RBP)"
  by (simp_all add: enter_fn_def pushq_def Let_def)

lemma enter_slots:
  fixes q :: u64
  assumes "16 \<le> unat q"
  shows "unat (q - 16) = unat q - 16" and "unat (q - 8) = unat q - 8" and "q - 16 + 8 = q - 8" and "q - 8 \<noteq> q - 16"
  using assms by (simp_all add: unat_sub_if_size word_le_nat_alt word_size)

lemma enter_first:
  assumes "regs s RBP = 0" and "16 \<le> unat (regs s RSP)"
  shows "stack_inv [ra] (enter_fn ra s)"
  using assms enter_slots [OF assms(2)] unat_u64_less [of "regs s RSP"]
  by (simp add: stack_inv_def enter_fn_simps del: unat_u64_less)

lemma enter_call:
  assumes "stack_inv ras s" and "16 \<le> unat (regs s RSP)"
  shows "stack_inv (ra # ras) (enter_fn ra s)"
proof -
  let ?q = "regs s RSP" and ?p = "regs s RBP" and ?m = "quad (enter_fn ra s)"
  note q = enter_slots [OF assms(2)]
  have rise: "rising_frames (quad s) ?p ras" and le: "unat ?q \<le> unat ?p" using assms(1) by (simp_all add: stack_inv_def)
  have "rising_frames ?m ?p ras"
  proof (rule rising_frames_cong [OF rise])
    fix a assume "a \<in> frame_slots (quad s) ?p (length ras)"
    then have "unat ?q \<le> unat a" using frame_slots_above [OF rise] le by fastforce
    then have "a \<noteq> ?q - 8" "a \<noteq> ?q - 16" using q(1,2) assms(2) by auto
    then show "?m a = quad s a" by (simp add: enter_fn_simps)
  qed
  moreover obtain b bs where "ras = b # bs" using rise by (cases ras) simp_all
  ultimately show ?thesis using q le assms(2) by (simp add: stack_inv_def enter_fn_simps)
qed

lemma leave_inv:
  assumes "stack_inv (ra # ra' # ras) s"
  shows "stack_inv (ra' # ras) (leave_fn s)"
proof -
  let ?p = "regs s RBP"
  have "unat ?p + 16 \<le> unat (quad s ?p)" using assms by (simp add: stack_inv_def)
  moreover from this have "unat (?p + 16) = unat ?p + 16"
    using unat_u64_less [of "quad s ?p"] by (simp add: unat_word_ariths del: unat_u64_less)
  ultimately show ?thesis using assms by (simp add: stack_inv_def leave_fn_def)
qed

lemma call_stack_inv: "call_stack ras s \<Longrightarrow> stack_inv ras s"
proof (induction rule: call_stack.induct)
  case (entry prog s ra)
  then have "regs (at_call prog s) RBP = 0" "regs (at_call prog s) RSP = regs s RSP"
    by (auto simp: at_call_def kmain_def cpu_main_def)
  then show ?case using entry(2) by (simp add: enter_first)
next
  case (call ras s ra)
  then show ?case by (simp add: enter_call)
next
  case (body ras s s')
  then show ?case using rising_frames_cong [of "quad s" "regs s RBP" ras "quad s'"] by (simp add: stack_inv_def)
next
  case (return ra ra' ras s)
  then show ?case by (simp add: leave_inv)
qed

text \<open>
  C16. At any point of a run that began in one of the entry stubs, the stack trace started from the frame pointer
  visits exactly the return addresses of the live calls, from the innermost to the stub's own, and then ends: the
  loop of the panic handler returns, whatever the memory outside the records of the live frames holds.
\<close>

theorem call_stack_traced:
  assumes "call_stack ras s"
  shows "trace_loop font lookup (quad s) (stack_trace_new (regs s RBP)) x =
    Some (for_list (trace_round font lookup) ras x)"
  using call_stack_inv [OF assms]
  by (simp add: stack_inv_def stack_trace_new_def rising_frame_chain trace_loop_chain)

definition example_core :: cpu_state where
  "example_core = \<lparr>regs = (\<lambda>r. if r = RSP then 0x8000 else 0xDEAD), quad = (\<lambda>a. 0xBEEF), rip = 0x1000,
    cs = 8, ss = 16, rflags = 2\<rparr>"

text \<open>\<open>kmain\<close> has called a function that reserved 48 bytes, wrote one of them and called a second one.\<close>

definition example_frame :: cpu_state where
  "example_frame = (let s = enter_fn 0x1008 (at_call kmain example_core) in
    s\<lparr>regs := (regs s)(RSP := regs s RSP - 48, RAX := 7), quad := (quad s)(regs s RSP - 8 := 3)\<rparr>)"

lemma example_calls: "call_stack [0x1008] example_frame" and example_rsp: "regs example_frame RSP = 0x7fc0"
proof -
  note defs = example_frame_def example_core_def enter_fn_def pushq_def at_call_def kmain_def Let_def
  have "call_stack [0x1008] (enter_fn 0x1008 (at_call kmain example_core))"
    by (rule call_stack.entry) (simp_all add: example_core_def)
  then show "call_stack [0x1008] example_frame"
    by (rule call_stack.body) (auto simp: defs)
  show "regs example_frame RSP = 0x7fc0" by (simp add: defs)
qed

theorem call_stack_traced_witness:
  "trace_loop (replicate 4096 0x3C) (\<lambda>a. Inr None) (quad (enter_fn 0x2040 example_frame))
      (stack_trace_new (regs (enter_fn 0x2040 example_frame) RBP)) ([65], example_console) =
    Some (for_list (trace_round (replicate 4096 0x3C) (\<lambda>a. Inr None)) [0x2040, 0x1008] ([65], example_console))"
  by (rule call_stack_traced, rule call_stack.call [OF example_calls]) (simp add: example_rsp)

end
