(* ===== verification/Interrupt_Flow.thy ===== *)
theory Interrupt_Flow
  imports Call_Stack
begin

text \<open>
  From a vector to the effect of its handler: the processor reads the gate in the shared table, enters the wrapper
  at the address of the gate, and the wrapper calls the body. The theory puts together the table (\<open>Idt\<close>), the wrappers (\<open>Handlers\<close>), the bodies,
  the controllers (\<open>Cpu\<close>), the stack (\<open>Call_Stack\<close>) and the panic handler.

  The linker places the wrapper of each handler at an address of its own (\<open>link\<close> is injective on the handlers of the kernel). The entry state
  of a wrapper and the register effects of a compiled body are constrained by \<open>delivered\<close> and \<open>sysv_callee\<close>.

  Lemmas: a timer interrupt is acknowledged and invisible to the interrupted code, any number of times; an exception ends in a
  report of the panic handler, whose trace has the calls of the interrupted code.
\<close>

section \<open>From a vector to its handler\<close>

definition kernel_handlers :: "handler list" where
  "kernel_handlers = map (snd \<circ> snd) init_gates @
    [eoi_handler, irq_panic ''spurious interrupt 33'', irq_panic ''lapic timer'', irq_panic ''LAPIC error'']"

definition handler_at :: "(handler \<Rightarrow> u64) \<Rightarrow> u64 \<Rightarrow> handler option" where
  "handler_at link a = find (\<lambda>h. link h = a) kernel_handlers"

definition vector_handler :: "(handler \<Rightarrow> u64) \<Rightarrow> idt_entry_raw list \<Rightarrow> nat \<Rightarrow> handler option" where
  "vector_handler link gates v =
    (if v < length gates \<and> gate_present (gates ! v) then handler_at link (gate_offset (gates ! v)) else None)"

fun wrapper_code :: "wrapper_kind \<Rightarrow> instr list" where
  "wrapper_code InterruptHandlerFn = interrupt_handler_fn"
| "wrapper_code TrapHandlerFn = trap_handler_fn"
| "wrapper_code TrapHandlerFnWithError = trap_handler_fn_with_error"

definition acknowledge :: "devices \<Rightarrow> devices run" where
  "acknowledge w = bnd (eoi (lapic_dev w)) (\<lambda>l. Inr (w\<lparr>lapic_dev := l\<rparr>))"

text \<open>
  The handling of a vector from the state \<open>e\<close> in which the wrapper is entered: the body finds its argument in \<open>rdi\<close>, as the
  calling convention says; \<open>f\<close> is what the compiled body does to the registers and the stack. \<open>None\<close>: there is no gate.
\<close>

definition handle_vector ::
  "(handler \<Rightarrow> u64) \<Rightarrow> u64 \<Rightarrow> (cpu_state \<Rightarrow> cpu_state) \<Rightarrow> nat \<Rightarrow> u64 \<Rightarrow> cpu_state \<Rightarrow> devices
    \<Rightarrow> (cpu_state \<times> devices) run option" where
  "handle_vector link ra f v cr2 e w =
    map_option (\<lambda>h. let code = wrapper_code (kind h) in
      bnd (run_body acknowledge (handler_body h) (regs (at_call code e) RDI) cr2 w) (\<lambda>w.
      Inr (exec ra f code e, w)))
    (vector_handler link (raw (inner (shared_idt w))) v)"

text \<open>
  The vector to which line 2 of the I/O controller is directed, and the one the timer device raises through it: the device must run with the legacy
  routing and the interrupt of its timer 0 enabled, and the local controller must be enabled by its software bit. When the
  timer matches its comparator, which no code of the kernel sets, is left open.
\<close>

definition timer_line :: "devices \<Rightarrow> nat option" where
  "timer_line w =
    (let r = redirection (ioapic_dev w) 2 in if field r 16 1 = 0 then Some (unat (field r 0 8)) else None)"

definition lapic_enabled :: "devices \<Rightarrow> bool" where
  "lapic_enabled w \<longleftrightarrow> bit (lapic_regs (lapic_dev w) (lapic_addr (lapic_dev w) + 0xF0)) 8"

definition timer_vector :: "devices \<Rightarrow> nat option" where
  "timer_vector w = (if hpet_started_at (hpet_dev w) \<and> lapic_enabled w then timer_line w else None)"

text \<open>What the start of the boot processor leaves for the interrupts.\<close>

definition interrupts_ready :: "(handler \<Rightarrow> u64) \<Rightarrow> u16 \<Rightarrow> devices \<Rightarrow> bool" where
  "interrupts_ready link kcs w \<longleftrightarrow>
    (let gates = raw (inner (shared_idt w)) in
     length gates = 256 \<and> (\<forall>g \<in> set init_gates. gates ! fst (snd g) = to_raw (gate_entry link kcs g)) \<and>
     gates ! 32 = irq_gate link kcs eoi_handler) \<and>
    timer_line w = Some 32 \<and> unat (lapic_addr (lapic_dev w)) + 0xB0 < 2 ^ 64"

lemma find_inj: "inj_on g (set xs) \<Longrightarrow> x \<in> set xs \<Longrightarrow> find (\<lambda>y. g y = g x) xs = Some x"
  by (induction xs) (auto simp: inj_on_def)

lemma vector_handler_entry:
  assumes "inj_on link (set kernel_handlers)" and "h \<in> set kernel_handlers" and "v < length gates"
    and "gates ! v = to_raw (entry_new ty kcs)" and "ty = Trap (link h) \<or> ty = Interrupt (link h)"
  shows "vector_handler link gates v = Some h"
  using assms gate_of_entry [OF assms(4)] find_inj [OF assms(1,2)]
  by (auto simp: vector_handler_def handler_at_def)

lemma timer_handler:
  assumes "interrupts_ready link kcs w" and "inj_on link (set kernel_handlers)"
  shows "vector_handler link (raw (inner (shared_idt w))) 32 = Some eoi_handler"
  by (rule vector_handler_entry [OF assms(2)])
    (use assms(1) in \<open>auto simp: kernel_handlers_def interrupts_ready_def Let_def irq_gate_def\<close>)

lemma exception_handler:
  assumes "interrupts_ready link kcs w" and "inj_on link (set kernel_handlers)" and "(trap, v, h) \<in> set init_gates"
  shows "vector_handler link (raw (inner (shared_idt w))) v = Some h"
proof (rule vector_handler_entry [OF assms(2)])
  show "h \<in> set kernel_handlers" using assms(3) by (force simp: kernel_handlers_def)
  show "raw (inner (shared_idt w)) ! v = to_raw (entry_new (if trap then Trap (link h) else Interrupt (link h)) kcs)"
    using assms(1,3) by (auto simp: interrupts_ready_def Let_def gate_entry_def)
  have "v \<in> (fst \<circ> snd) ` set init_gates" using assms(3) by force
  then have "v < 32" unfolding init_gates_vectors by simp
  then show "v < length (raw (inner (shared_idt w)))" using assms(1) by (simp add: interrupts_ready_def Let_def)
qed simp

section \<open>Timer interrupts\<close>

definition acknowledged :: "devices \<Rightarrow> devices" where
  "acknowledged w = w\<lparr>lapic_dev := (lapic_dev w)
    \<lparr>lapic_regs := (lapic_regs (lapic_dev w))(lapic_addr (lapic_dev w) + 0xB0 := 0)\<rparr>\<rparr>"

lemma acknowledge_eq: "unat (lapic_addr (lapic_dev w)) + 0xB0 < 2 ^ 64 \<Longrightarrow> acknowledge w = Inr (acknowledged w)"
  by (simp add: acknowledge_def eoi_def lapic_write_def acknowledged_def chk_add_def)

lemma acknowledged_simps [simp]:
  "shared_idt (acknowledged w) = shared_idt w" "lapic_addr (lapic_dev (acknowledged w)) = lapic_addr (lapic_dev w)"
  "ioapic_dev (acknowledged w) = ioapic_dev w" "timer_vector (acknowledged w) = timer_vector w" "acknowledged (acknowledged w) = acknowledged w"
  by (simp_all add: acknowledged_def timer_vector_def timer_line_def lapic_enabled_def)

lemma ready_acknowledged [simp]: "interrupts_ready link kcs (acknowledged w) = interrupts_ready link kcs w"
  by (simp add: interrupts_ready_def timer_line_def)

text \<open>Code that goes on as if nothing had happened.\<close>

definition resumed :: "cpu_state \<Rightarrow> cpu_state \<Rightarrow> bool" where
  "resumed p q \<longleftrightarrow> regs q = regs p \<and> rip q = rip p \<and> cs q = cs p \<and> ss q = ss p \<and> rflags q = rflags p"

text \<open>The timer interrupts a processor that has interrupts enabled.\<close>

inductive timer_tick :: "(handler \<Rightarrow> u64) \<Rightarrow> cpu_state \<times> devices \<Rightarrow> cpu_state \<times> devices \<Rightarrow> bool" for link where
  tick: "rflags p AND IF_FLAG \<noteq> 0 \<Longrightarrow> timer_vector w = Some v \<Longrightarrow> delivered p None e \<Longrightarrow> sysv_callee f \<Longrightarrow>
    handle_vector link ra f v cr2 e w = Some (Inr (q, w')) \<Longrightarrow> timer_tick link (p, w) (q, w')"

lemma timer_handled:
  assumes "interrupts_ready link kcs w" and "inj_on link (set kernel_handlers)"
  shows "handle_vector link ra f 32 cr2 e w = Some (Inr (exec ra f interrupt_handler_fn e, acknowledged w))"
proof -
  have "unat (lapic_addr (lapic_dev w)) + 0xB0 < 2 ^ 64" using assms(1) by (simp add: interrupts_ready_def)
  then show ?thesis using acknowledge_eq timer_handler [OF assms] by (simp add: handle_vector_def)
qed

lemma timer_tick_effect:
  assumes "timer_tick link (p, w) (q, w')" and "interrupts_ready link kcs w" and "inj_on link (set kernel_handlers)"
  shows "resumed p q \<and> w' = acknowledged w"
  using assms(1)
proof (cases rule: timer_tick.cases)
  case (tick v e f ra cr2)
  then have "v = 32" using assms(2) by (simp add: interrupts_ready_def timer_vector_def split: if_splits)
  then have "q = exec ra f interrupt_handler_fn e" and "w' = acknowledged w"
    using tick(5) timer_handled [OF assms(2,3)] by simp_all
  then show ?thesis using interrupt_wrapper_resumes [OF tick(3,4), of ra] by (simp add: resumed_def Let_def)
qed

lemma timer_ticks_effect:
  assumes "(timer_tick link)\<^sup>*\<^sup>* (p, w) (q, w')" and "interrupts_ready link kcs w" and "inj_on link (set kernel_handlers)"
  shows "resumed p q \<and> w' \<in> {w, acknowledged w} \<and> interrupts_ready link kcs w'"
  using assms(1)
proof (induction rule: rtranclp_induct2)
  case refl
  then show ?case using assms(2) by (simp add: resumed_def)
next
  case (step q w' q' w'')
  have ready: "interrupts_ready link kcs w'" and "resumed p q" and w': "w' = w \<or> w' = acknowledged w" using step(3) by simp_all
  then have "resumed p q'" and "w'' = acknowledged w'"
    using timer_tick_effect [OF step(2) ready assms(3)] by (simp_all add: resumed_def)
  then show ?case using w' ready by auto
qed

section \<open>Exceptions\<close>

text \<open>Every body that a gate of the initial table leads to ends in a panic.\<close>

lemma exception_body_panics:
  assumes "(trap, v, h) \<in> set init_gates"
  shows "\<exists>msg. \<forall>ack w. run_body ack (handler_body h) err cr2 (w :: devices) = Inl (Explicit msg)"
proof -
  have "handler_body h \<noteq> SendEoi" using assms by (auto simp: init_gates_unfold)
  then show ?thesis
    using desc_table_total [of err] by (cases "handler_body h") (auto simp: gp_fault_def page_fault_def Let_def)
qed

text \<open>Instructions that only lower the stack pointer, and by how much.\<close>

fun lowers :: "instr \<Rightarrow> nat option" where
  "lowers (Push r) = Some 8"
| "lowers Cld = Some 0"
| "lowers (SubRsp n) = Some (unat n)"
| "lowers (LoadRdi n) = Some 0"
| "lowers _ = None"

definition stack_use :: "instr list \<Rightarrow> nat" where
  "stack_use p = sum_list (map (the \<circ> lowers) p)"

text \<open>A state that has kept the frame pointer and all the stack above the stack pointer of \<open>p\<close>.\<close>

definition below :: "cpu_state \<Rightarrow> cpu_state \<Rightarrow> bool" where
  "below p t \<longleftrightarrow> regs t RBP = regs p RBP \<and> unat (regs t RSP) \<le> unat (regs p RSP) \<and>
    (\<forall>a. unat (regs p RSP) \<le> unat a \<longrightarrow> quad t a = quad p a)"

lemma unat_minus: "unat n \<le> unat q \<Longrightarrow> unat (q - n) = unat q - unat n" for q n :: u64
  by (simp add: unat_sub word_le_nat_alt)

lemma below_pushq:
  assumes "below p t" and "8 \<le> unat (regs t RSP)"
  shows "below p (pushq v t)" and "unat (regs (pushq v t) RSP) = unat (regs t RSP) - 8"
proof -
  show u: "unat (regs (pushq v t) RSP) = unat (regs t RSP) - 8"
    using assms(2) unat_minus [of 8 "regs t RSP"] by (simp add: pushq_def)
  then show "below p (pushq v t)" using assms by (auto simp: below_def pushq_def)
qed

lemma below_pushes:
  "below p t \<Longrightarrow> 8 * length vs \<le> unat (regs t RSP) \<Longrightarrow>
    below p (fold pushq vs t) \<and> unat (regs (fold pushq vs t) RSP) = unat (regs t RSP) - 8 * length vs"
proof (induction vs arbitrary: t)
  case (Cons v vs)
  then show ?case using below_pushq [OF Cons.prems(1), of v] Cons.IH [of "pushq v t"] by simp
qed simp

lemma below_exec1:
  assumes "below p t" and "lowers i = Some n" and "n \<le> unat (regs t RSP)"
  shows "below p (exec1 ra f i t) \<and> unat (regs (exec1 ra f i t) RSP) = unat (regs t RSP) - n"
proof (cases i)
  case (Push r)
  then show ?thesis using below_pushq [OF assms(1)] assms(2,3) by simp
next
  case (SubRsp m)
  then show ?thesis using assms unat_minus [of m "regs t RSP"] by (auto simp: below_def)
qed (use assms in \<open>auto simp: below_def\<close>)

lemma below_exec:
  assumes "below p t" and "\<forall>i \<in> set prog. lowers i \<noteq> None" and "stack_use prog \<le> unat (regs t RSP)"
  shows "below p (exec ra f prog t) \<and> unat (regs (exec ra f prog t) RSP) = unat (regs t RSP) - stack_use prog"
  using assms
proof (induction prog arbitrary: t)
  case (Cons i prog)
  then obtain n where n: "lowers i = Some n" "n + stack_use prog \<le> unat (regs t RSP)" by (auto simp: stack_use_def)
  have "below p (exec1 ra f i t) \<and> unat (regs (exec1 ra f i t) RSP) = unat (regs t RSP) - n"
    using below_exec1 [OF Cons.prems(1) n(1)] n(2) by simp
  then show ?case using Cons.IH [of "exec1 ra f i t"] Cons.prems(2) n by (auto simp: stack_use_def)
qed (simp add: stack_use_def)

lemma align_16:
  fixes x :: u64
  assumes "16 \<le> unat x"
  shows "unat (x AND NOT 15) \<le> unat x" and "unat x \<le> unat (x AND NOT 15) + 15"
proof -
  have "x - (x AND 15) = x AND NOT (x AND 15)"
    by (rule disjunctive_diff) (simp add: bit_simps)
  also have "\<dots> = x AND NOT 15" by (rule bit_eqI) (auto simp: bit_simps)
  finally have eq: "x AND NOT 15 = x - (x AND 15)" by simp
  have "unat (x AND 15) \<le> 15" using word_and_le1 [of x 15] by (simp add: word_le_nat_alt)
  then show "unat (x AND NOT 15) \<le> unat x" and "unat x \<le> unat (x AND NOT 15) + 15"
    unfolding eq using assms unat_minus [of "x AND 15" x] by linarith+
qed

text \<open>The delivery takes at most 63 bytes of the stack: the alignment, the frame of the processor and the error code.\<close>

lemma deliver_below:
  assumes "160 \<le> unat (regs p RSP)"
  shows "below p (deliver p err) \<and> unat (regs p RSP) \<le> unat (regs (deliver p err) RSP) + 63"
proof -
  define t where "t = p\<lparr>regs := (regs p)(RSP := regs p RSP AND NOT 15)\<rparr>"
  have t: "below p t" "unat (regs p RSP) \<le> unat (regs t RSP) + 15"
    using align_16 [of "regs p RSP"] assms by (simp_all add: below_def t_def)
  define u where "u = fold pushq [ss p, regs p RSP, rflags p, cs p, rip p] t"
  have u: "below p u \<and> unat (regs u RSP) = unat (regs t RSP) - 40"
    using below_pushes [OF t(1), of "[ss p, regs p RSP, rflags p, cs p, rip p]"] t(2) assms unfolding u_def by simp
  have "deliver p err = (case err of None \<Rightarrow> u | Some c \<Rightarrow> pushq c u)"
    by (cases err) (simp_all add: deliver_def u_def t_def Let_def)
  moreover have "8 \<le> unat (regs u RSP)" using u t(2) assms by simp
  ultimately show ?thesis using u t(2) assms below_pushq [of p u] by (auto split: option.split)
qed

lemma wrapper_stack_use:
  "\<forall>i \<in> set (takeWhile (\<lambda>i. i \<noteq> Call) (wrapper_code k)). lowers i \<noteq> None"
  "stack_use (takeWhile (\<lambda>i. i \<noteq> Call) (wrapper_code k)) \<le> 80"
  by (cases k; simp add: wrappers stack_use_def)+

text \<open>The call of a body from a wrapper is a call on the stack of the interrupted code.\<close>

lemma handler_call_stack:
  assumes "call_stack ras p" and "160 \<le> unat (regs p RSP)"
  shows "call_stack (ra # ras) (enter_fn ra (at_call (wrapper_code k) (deliver p err)))"
proof -
  let ?t = "at_call (wrapper_code k) (deliver p err)"
  note d = deliver_below [OF assms(2), of err]
  note use = wrapper_stack_use [of k]
  have "stack_use (takeWhile (\<lambda>i. i \<noteq> Call) (wrapper_code k)) \<le> unat (regs (deliver p err) RSP)"
    using d use(2) assms(2) by linarith
  from below_exec [OF _ use(1) this, of p 0 id] have t: "below p ?t" "16 \<le> unat (regs ?t RSP)"
    using d use(2) assms(2) by (auto simp: at_call_def)
  have p: "rising_frames (quad p) (regs p RBP) ras" "unat (regs p RSP) \<le> unat (regs p RBP)"
    using call_stack_inv [OF assms(1)] by (simp_all add: stack_inv_def)
  have "call_stack ras ?t"
  proof (rule call_stack.body [OF assms(1)])
    fix a assume "a \<in> frame_slots (quad p) (regs p RBP) (length ras)"
    then have "unat (regs p RSP) \<le> unat a" using frame_slots_above [OF p(1)] p(2) by fastforce
    then show "quad ?t a = quad p a" using t(1) by (simp add: below_def)
  qed (use t(1) p(2) in \<open>simp_all add: below_def\<close>)
  then show ?thesis using t(2) by (rule call_stack.call)
qed

text \<open>Calls from a point on: \<open>qs\<close> are the return addresses of those that are live on top of the ones there were.\<close>

inductive deeper :: "u64 list \<Rightarrow> cpu_state \<Rightarrow> u64 list \<Rightarrow> cpu_state \<Rightarrow> bool" for ras s where
  here: "deeper ras s [] s"
| call: "deeper ras s qs t \<Longrightarrow> 16 \<le> unat (regs t RSP) \<Longrightarrow> deeper ras s (q # qs) (enter_fn q t)"
| body: "deeper ras s qs t \<Longrightarrow> regs t' RBP = regs t RBP \<Longrightarrow> unat (regs t' RSP) \<le> unat (regs t' RBP) \<Longrightarrow>
    (\<And>a. a \<in> frame_slots (quad t) (regs t RBP) (length (qs @ ras)) \<Longrightarrow> quad t' a = quad t a) \<Longrightarrow> deeper ras s qs t'"
| return: "deeper ras s (q # qs) t \<Longrightarrow> deeper ras s qs (leave_fn t)"

lemma call_stack_nonempty: "call_stack ras s \<Longrightarrow> ras \<noteq> []"
  using call_stack_inv [of ras s] by (auto simp: stack_inv_def)

lemma deeper_call_stack: "deeper ras s qs t \<Longrightarrow> call_stack ras s \<Longrightarrow> call_stack (qs @ ras) t"
proof (induction rule: deeper.induct)
  case (return q qs t)
  then have "call_stack (q # qs @ ras) t" by simp
  moreover obtain q' qs' where "qs @ ras = q' # qs'" using call_stack_nonempty [OF return(3)] by (cases "qs @ ras") auto
  ultimately show ?case using call_stack.return [of q q' qs' t] by simp
qed (auto intro: call_stack.intros)

text \<open>The body of an exception gets the error code that the processor pushed.\<close>

definition exception_code :: "nat \<Rightarrow> u64 \<Rightarrow> u64 option" where
  "exception_code v err = (if pushes_error_code v then Some err else None)"

lemma exception_argument:
  assumes "(trap, v, h) \<in> set init_gates" and "delivered p (exception_code v err) e"
  shows "run_body ack (handler_body h) (regs (at_call (wrapper_code (kind h)) e) RDI) cr2 w =
    run_body ack (handler_body h) err cr2 w"
proof (cases "pushes_error_code v")
  case True
  then have "kind h = TrapHandlerFnWithError" using bspec [OF init_gates_kinds assms(1)] by simp
  then show ?thesis using trap_wrapper_entry [of p e err] assms(2) True by (simp add: exception_code_def Let_def)
next
  case False
  then obtain m where "handler_body h = PanicWith m"
    using assms(1) by (auto simp: init_gates_unfold pushes_error_code_def)
  then show ?thesis by simp
qed

text \<open>
  C15. An exception is reported. When the code with the live calls \<open>ras\<close> raises the exception \<open>v\<close>, with the interrupt table as the boot leaves it and room on
  its stack, the gate leads to the handler that the initial table lists for \<open>v\<close>; the body of this handler gets the error code that
  the processor pushed, where there is one, and panics with its message; and from any point of the panicking code the panic handler ends with the message on
  the debug log and the report on the blue screen, whose stack trace has the calls since the exception, the call in the wrapper, and then the live calls of the interrupted code.
\<close>

theorem exception_reported:
  assumes "interrupts_ready link kcs w" and "inj_on link (set kernel_handlers)" and "v < 32"
    and "call_stack ras p" and "160 \<le> unat (regs p RSP)" and "e = deliver p (exception_code v err)"
    and "con_good (con w)" and "length font = 4096"
    and "find (\<lambda>m. ends_with (fst m) sym_path) mods = Some (path, symbol_file syms)"
    and "\<forall>s \<in> set syms. symbol_ok s" and "sorted (map fst syms)"
  shows "\<exists>h msg. (v \<noteq> 2, v, h) \<in> set init_gates \<and> run_body acknowledge (handler_body h) err cra w = Inl (Explicit msg) \<and>
    handle_vector link ra f v cra e w = Some (Inl (Explicit msg)) \<and>
    (\<forall>qs t n. deeper (ra # ras) (enter_fn ra (at_call (wrapper_code (kind h)) e)) qs t \<and> nearest_symbol syms start (rip t) = Some n \<longrightarrow>
      (\<exists>c0 c'. panic_handler font sym_path \<lparr>rbp_reg = regs t RBP, rip_reg = rip t, stack_mem = quad t,
          modules = Some mods, virt_base = Some start\<rparr> (info msg) (con w, tr) =
        Some (Inr (c', tr @ map (Out8 QEMU_PORT) (List.map_filter as_ascii (codepoints (info msg @ ''\<newline>''))))) \<and>
        (\<forall>x. on_screen (screen (con w)) x \<longrightarrow> pixel (screen c0) x = color_bytes blue) \<and> cursor_pos c0 = (0, 0) \<and>
        write_str font (report (info msg) (nearest_symbol syms start) n (qs @ ra # ras)) c0 = Inr c'))"
proof -
  obtain trap h where h: "(trap, v, h) \<in> set init_gates" "trap \<longleftrightarrow> v \<noteq> 2" by (rule init_gate_of [OF assms(3)])
  obtain msg where msg: "\<And>w. run_body acknowledge (handler_body h) err cra w = Inl (Explicit msg)"
    using exception_body_panics [OF h(1), of err cra] by blast
  have "delivered p (exception_code v err) e" by (simp add: assms(6) delivered_deliver)
  note arg = exception_argument [OF h(1) this]
  have "handle_vector link ra f v cra e w = Some (Inl (Explicit msg))"
    using exception_handler [OF assms(1,2) h(1)] msg by (simp add: handle_vector_def Let_def arg)
  moreover have "\<exists>c0 c'. panic_handler font sym_path \<lparr>rbp_reg = regs t RBP, rip_reg = rip t, stack_mem = quad t,
        modules = Some mods, virt_base = Some start\<rparr> (info msg) (con w, tr) =
      Some (Inr (c', tr @ map (Out8 QEMU_PORT) (List.map_filter as_ascii (codepoints (info msg @ ''\<newline>''))))) \<and>
      (\<forall>x. on_screen (screen (con w)) x \<longrightarrow> pixel (screen c0) x = color_bytes blue) \<and> cursor_pos c0 = (0, 0) \<and>
      write_str font (report (info msg) (nearest_symbol syms start) n (qs @ ra # ras)) c0 = Inr c'"
    if t: "deeper (ra # ras) (enter_fn ra (at_call (wrapper_code (kind h)) e)) qs t" "nearest_symbol syms start (rip t) = Some n" for qs t n
  proof -
    let ?env = "\<lparr>rbp_reg = regs t RBP, rip_reg = rip t, stack_mem = quad t, modules = Some mods, virt_base = Some start\<rparr>"
    have "call_stack (qs @ ra # ras) t"
      using deeper_call_stack [OF t(1)] handler_call_stack [OF assms(4,5)] by (simp add: assms(6))
    then have "frame_chain (stack_mem ?env) (rbp_reg ?env) (qs @ ra # ras)"
      using call_stack_inv by (simp add: stack_inv_def rising_frame_chain)
    from panic_handler_reports [OF assms(7,8) this _ _ assms(9-11), of start n "info msg" tr] t(2) show ?thesis by auto
  qed
  ultimately show ?thesis using h msg by (intro exI [of _ h] exI [of _ msg]) simp
qed

section \<open>An instance\<close>

text \<open>A layout of the handlers, one after the other.\<close>

definition example_link :: "handler \<Rightarrow> u64" where
  "example_link h = 0x1000 + 64 * of_nat (length (takeWhile (\<lambda>h'. h' \<noteq> h) kernel_handlers))"

lemma position_nth: "x \<in> set xs \<Longrightarrow> length (takeWhile (\<lambda>y. y \<noteq> x) xs) < length xs \<and> xs ! length (takeWhile (\<lambda>y. y \<noteq> x) xs) = x"
  by (induction xs) auto

lemma example_link_inj: "inj_on example_link (set kernel_handlers)"
proof (rule inj_onI)
  fix g h assume g: "g \<in> set kernel_handlers" and h: "h \<in> set kernel_handlers" and eq: "example_link g = example_link h"
  let ?n = "\<lambda>x. length (takeWhile (\<lambda>y. y \<noteq> x) kernel_handlers)"
  have "length kernel_handlers = 36" by (simp add: kernel_handlers_def length_init_gates)
  then have n: "?n g < 36" "?n h < 36" using position_nth [OF g] position_nth [OF h] by auto
  have "unat (64 * of_nat k :: u64) = 64 * k" if "k < 36" for k
    using that by (simp add: unat_word_ariths unat_of_nat)
  note size = this
  have "(64 :: u64) * of_nat (?n g) = 64 * of_nat (?n h)" using eq unfolding example_link_def by (rule add_left_imp_eq)
  from arg_cong [OF this, of unat] have "?n g = ?n h" unfolding size [OF n(1)] size [OF n(2)] by linarith
  then show "g = h" using position_nth [OF g] position_nth [OF h] by presburger
qed

lemma example_ready: "\<exists>w. interrupts_ready example_link 0x28 w \<and> con w = example_console"
proof -
  obtain i :: idt where i: "length (raw i) = 256"
    "\<forall>trap v h. (trap, v, h) \<in> set init_gates \<longrightarrow> raw i ! v = to_raw (gate_entry example_link 0x28 (trap, v, h))"
    using init_gates_set [of example_link "0x28" 0] by blast
  let ?i = "i\<lparr>raw := (raw i)[32 := irq_gate example_link 0x28 eoi_handler]\<rparr>"
  let ?w = "(world example_kernel)\<lparr>shared_idt := irq_guard_new ?i,
    ioapic_dev := example_ioapic\<lparr>io_regs := (\<lambda>r. if r = 0x14 then 32 else 0)\<rparr>\<rparr>"
  have "raw ?i ! fst (snd g) = to_raw (gate_entry example_link 0x28 g)" if "g \<in> set init_gates" for g
  proof -
    have "fst (snd g) < 32" using that init_gates_vectors by fastforce
    then show ?thesis using i(2) that by (cases g) auto
  qed
  moreover have "timer_line ?w = Some 32"
    by (simp add: timer_line_def redirection_def field_def Let_def example_kernel_def)
  ultimately have "interrupts_ready example_link 0x28 ?w"
    using i(1) by (simp add: interrupts_ready_def Let_def irq_guard_new_def example_kernel_def)
  moreover have "con ?w = example_console" by (simp add: example_kernel_def)
  ultimately show ?thesis by blast
qed

theorem exception_reported_witness:
  "\<exists>w msg c' tr'. handle_vector example_link 0x3000 clobber 14 0xdead000 (deliver example_frame (Some 2)) w = Some (Inl (Explicit msg)) \<and>
    panic_handler (replicate 4096 0x3C) [115] \<lparr>rbp_reg = 0x7f38, rip_reg = 0x2010,
      stack_mem = quad (enter_fn 0x3000 (at_call trap_handler_fn_with_error (deliver example_frame (Some 2)))),
      modules = Some [([47, 115], symbol_file example_symbols)], virt_base = Some 0x1000\<rparr> msg (con w, []) = Some (Inr (c', tr'))"
proof -
  obtain w where w: "interrupts_ready example_link 0x28 w" "con w = example_console" using example_ready by blast
  let ?mods = "[([47, 115], symbol_file example_symbols)]" and ?e = "deliver example_frame (Some 2)"
  have good: "con_good (con w)"
    by (simp add: w(2) con_good_def example_console_def example_screen_def console_ok_def screen_ok_def columns_fit_def)
  have room: "160 \<le> unat (regs example_frame RSP)" by (simp add: example_rsp)
  have found: "find (\<lambda>m. ends_with (fst m) [115]) ?mods = Some ([47, 115], symbol_file example_symbols)"
    by (simp add: ends_with_def)
  have syms: "\<forall>s \<in> set example_symbols. symbol_ok s" "sorted (map fst example_symbols)"
    by (simp_all add: example_symbols_def symbol_ok_def is_ascii_whitespace_def)
  have err: "?e = deliver example_frame (exception_code 14 2)" by (simp add: exception_code_def pushes_error_code_def)
  from exception_reported [where cra = "0xdead000" and ra = "0x3000" and f = clobber and start = "0x1000" and info = "\<lambda>m. m" and tr = "[]"
      and font = "replicate 4096 0x3C", OF w(1) example_link_inj _ example_calls room err good length_replicate found syms]
  obtain h msg where h: "(True, 14, h) \<in> set init_gates"
    and handled: "handle_vector example_link 0x3000 clobber 14 0xdead000 ?e w = Some (Inl (Explicit msg))"
    and rep: "\<And>qs t n. deeper [0x3000, 0x1008] (enter_fn 0x3000 (at_call (wrapper_code (kind h)) ?e)) qs t \<Longrightarrow>
      nearest_symbol example_symbols 0x1000 (rip t) = Some n \<Longrightarrow>
      \<exists>c' tr'. panic_handler (replicate 4096 0x3C) [115] \<lparr>rbp_reg = regs t RBP, rip_reg = rip t, stack_mem = quad t,
        modules = Some ?mods, virt_base = Some 0x1000\<rparr> msg (con w, []) = Some (Inr (c', tr'))"
    by fastforce
  have k: "wrapper_code (kind h) = trap_handler_fn_with_error" using h by (auto simp: init_gates_unfold)
  let ?s = "enter_fn 0x3000 (at_call trap_handler_fn_with_error ?e)"
  have bp: "regs ?s RBP = 0x7f38" "regs ?s RSP = 0x7f38"
    by (simp_all add: enter_fn_def at_call_def wrappers deliver_def pushq_def example_rsp Let_def)
  have "deeper [0x3000, 0x1008] ?s [] (?s\<lparr>rip := 0x2010\<rparr>)"
    by (rule deeper.body [OF deeper.here]) (simp_all add: bp)
  moreover have "nearest_symbol example_symbols 0x1000 0x2010 = Some [105, 110, 105, 116]"
    by (simp add: nearest_symbol_def example_symbols_def symbol_at_def)
  ultimately show ?thesis using rep [of "[]" "?s\<lparr>rip := 0x2010\<rparr>" "[105, 110, 105, 116]"] handled k bp
    by auto
qed

end
