(* ===== verification/Console_Session.thy ===== *)
theory Console_Session
  imports Console
begin

text \<open>
  The console of \<open>src/console.rs\<close> in use: any sequence of the operations a holder of a \<open>Console\<close> has, and the
  global \<open>ThreadSafeConsole\<close>, whose lock \<open>_console_print\<close> (\<open>src/lib.rs\<close>) takes for a whole message and gives back after its last character. The lock is the spin lock of a
  library; the step relation states its mutual exclusion. Each processor of the second part writes a list of texts,
  one for each message that it prints.

  Lemmas: the state of a console stays on the grid of its cells and no operation panics; under the lock the texts of
  the processors appear one after the other, each whole, in an order that keeps the order of each processor.
\<close>

section \<open>Operations in sequence\<close>

datatype console_op =
    PrintColored u8 color color
  | WriteText "nat list"
  | Clear
  | SetColors color color

text \<open>The colours are public fields, so that a holder of the console may set them.\<close>

fun console_do :: "u8 list \<Rightarrow> console_op \<Rightarrow> console \<Rightarrow> console run" where
  "console_do font (PrintColored c fg bg) con = print_char_colored font c fg bg con"
| "console_do font (WriteText cps) con = write_str font cps con"
| "console_do font Clear con = console_clear con"
| "console_do font (SetColors fg bg) con = Inr (con\<lparr>fg_color := fg, bg_color := bg\<rparr>)"

definition on_grid :: "console \<Rightarrow> bool" where
  "on_grid con \<longleftrightarrow> console_ok con \<and> columns_fit (screen con) \<and> 16 dvd snd (cursor_pos con)"

lemma columns_fit_same: "in_framebuffer_only s s' \<Longrightarrow> columns_fit s' = columns_fit s"
  by (simp add: columns_fit_def in_framebuffer_only_def same_geometry_def)

lemma print_char_colored_grid:
  assumes "on_grid con" and "length font = 4096"
  shows "\<exists>con'. print_char_colored font c fg bg con = Inr con' \<and> on_grid con' \<and>
    in_framebuffer_only (screen con) (screen con')"
proof -
  have ok: "console_ok con" and fit: "columns_fit (screen con)" using assms(1) by (simp_all add: on_grid_def)
  from print_char_result [OF ok columns_fit_room [OF ok fit] assms(2), of c fg bg]
  obtain s' P where s': "print_char_colored font c fg bg con =
      Inr (con\<lparr>screen := s', cursor_pos := next_cursor (screen con) c (cursor_pos con)\<rparr>)"
    "paints (screen con) P s'" by blast
  have "16 dvd snd (next_cursor (screen con) c (cursor_pos con))"
    using assms(1) by (simp add: on_grid_def next_cursor_def)
  then show ?thesis
    using s' next_cursor_ok [OF ok s'(2)] paints_in_framebuffer [OF s'(2)] columns_fit_same fit
    by (auto simp: on_grid_def)
qed

lemma same_screen [simp]: "in_framebuffer_only s s"
  by (simp add: in_framebuffer_only_def same_geometry_def)

lemma for_list_grid:
  assumes "on_grid con"
    and "\<And>x con. x \<in> set xs \<Longrightarrow> on_grid con \<Longrightarrow>
      \<exists>con'. body x con = Inr con' \<and> on_grid con' \<and> in_framebuffer_only (screen con) (screen con')"
  shows "\<exists>con'. for_list body xs con = Inr con' \<and> on_grid con' \<and> in_framebuffer_only (screen con) (screen con')"
  using assms
proof (induction xs arbitrary: con)
  case (Cons x xs)
  obtain con1 where 1: "body x con = Inr con1" "on_grid con1" "in_framebuffer_only (screen con) (screen con1)"
    using Cons.prems by (meson list.set_intros(1))
  obtain con' where "for_list body xs con1 = Inr con'" "on_grid con'" "in_framebuffer_only (screen con1) (screen con')"
    using Cons.IH [OF 1(2)] Cons.prems(2) by (meson list.set_intros(2))
  then show ?case using 1 in_framebuffer_trans by auto
qed simp

lemma write_str_grid:
  assumes "on_grid con" and "length font = 4096"
  shows "\<exists>con'. write_str font cps con = Inr con' \<and> on_grid con' \<and> in_framebuffer_only (screen con) (screen con')"
  unfolding write_str_def
  using assms by (intro for_list_grid) (auto simp: print_char_def print_char_colored_grid split: option.split)

lemma console_clear_grid:
  assumes "on_grid con"
  shows "\<exists>con'. console_clear con = Inr con' \<and> on_grid con' \<and> in_framebuffer_only (screen con) (screen con')"
proof -
  have "screen_ok (screen con)" using assms by (simp add: on_grid_def console_ok_def)
  from draw_all_paints [OF this, of "bg_color con"] obtain s P where
    s: "draw_all (bg_color con) (screen con) = Inr s" "paints (screen con) P s" by blast
  then show ?thesis
    using assms paints_geometry [OF s(2)] paints_in_framebuffer [OF s(2)]
    by (simp add: console_clear_def on_grid_def console_ok_def columns_fit_def)
qed

lemma console_do_grid:
  assumes "on_grid con" and "length font = 4096"
  shows "\<exists>con'. console_do font op con = Inr con' \<and> on_grid con' \<and> in_framebuffer_only (screen con) (screen con')"
proof (cases op)
  case (SetColors fg bg)
  then show ?thesis using assms(1) by (simp add: on_grid_def console_ok_def)
qed (simp_all add: assms print_char_colored_grid write_str_grid console_clear_grid)

text \<open>
  C18. On a screen of at least one character whose width is not 8 modulo 9, any sequence of console
  operations runs to its end without a panic: the console is created with the screen in the background colour, and
  from then on its cursor is on a column that is a multiple of 9 and on a line that is a multiple of 16, the
  character there fits the screen, and no byte behind the framebuffer is written.
\<close>

theorem console_session:
  assumes "screen_ok s" and "columns_fit s" and "8 \<le> width s" and "16 \<le> height s" and "length font = 4096"
  shows "\<exists>con con'. console_new s bg fg = Inr con \<and>
    (\<forall>p. on_screen s p \<longrightarrow> pixel (screen con) p = color_bytes bg) \<and>
    for_list (console_do font) ops con = Inr con' \<and> in_framebuffer_only s (screen con') \<and>
    (case cursor_pos con' of (x, y) \<Rightarrow> 9 dvd x \<and> 16 dvd y \<and> x + 8 < width s \<and> y + 16 \<le> height s)"
proof -
  obtain con where con: "console_new s bg fg = Inr con" "console_ok con" "cursor_pos con = (0, 0)"
    "paints s (\<lambda>p. if on_screen s p then Some bg else None) (screen con)"
    by (rule console_new_ok [OF assms(1,3,4)])
  have fb: "in_framebuffer_only s (screen con)" using con(4) by (rule paints_in_framebuffer)
  then have "on_grid con" using con(2,3) assms(2) by (simp add: on_grid_def columns_fit_same)
  then obtain con' where c': "for_list (console_do font) ops con = Inr con'" "on_grid con'"
    "in_framebuffer_only (screen con) (screen con')"
    using for_list_grid [of con ops "console_do font"] console_do_grid assms(5) by blast
  have s': "in_framebuffer_only s (screen con')" by (rule in_framebuffer_trans [OF fb c'(3)])
  then have "width (screen con') = width s" "height (screen con') = height s"
    by (simp_all add: in_framebuffer_only_def same_geometry_def)
  then have "case cursor_pos con' of (x, y) \<Rightarrow> 9 dvd x \<and> 16 dvd y \<and> x + 8 < width s \<and> y + 16 \<le> height s"
    using c'(2) columns_fit_room [of con'] by (auto simp: on_grid_def console_ok_def)
  then show ?thesis using con c'(1) s' by (auto simp: paints_def)
qed

theorem console_session_witness:
  "\<exists>con con'. console_new (example_screen 1024) black blue = Inr con \<and>
    for_list (console_do (replicate 4096 0x3C))
      [WriteText [72, 105, 10, 955], SetColors red white, PrintColored 65 green blue, Clear] con = Inr con' \<and>
    9 dvd fst (cursor_pos con')"
  using console_session [of "example_screen 1024" "replicate 4096 0x3C" black blue
      "[WriteText [72, 105, 10, 955], SetColors red white, PrintColored 65 green blue, Clear]"]
  by (fastforce simp: example_screen_def screen_ok_def columns_fit_def split: prod.splits)

section \<open>The console under its lock\<close>

text \<open>
  \<open>holder\<close> is the processor inside \<open>_console_print\<close> with the characters of its message that it has yet to print, \<open>todo\<close> the texts that each
  processor has yet to write and \<open>taken\<close> the texts in the order in which the lock was taken for them.
\<close>

record thread_safe_console =
  holder :: "(nat \<times> nat list) option"
  shared :: console
  todo :: "nat \<Rightarrow> nat list list"
  taken :: "(nat \<times> nat list) list"

definition thread_safe_console_new :: "(nat \<Rightarrow> nat list list) \<Rightarrow> console \<Rightarrow> thread_safe_console" where
  "thread_safe_console_new prog con = \<lparr>holder = None, shared = con, todo = prog, taken = []\<rparr>"

inductive lock_step :: "u8 list \<Rightarrow> thread_safe_console \<Rightarrow> thread_safe_console \<Rightarrow> bool" for font where
  lock: "holder c = None \<Longrightarrow> todo c t = s # ss \<Longrightarrow>
    lock_step font c (c\<lparr>holder := Some (t, s), todo := (todo c)(t := ss), taken := taken c @ [(t, s)]\<rparr>)"
| print: "holder c = Some (t, cp # cps) \<Longrightarrow> write_str font [cp] (shared c) = Inr con \<Longrightarrow>
    lock_step font c (c\<lparr>holder := Some (t, cps), shared := con\<rparr>)"
| unlock: "holder c = Some (t, []) \<Longrightarrow> lock_step font c (c\<lparr>holder := None\<rparr>)"

abbreviation lock_run :: "u8 list \<Rightarrow> thread_safe_console \<Rightarrow> thread_safe_console \<Rightarrow> bool" where
  "lock_run font \<equiv> (lock_step font)\<^sup>*\<^sup>*"

definition remaining :: "thread_safe_console \<Rightarrow> nat list" where
  "remaining c = (case holder c of None \<Rightarrow> [] | Some (t, cps) \<Rightarrow> cps)"

definition texts_of :: "nat \<Rightarrow> thread_safe_console \<Rightarrow> nat list list" where
  "texts_of t c = map snd (filter (\<lambda>x. fst x = t) (taken c)) @ todo c t"

definition lock_inv :: "u8 list \<Rightarrow> (nat \<Rightarrow> nat list list) \<Rightarrow> console \<Rightarrow> thread_safe_console \<Rightarrow> bool" where
  "lock_inv font prog con c \<longleftrightarrow> on_grid (shared c) \<and> (\<forall>t. texts_of t c = prog t) \<and>
    write_str font (concat (map snd (taken c))) con = write_str font (remaining c) (shared c)"

lemma lock_inv_start:
  "on_grid con \<Longrightarrow> lock_inv font prog con (thread_safe_console_new prog con)"
  by (simp add: lock_inv_def thread_safe_console_new_def texts_of_def remaining_def)

lemma lock_step_inv:
  assumes "lock_step font c c'" and "lock_inv font prog con c" and "length font = 4096"
  shows "lock_inv font prog con c'"
  using assms
proof (induction rule: lock_step.induct)
  case (lock c t s ss)
  moreover have "write_str font (concat (map snd (taken c)) @ s) con = write_str font s (shared c)"
    using lock by (simp add: lock_inv_def remaining_def con_text.put_empty con_text.put_twice)
  moreover have "map snd (filter (\<lambda>x. fst x = t) (taken c)) @ s # ss = prog t"
    using lock by (simp add: lock_inv_def texts_of_def flip: lock(2))
  ultimately show ?case by (auto simp: lock_inv_def texts_of_def remaining_def)
next
  case (print c t cp cps k)
  have "on_grid k" using write_str_grid [of "shared c" font "[cp]"] print by (auto simp: lock_inv_def)
  moreover have "write_str font (cp # cps) (shared c) = write_str font cps k"
    using con_text.put_append [of font "[cp]" cps] print(2) by simp
  ultimately show ?case using print by (simp add: lock_inv_def texts_of_def remaining_def)
next
  case (unlock c t)
  then show ?case by (simp add: lock_inv_def texts_of_def remaining_def)
qed

lemma lock_run_inv:
  assumes "lock_run font (thread_safe_console_new prog con) c" and "on_grid con" and "length font = 4096"
  shows "lock_inv font prog con c"
  using assms(1) by (induction rule: rtranclp_induct) (simp_all add: lock_inv_start lock_step_inv assms(2,3))

lemma lock_progress:
  assumes "lock_inv font prog con c" and "length font = 4096"
  shows "(\<exists>c'. lock_step font c c') \<or> holder c = None \<and> (\<forall>t. todo c t = [])"
proof (cases "holder c")
  case None
  then show ?thesis by (metis lock_step.lock neq_Nil_conv)
next
  case (Some h)
  then obtain t cps where h: "holder c = Some (t, cps)" by (cases h) simp
  show ?thesis
  proof (cases cps)
    case (Cons cp cps')
    obtain k where "write_str font [cp] (shared c) = Inr k"
      using assms write_str_grid [of "shared c" font "[cp]"] by (auto simp: lock_inv_def)
    then show ?thesis using h Cons lock_step.print by blast
  qed (use h lock_step.unlock in blast)
qed

text \<open>
  C17. Processors that write to one console through its lock, in any interleaving of their steps, never
  stop before all texts are written, and whenever no processor holds the lock the console shows what one writer would
  have left by writing the texts one after the other, in the order in which the lock was taken. That order keeps the
  order of each processor: what it has written followed by what it has yet to write is its own list of texts.
\<close>

theorem console_lock_linear:
  assumes "lock_run font (thread_safe_console_new prog con) c" and "on_grid con" and "length font = 4096"
  shows "(holder c = None \<longrightarrow> write_str font (concat (map snd (taken c))) con = Inr (shared c)) \<and>
    (\<forall>t. map snd (filter (\<lambda>x. fst x = t) (taken c)) @ todo c t = prog t) \<and>
    ((\<exists>c'. lock_step font c c') \<or> holder c = None \<and> (\<forall>t. todo c t = []))"
  using lock_run_inv [OF assms] lock_progress [OF lock_run_inv [OF assms] assms(3)]
  by (auto simp: lock_inv_def texts_of_def remaining_def con_text.put_empty)

theorem console_lock_linear_witness:
  "\<exists>c. lock_run (replicate 4096 0x3C)
      (thread_safe_console_new (\<lambda>t. if t < 2 then [[65 + t, 10]] else []) example_console) c \<and>
    holder c = None \<and> taken c = [(1, [66, 10])] \<and>
    write_str (replicate 4096 0x3C) [66, 10] example_console = Inr (shared c)"
proof -
  let ?f = "replicate 4096 0x3C :: u8 list" and ?p = "\<lambda>t :: nat. if t < 2 then [[65 + t, 10]] else []"
  let ?start = "thread_safe_console_new ?p example_console"
  have grid: "on_grid example_console"
    by (simp add: on_grid_def example_console_def example_screen_def console_ok_def screen_ok_def columns_fit_def)
  obtain k1 where k1: "write_str ?f [66] example_console = Inr k1" "on_grid k1"
    using write_str_grid [OF grid, of ?f "[66]"] by auto
  obtain k2 where k2: "write_str ?f [10] k1 = Inr k2" using write_str_grid [OF k1(2), of ?f "[10]"] by auto
  let ?st = "\<lambda>h k. \<lparr>holder = h, shared = k, todo = ?p(1 := []), taken = [(1, [66, 10])]\<rparr>"
  have "lock_step ?f ?start (?st (Some (1, [66, 10])) example_console)"
    using lock_step.lock [of ?start 1 "[66, 10]" "[]" ?f] by (simp add: thread_safe_console_new_def)
  moreover have "lock_step ?f (?st (Some (1, [66, 10])) example_console) (?st (Some (1, [10])) k1)"
    using lock_step.print [of "?st (Some (1, [66, 10])) example_console"] k1 by simp
  moreover have "lock_step ?f (?st (Some (1, [10])) k1) (?st (Some (1, [])) k2)"
    using lock_step.print [of "?st (Some (1, [10])) k1"] k2 by simp
  moreover have "lock_step ?f (?st (Some (1, [])) k2) (?st None k2)"
    using lock_step.unlock [of "?st (Some (1, [])) k2"] by simp
  ultimately have run: "lock_run ?f ?start (?st None k2)"
    by (meson converse_rtranclp_into_rtranclp rtranclp.rtrancl_refl)
  then show ?thesis using console_lock_linear [OF run grid] by (intro exI [of _ "?st None k2"]) simp
qed

section \<open>A panic inside the lock\<close>

text \<open>
  The panic handler releases the lock by force, whoever holds it, before it takes the lock itself and writes its
  report; the lock of the debug log has no state here.
\<close>

definition force_unlock_panic_outputs :: "thread_safe_console \<Rightarrow> thread_safe_console" where
  "force_unlock_panic_outputs c = c\<lparr>holder := None\<rparr>"

lemma lock_prints:
  "holder c = Some (t, s) \<Longrightarrow> write_str font s (shared c) = Inr k \<Longrightarrow>
    lock_run font c (c\<lparr>holder := Some (t, []), shared := k\<rparr>)"
proof (induction s arbitrary: c)
  case Nil
  then have "c\<lparr>holder := Some (t, []), shared := k\<rparr> = c" by (simp add: con_text.put_empty)
  then show ?case by simp
next
  case (Cons cp cps)
  obtain k' where k': "write_str font [cp] (shared c) = Inr k'" "write_str font cps k' = Inr k"
    using Cons.prems(2) con_text.put_append [of font "[cp]" cps] by (auto simp: bnd_eq_Inr_iff)
  let ?c = "c\<lparr>holder := Some (t, cps), shared := k'\<rparr>"
  have "lock_step font c ?c" by (rule lock_step.print [OF Cons.prems(1) k'(1)])
  then show ?case using Cons.IH [of ?c] k'(2) by (simp add: converse_rtranclp_into_rtranclp)
qed

text \<open>
  A processor that panics at any point of a run, also while it is inside \<open>write_str\<close>, does not wait for the lock for ever: after
  the forced release, and with the other processors stopped, it writes all of its text on the console as it stands.
\<close>

lemma panic_output_not_blocked:
  assumes "lock_run font (thread_safe_console_new prog con) c" and "on_grid con" and "length font = 4096"
    and c1_def: "c1 = (force_unlock_panic_outputs c)\<lparr>todo := (\<lambda>_. [])(t := [s])\<rparr>"
  shows "\<exists>k c'. write_str font s (shared c) = Inr k \<and> lock_run font c1 c' \<and> shared c' = k \<and> holder c' = Some (t, [])"
proof -
  have "on_grid (shared c)" using lock_run_inv [OF assms(1-3)] by (simp add: lock_inv_def)
  then obtain k where k: "write_str font s (shared c) = Inr k" using write_str_grid [of "shared c" font s] assms(3) by auto
  let ?c = "c1\<lparr>holder := Some (t, s), todo := (todo c1)(t := []), taken := taken c1 @ [(t, s)]\<rparr>"
  have "lock_step font c1 ?c" by (rule lock_step.lock) (simp_all add: c1_def force_unlock_panic_outputs_def)
  moreover have "lock_run font ?c (?c\<lparr>holder := Some (t, []), shared := k\<rparr>)"
    by (rule lock_prints) (use k in \<open>simp_all add: c1_def force_unlock_panic_outputs_def\<close>)
  ultimately have "lock_run font c1 (?c\<lparr>holder := Some (t, []), shared := k\<rparr>)" by (rule converse_rtranclp_into_rtranclp)
  then show ?thesis using k by (intro exI [of _ k] exI conjI) auto
qed

end
