(* ===== verification/Smp.thy ===== *)
theory Smp
  imports Cpu
begin

text \<open>
  The start of all processors (\<open>src/cpu.rs\<close> with the feature \<open>smp\<close>). Each processor has its own local controller,
  flags and loaded table; timer device, console, shared table and the array of per-processor data belong to all.
  \<open>init\<close> runs on the boot processor and stores the address of \<open>cpu_main\<close> for every processor, upon which the boot loader
  lets it run. The processors then go through \<open>cpu_main_rs\<close> in any interleaving of its parts: the first message
  with the load of the table, the local controller, the calibration and the store of the result.

  Lemmas: one processor alone does what \<open>cpu_main_rs\<close> does; the parts of the processors do not disturb each other.
\<close>

section \<open>State\<close>

datatype phase = Parked | Entered | Online | SetUp | Calibrated u32 | Running u32

text \<open>\<open>cpu_arg\<close> is the id in the entry that the processor has been given as the argument of \<open>cpu_main_rs\<close>.\<close>

record processor =
  cpu_id :: u32
  cpu_arg :: u32
  goto_address :: "u64 option"
  own_lapic :: lapic
  own_idt :: "idt_ptr option"
  own_flags :: u64
  phase :: phase

text \<open>The local fields of \<open>shared_dev\<close> are those of the processor that ran last; \<open>kernel_of\<close> replaces them.\<close>

record smp =
  shared_dev :: devices
  procs :: "processor list"

definition kernel_of :: "smp \<Rightarrow> nat \<Rightarrow> kernel" where
  "kernel_of s i = \<lparr>eflags = own_flags (procs s ! i),
    world = (shared_dev s)\<lparr>lapic_dev := own_lapic (procs s ! i), loaded_idt := own_idt (procs s ! i)\<rparr>\<rparr>"

definition put_kernel :: "nat \<Rightarrow> phase \<Rightarrow> kernel \<Rightarrow> smp \<Rightarrow> smp" where
  "put_kernel i ph h s = s\<lparr>shared_dev := world h, procs := (procs s)[i := (procs s ! i)
    \<lparr>own_lapic := lapic_dev (world h), own_idt := loaded_idt (world h), own_flags := eflags h, phase := ph\<rparr>]\<rparr>"

section \<open>Starting the processors\<close>

definition start_processors :: "u64 \<Rightarrow> smp \<Rightarrow> smp" where
  "start_processors cpu_main_addr s = s\<lparr>procs := map (\<lambda>p. p\<lparr>goto_address := Some cpu_main_addr\<rparr>) (procs s)\<rparr>"

definition enter_main :: "nat \<Rightarrow> u32 \<Rightarrow> smp \<Rightarrow> smp" where
  "enter_main i a s = s\<lparr>procs := (procs s)[i := (procs s ! i)\<lparr>cpu_arg := a, phase := Entered\<rparr>]\<rparr>"

text \<open>The static with the address of the local controller is the same for all; at it each processor reaches its own.\<close>

definition share_lapic_address :: "u64 \<Rightarrow> smp \<Rightarrow> smp" where
  "share_lapic_address v s = s\<lparr>procs := map (\<lambda>p. p\<lparr>own_lapic := lapic_at v (own_lapic p)\<rparr>) (procs s)\<rparr>"

text \<open>
  \<open>init\<close> on the boot processor, the one at position \<open>b\<close>, up to its call of \<open>cpu_main_rs\<close>. The entry it passes on is
  the one at the position given by the id of its local controller.
\<close>

definition smp_init ::
  "'t platform \<Rightarrow> u8 list \<Rightarrow> (handler \<Rightarrow> u64) \<Rightarrow> u16 \<Rightarrow> u64 \<Rightarrow> nat \<Rightarrow> u32 \<Rightarrow> smp \<Rightarrow> smp run" where
  "smp_init P font link kcs cpu_main_addr b bsp_lapic_id s =
    bnd (init_devices P font link kcs (kernel_of s b)) (\<lambda>h.
    let s = share_lapic_address (lapic_addr (lapic_dev (world h))) (put_kernel b Parked h s);
        s = start_processors cpu_main_addr s in
    if unat bsp_lapic_id < length (procs s)
    then Inr (enter_main b (cpu_id (procs s ! unat bsp_lapic_id)) s)
    else Inl IndexOutOfBounds)"

text \<open>
  One part of one processor. The calibration is limited to the time in which the counter of the timer has not
  reached the half of its range.
\<close>

inductive smp_step ::
  "u8 list \<Rightarrow> (handler \<Rightarrow> u64) \<Rightarrow> u16 \<Rightarrow> (devices \<Rightarrow> nat \<Rightarrow> devices) \<Rightarrow> nat \<Rightarrow> smp \<Rightarrow> smp \<Rightarrow> bool"
  for font link kcs passes i where
  wake: "i < length (procs s) \<Longrightarrow> phase (procs s ! i) = Parked \<Longrightarrow> goto_address (procs s ! i) \<noteq> None \<Longrightarrow>
    smp_step font link kcs passes i s (enter_main i (cpu_id (procs s ! i)) s)"
| online: "i < length (procs s) \<Longrightarrow> phase (procs s ! i) = Entered \<Longrightarrow>
    cpu_online font (cpu_arg (procs s ! i)) (kernel_of s i) = Inr h \<Longrightarrow>
    smp_step font link kcs passes i s (put_kernel i Online h s)"
| set_up: "i < length (procs s) \<Longrightarrow> phase (procs s ! i) = Online \<Longrightarrow>
    local_apic_setup link kcs (kernel_of s i) = Inr h \<Longrightarrow>
    smp_step font link kcs passes i s (put_kernel i SetUp h s)"
| calibrated: "i < length (procs s) \<Longrightarrow> phase (procs s ! i) = SetUp \<Longrightarrow> counter (hpet_dev (shared_dev s)) < 2 ^ 63 \<Longrightarrow>
    calibrate passes (kernel_of s i) = Some (Inr (t, h)) \<Longrightarrow>
    smp_step font link kcs passes i s (put_kernel i (Calibrated t) h s)"
| ready: "i < length (procs s) \<Longrightarrow> phase (procs s ! i) = Calibrated t \<Longrightarrow>
    cpu_ready font t (kernel_of s i) = Inr h \<Longrightarrow>
    smp_step font link kcs passes i s (put_kernel i (Running t) h s)"

abbreviation smp_run :: "u8 list \<Rightarrow> (handler \<Rightarrow> u64) \<Rightarrow> u16 \<Rightarrow> (devices \<Rightarrow> nat \<Rightarrow> devices) \<Rightarrow> smp \<Rightarrow> smp \<Rightarrow> bool" where
  "smp_run font link kcs passes \<equiv> (\<lambda>s s'. \<exists>i. smp_step font link kcs passes i s s')\<^sup>*\<^sup>*"

section \<open>One processor alone\<close>

lemma kernel_of_put [simp]: "i < length (procs s) \<Longrightarrow> kernel_of (put_kernel i ph h s) i = h"
  by (simp add: kernel_of_def put_kernel_def)

lemma put_kernel_procs [simp]:
  "length (procs (put_kernel i ph h s)) = length (procs s)"
  "i < length (procs s) \<Longrightarrow> phase (procs (put_kernel i ph h s) ! i) = ph"
  "shared_dev (put_kernel i ph h s) = world h"
  by (simp_all add: put_kernel_def)

lemma put_kernel_twice [simp]: "put_kernel i ph' h' (put_kernel i ph h s) = put_kernel i ph' h' s"
  by (cases "i < length (procs s)") (simp_all add: put_kernel_def list_update_beyond)

lemma cpu_online_hpet: "cpu_online font n h = Inr h' \<Longrightarrow> hpet_dev (world h') = hpet_dev (world h)"
  by (auto simp: cpu_online_def console_println_def load_shared_idt_eq bnd_eq_Inr_iff)

lemma local_apic_setup_hpet: "local_apic_setup link kcs h = Inr h' \<Longrightarrow> hpet_dev (world h') = hpet_dev (world h)"
  by (auto simp: local_apic_setup_def on_lapic_def with_shared_idt_eq bnd_eq_Inr_iff)

text \<open>The parts in sequence are \<open>cpu_main_rs\<close>.\<close>

lemma processor_alone:
  assumes i: "i < length (procs s)" and ph: "phase (procs s ! i) = Entered"
    and main: "cpu_main_rs font link kcs passes (cpu_arg (procs s ! i)) (kernel_of s i) = Some (Inr h)"
    and time: "counter (hpet_dev (shared_dev s)) < 2 ^ 63"
  shows "\<exists>t. smp_run font link kcs passes s (put_kernel i (Running t) h s)"
proof -
  obtain h1 h2 t h3 where h1: "cpu_online font (cpu_arg (procs s ! i)) (kernel_of s i) = Inr h1"
    and h2: "local_apic_setup link kcs h1 = Inr h2" and h3: "calibrate passes h2 = Some (Inr (t, h3))"
    and h: "cpu_ready font t h3 = Inr h"
    using main by (auto simp: cpu_main_rs_def local_apic_init_def split: sum.splits option.splits)
  let ?step = "\<lambda>s s'. \<exists>i. smp_step font link kcs passes i s s'"
  let ?at = "\<lambda>ph h. put_kernel i ph h s"
  have "hpet_dev (world h2) = hpet_dev (shared_dev s)"
    using cpu_online_hpet [OF h1] local_apic_setup_hpet [OF h2] by (simp add: kernel_of_def)
  then have "smp_step font link kcs passes i (?at SetUp h2) (?at (Calibrated t) h3)"
    using smp_step.calibrated [of i "?at SetUp h2" passes t h3 font link kcs] time i h3 by simp
  then have s3: "?step (?at SetUp h2) (?at (Calibrated t) h3)" by blast
  have s1: "?step s (?at Online h1)" using smp_step.online [OF i ph h1] by blast
  have s2: "?step (?at Online h1) (?at SetUp h2)"
    using smp_step.set_up [of i "?at Online h1" link kcs h2] i h2 by auto
  have s4: "?step (?at (Calibrated t) h3) (?at (Running t) h)"
    using smp_step.ready [of i "?at (Calibrated t) h3" t font h] i h by auto
  note step = converse_rtranclp_into_rtranclp [where r = ?step]
  from step [OF s1 step [OF s2 step [OF s3 step [OF s4 rtranclp.rtrancl_refl]]]] show ?thesis by blast
qed

section \<open>Processors together\<close>

definition id_of :: "processor \<Rightarrow> nat" where
  "id_of p = unat (drop_bit 24 (lapic_regs (own_lapic p) (lapic_addr (own_lapic p) + 0x20)))"

lemma id_of_update [simp]:
  "id_of (p\<lparr>own_idt := x\<rparr>) = id_of p" "id_of (p\<lparr>own_flags := f\<rparr>) = id_of p" "id_of (p\<lparr>phase := ph\<rparr>) = id_of p"
  "id_of (p\<lparr>goto_address := a\<rparr>) = id_of p" "id_of (p\<lparr>cpu_arg := n\<rparr>) = id_of p"
  by (simp_all add: id_of_def)

fun loaded :: "phase \<Rightarrow> bool" where
  "loaded Parked = False"
| "loaded Entered = False"
| "loaded ph = True"

text \<open>What the devices and the shared data keep.\<close>

definition shared_ok :: "idt_ptr \<Rightarrow> devices \<Rightarrow> bool" where
  "shared_ok tbl w \<longleftrightarrow> con_good (con w) \<and> clock_ok (hpet_dev w) \<and> length (raw (inner (shared_idt w))) = 256 \<and>
    ptr (inner (shared_idt w)) = tbl \<and> length (percpus w) = MAX_CPU_COUNT"

definition processor_ok :: "idt_ptr \<Rightarrow> per_cpu option list \<Rightarrow> processor \<Rightarrow> bool" where
  "processor_ok tbl ps p \<longleftrightarrow> lapic_ok (own_lapic p) \<and> id_of p < MAX_CPU_COUNT \<and> goto_address p \<noteq> None \<and>
    (loaded (phase p) \<longrightarrow> own_idt p = Some tbl) \<and>
    (\<forall>t. phase p = Running t \<longrightarrow> ps ! id_of p = Some \<lparr>lapic_ticks_per_ms = t\<rparr>)"

definition smp_ok :: "idt_ptr \<Rightarrow> smp \<Rightarrow> bool" where
  "smp_ok tbl s \<longleftrightarrow> shared_ok tbl (shared_dev s) \<and> distinct (map id_of (procs s)) \<and>
    (\<forall>i < length (procs s). processor_ok tbl (percpus (shared_dev s)) (procs s ! i))"

lemma put_kernel_ok:
  assumes s: "smp_ok tbl s" and i: "i < length (procs s)" and w: "shared_ok tbl (world h)"
    and l: "lapic_ok (lapic_dev (world h))" and id: "apic_id (world h) = id_of (procs s ! i)"
    and idt: "loaded ph \<Longrightarrow> loaded_idt (world h) = Some tbl"
    and ps: "percpus (world h) = (case ph of
      Running t \<Rightarrow> (percpus (shared_dev s))[id_of (procs s ! i) := Some \<lparr>lapic_ticks_per_ms = t\<rparr>]
    | _ \<Rightarrow> percpus (shared_dev s))"
  shows "smp_ok tbl (put_kernel i ph h s)"
proof -
  define p where "p = (procs s ! i)\<lparr>own_lapic := lapic_dev (world h), own_idt := loaded_idt (world h),
    own_flags := eflags h, phase := ph\<rparr>"
  have idp: "id_of p = id_of (procs s ! i)" using id by (simp add: p_def id_of_def apic_id_def)
  then have ids: "map id_of ((procs s)[i := p]) = map id_of (procs s)"
    using i by (metis list_update_same_conv length_map map_update nth_map)
  have len: "length (percpus (shared_dev s)) = MAX_CPU_COUNT" using s by (simp add: smp_ok_def shared_ok_def)
  have "processor_ok tbl (percpus (world h)) ((procs s)[i := p] ! j)" if j: "j < length (procs s)" for j
  proof (cases "j = i")
    case True
    have "processor_ok tbl (percpus (shared_dev s)) (procs s ! i)" using s i by (simp add: smp_ok_def)
    then show ?thesis using True i l idt idp ps len by (simp add: processor_ok_def p_def)
  next
    case False
    have "id_of (procs s ! j) \<noteq> id_of (procs s ! i)"
      using s i j False by (auto simp: smp_ok_def distinct_conv_nth)
    moreover have "processor_ok tbl (percpus (shared_dev s)) (procs s ! j)" using s j by (simp add: smp_ok_def)
    ultimately show ?thesis using False ps by (auto simp: processor_ok_def split: phase.splits)
  qed
  then show ?thesis using s w ids by (simp add: smp_ok_def put_kernel_def flip: p_def)
qed

lemma kernel_of_ok:
  assumes "smp_ok tbl s" and "i < length (procs s)"
  shows "shared_ok tbl (world (kernel_of s i))" and "lapic_ok (lapic_dev (world (kernel_of s i)))"
    and "apic_id (world (kernel_of s i)) = id_of (procs s ! i)"
    and "id_of (procs s ! i) < length (percpus (world (kernel_of s i)))"
    and "loaded (phase (procs s ! i)) \<Longrightarrow> loaded_idt (world (kernel_of s i)) = Some tbl"
    and "percpus (world (kernel_of s i)) = percpus (shared_dev s)"
    and "hpet_dev (world (kernel_of s i)) = hpet_dev (shared_dev s)"
  using assms by (auto simp: smp_ok_def shared_ok_def processor_ok_def kernel_of_def apic_id_def id_of_def)

text \<open>Each part of a processor runs without a panic and leaves the system in order.\<close>

lemma online_ok:
  assumes "smp_ok tbl s" and "i < length (procs s)" and "length font = 4096"
  shows "\<exists>h. cpu_online font (cpu_arg (procs s ! i)) (kernel_of s i) = Inr h \<and> smp_ok tbl (put_kernel i Online h s)"
proof -
  note k = kernel_of_ok [OF assms(1,2)]
  obtain c where c: "cpu_online font (cpu_arg (procs s ! i)) (kernel_of s i) = Inr ((kernel_of s i)
      \<lparr>world := (world (kernel_of s i))\<lparr>con := c, loaded_idt := Some tbl\<rparr>\<rparr>)" "con_good c"
    using cpu_online_effect [OF k(2) _ assms(3), of "cpu_arg (procs s ! i)"] k(1) by (auto simp: shared_ok_def)
  then show ?thesis using assms k by (auto simp: shared_ok_def apic_id_def intro!: put_kernel_ok)
qed

lemma set_up_ok:
  assumes "smp_ok tbl s" and "i < length (procs s)" and "phase (procs s ! i) = Online"
  shows "\<exists>h. local_apic_setup link kcs (kernel_of s i) = Inr h \<and> smp_ok tbl (put_kernel i SetUp h s)"
proof -
  note k = kernel_of_ok [OF assms(1,2)]
  show ?thesis
    using assms k local_apic_setup_eq [OF k(2), of link kcs]
    by (auto simp: shared_ok_def apic_id_def irq_gates_def lapic_vectors_def intro!: put_kernel_ok)
qed

lemma calibrate_ok:
  assumes "smp_ok tbl s" and "i < length (procs s)" and "phase (procs s ! i) = SetUp"
    and "time_passes passes" and "counter (hpet_dev (shared_dev s)) < 2 ^ 63"
  shows "\<exists>t h. calibrate passes (kernel_of s i) = Some (Inr (t, h)) \<and> smp_ok tbl (put_kernel i (Calibrated t) h s)"
proof -
  note k = kernel_of_ok [OF assms(1,2)]
  obtain n v where "calibrate passes (kernel_of s i) = Some (Inr (- 1 - v, (kernel_of s i)\<lparr>world := (world (kernel_of s i))
    \<lparr>hpet_dev := set_reg 0xf0 n (hpet_dev (world (kernel_of s i))),
     lapic_dev := lapic_calibrated v (lapic_dev (world (kernel_of s i)))\<rparr>\<rparr>))"
    using calibrate_effect [OF assms(4) k(2)] k(1,7) assms(5) by (auto simp: shared_ok_def)
  then show ?thesis using assms k
    by (auto simp: shared_ok_def apic_id_def lapic_calibrated_def set_reg_clock intro!: put_kernel_ok)
qed

lemma ready_ok:
  assumes "smp_ok tbl s" and "i < length (procs s)" and "phase (procs s ! i) = Calibrated t" and "length font = 4096"
  shows "\<exists>h. cpu_ready font t (kernel_of s i) = Inr h \<and> smp_ok tbl (put_kernel i (Running t) h s)"
proof -
  note k = kernel_of_ok [OF assms(1,2)]
  have "con_good (con (world (kernel_of s i)))" using k(1) by (simp add: shared_ok_def)
  then obtain c where "cpu_ready font t (kernel_of s i) = Inr ((kernel_of s i)\<lparr>world := (world (kernel_of s i))
      \<lparr>con := c, percpus := (percpus (shared_dev s))[id_of (procs s ! i) := Some \<lparr>lapic_ticks_per_ms = t\<rparr>]\<rparr>\<rparr>)" "con_good c"
    using cpu_ready_effect [OF k(2) _ assms(4), of t] k(3,4,6) by auto
  then show ?thesis using assms k by (auto simp: shared_ok_def apic_id_def intro!: put_kernel_ok)
qed

lemma enter_main_ok:
  assumes "smp_ok tbl s" and "i < length (procs s)"
  shows "smp_ok tbl (enter_main i a s)"
proof -
  have "map id_of ((procs s)[i := (procs s ! i)\<lparr>cpu_arg := a, phase := Entered\<rparr>]) = map id_of (procs s)"
    using assms(2) by (simp add: map_update list_update_same_conv)
  then show ?thesis using assms by (auto simp: enter_main_def smp_ok_def processor_ok_def nth_list_update)
qed

lemma smp_step_ok:
  assumes "smp_step font link kcs passes i s s'" and "smp_ok tbl s" and "time_passes passes" and "length font = 4096"
  shows "smp_ok tbl s'"
  using assms
proof (induction rule: smp_step.induct)
  case (wake s)
  then show ?case by (simp add: enter_main_ok)
next
  case (online s h)
  then show ?case using online_ok [of tbl s i font] by auto
next
  case (set_up s h)
  then show ?case using set_up_ok [of tbl s i link kcs] by auto
next
  case (calibrated s t h)
  then show ?case using calibrate_ok [of tbl s i passes] by auto
next
  case (ready s t h)
  then show ?case using ready_ok [of tbl s i t font] by auto
qed

lemma smp_run_ok:
  assumes "smp_run font link kcs passes s s'" and "smp_ok tbl s" and "time_passes passes" and "length font = 4096"
  shows "smp_ok tbl s'"
  using assms(1) by (induction rule: rtranclp_induct) (use assms smp_step_ok in blast)+

lemma smp_progress:
  assumes "smp_ok tbl s" and "time_passes passes" and "length font = 4096" and "i < length (procs s)"
    and "counter (hpet_dev (shared_dev s)) < 2 ^ 63"
  shows "(\<exists>s'. smp_step font link kcs passes i s s') \<or> (\<exists>t. phase (procs s ! i) = Running t)"
proof (cases "phase (procs s ! i)")
  case Parked
  have "goto_address (procs s ! i) \<noteq> None" using assms(1,4) by (simp add: smp_ok_def processor_ok_def)
  then show ?thesis using smp_step.wake [OF assms(4) Parked] by blast
next
  case Entered
  then show ?thesis using online_ok [OF assms(1,4,3)] smp_step.online [OF assms(4)] by blast
next
  case Online
  then show ?thesis using set_up_ok [OF assms(1,4)] smp_step.set_up [OF assms(4)] by blast
next
  case SetUp
  then show ?thesis using calibrate_ok [OF assms(1,4) _ assms(2,5)] smp_step.calibrated [OF assms(4) _ assms(5)] by blast
next
  case (Calibrated t)
  then show ?thesis using ready_ok [OF assms(1,4) _ assms(3)] smp_step.ready [OF assms(4)] by blast
qed blast

section \<open>From the boot processor to all processors\<close>

text \<open>The processors as the boot loader leaves them: the one at position \<open>b\<close> runs, the others wait.\<close>

definition smp_boot :: "'t platform \<Rightarrow> board \<Rightarrow> nat \<Rightarrow> smp \<Rightarrow> bool" where
  "smp_boot P brd b s \<longleftrightarrow> b < length (procs s) \<and> kernel_ok (kernel_of s b) \<and>
    board_room 2 (acpi_of P) brd (memory (shared_dev s)) \<and> lazies (shared_dev s) = {} \<and> stores_harmless P \<and>
    distinct (map id_of (procs s)) \<and> (\<forall>i < length (procs s). id_of (procs s ! i) < MAX_CPU_COUNT \<and> phase (procs s ! i) = Parked)"

lemma share_ids: "map id_of (procs (share_lapic_address v s)) = map id_of (procs s)"
  by (simp add: share_lapic_address_def id_of_def devices_at comp_def)

lemma hpet_started_counter: "counter (hpet_started d) = counter d"
  by (simp add: counter_def hpet_started_def set_reg_def)

lemma smp_init_ok:
  assumes boot: "smp_boot P brd b s" and font: "length font = 4096" and bsp: "unat bsp < length (procs s)"
  shows "\<exists>s' x. smp_init P font link kcs a b bsp s = Inr s' \<and> length (procs s') = length (procs s) \<and>
    counter (hpet_dev (shared_dev s')) = counter (hpet_dev (shared_dev s)) \<and>
    boot_memory brd (memory (shared_dev s)) x (hpet_base (hpet_dev (shared_dev s'))) (lapic_addr (lapic_dev (shared_dev s')))
      (io_addr (ioapic_dev (shared_dev s'))) (memory (shared_dev s')) \<and>
    smp_ok \<lparr>idt_ptr.limit = 0xFFF, idt_ptr.base = x + raw_offset P\<rparr> s'"
proof -
  let ?k = "kernel_of s b"
  have k: "kernel_ok ?k" and b: "b < length (procs s)" using boot by (simp_all add: smp_boot_def)
  have boot': "board_room 2 (acpi_of P) brd (memory (world ?k))" "lazies (world ?k) = {}" "stores_harmless P"
    using boot by (simp_all add: smp_boot_def kernel_of_def)
  obtain w0 st w x i where f: "force_shared_idt P link kcs (world ?k) = Inr w0" "ioapic_init (acpi_of P) (memory w0) = Inr st"
      "force_all P (w0\<lparr>memory := st\<rparr>) = Inr w"
    and mem: "boot_memory brd (memory (world ?k)) x (hpet_base (hpet_dev w)) (lapic_addr (lapic_dev w)) (io_addr (ioapic_dev w)) (memory w)"
    and i: "shared_idt w = irq_guard_new i" "ptr i = \<lparr>idt_ptr.limit = 0xFFF, idt_ptr.base = x + raw_offset P\<rparr>" "length (raw i) = 256"
    and w: "lapic_ok (lapic_dev w)" "ioapic_ok (ioapic_dev w)" "clock_ok (hpet_dev (world ?k)) \<longrightarrow> clock_ok (hpet_dev w)"
      "counter (hpet_dev w) = counter (hpet_dev (world ?k))" "apic_id w = apic_id (world ?k)" "con w = con (world ?k)" "percpus w = percpus (world ?k)"
    using first_uses [OF boot', of link kcs] by metis
  let ?tbl = "\<lparr>idt_ptr.limit = 0xFFF, idt_ptr.base = x + raw_offset P\<rparr>"
  have kw: "kernel_ok (?k\<lparr>world := w\<rparr>)" and len: "length (raw (inner (shared_idt w))) = 256" using k w i by (simp_all add: kernel_ok_def)
  obtain c d where h: "init_devices P font link kcs ?k = Inr (?k\<lparr>world := w\<lparr>con := c, ioapic_dev := d,
      hpet_dev := hpet_started (hpet_dev w),
      shared_idt := irq_guard_new ((inner (shared_idt w))\<lparr>raw := (raw (inner (shared_idt w)))[32 := irq_gate link kcs eoi_handler]\<rparr>),
      loaded_idt := Some (ptr (inner (shared_idt w)))\<rparr>\<rparr>)" (is "_ = Inr ?h") and c: "con_good c" "io_addr d = io_addr (ioapic_dev w)"
    using init_devices_effect [OF f kw font len] by blast
  let ?p = "put_kernel b Parked ?h s"
  define s1 where "s1 = share_lapic_address (lapic_addr (lapic_dev w)) ?p"
  let ?s = "start_processors a s1"
  have "id_of (procs s ! b) = apic_id w" using w(5) by (simp add: kernel_of_def apic_id_def id_of_def)
  then have "map id_of (procs ?p) = map id_of (procs s)"
    using b by (simp add: put_kernel_def map_update list_update_same_conv) (simp add: id_of_def apic_id_def)
  then have ids: "map id_of (procs s1) = map id_of (procs s)" by (simp only: s1_def share_ids)
  then have len: "length (procs s1) = length (procs s)" by (metis length_map)
  have each: "lapic_ok (own_lapic (procs s1 ! i)) \<and> phase (procs s1 ! i) = Parked \<and> id_of (procs s1 ! i) = id_of (procs s ! i)"
    if "i < length (procs s)" for i
  proof -
    have "id_of (procs s1 ! i) = id_of (procs s ! i)" using ids len that by (metis nth_map)
    then show ?thesis using boot w(1) that b
      by (auto simp: s1_def share_lapic_address_def put_kernel_def smp_boot_def lapic_ok_def devices_at nth_list_update)
  qed
  have dev: "shared_dev s1 = world ?h" by (simp add: s1_def share_lapic_address_def)
  have "shared_ok ?tbl (shared_dev s1)"
    using kw c i hpet_started_clock by (simp add: dev shared_ok_def kernel_ok_def)
  then have "smp_ok ?tbl ?s"
    using boot ids len each
    by (auto simp: smp_boot_def start_processors_def smp_ok_def processor_ok_def comp_def)
  moreover have "length (procs ?s) = length (procs s)" by (simp add: start_processors_def len)
  moreover have "counter (hpet_dev (shared_dev ?s)) = counter (hpet_dev (shared_dev s))"
    using w(4) by (simp add: start_processors_def dev hpet_started_counter kernel_of_def)
  moreover have "boot_memory brd (memory (shared_dev s)) x (hpet_base (hpet_dev (shared_dev ?s))) (lapic_addr (lapic_dev (shared_dev ?s)))
      (io_addr (ioapic_dev (shared_dev ?s))) (memory (shared_dev ?s))"
    using mem c(2) by (simp add: start_processors_def dev kernel_of_def hpet_started_def set_reg_def)
  moreover have "smp_init P font link kcs a b bsp s =
      (if unat bsp < length (procs ?s) then Inr (enter_main b (cpu_id (procs ?s ! unat bsp)) ?s) else Inl IndexOutOfBounds)"
    using h by (simp add: smp_init_def s1_def Let_def)
  ultimately show ?thesis
    using b bsp enter_main_ok [of ?tbl ?s b] by (intro exI [of _ "enter_main b (cpu_id (procs ?s ! unat bsp)) ?s"] exI [of _ x]) (simp add: enter_main_def)
qed

text \<open>
  C20. With the feature \<open>smp\<close>, when the devices can be mapped (\<open>board_ok\<close>), the boot loader hands over processors with different controller ids below 32,
  and the id of the boot processor is less than their number, the boot processor builds the shared table in a block of the heap, prepares the devices and releases the others without a panic. From then on, in any interleaving of
  the processors and within the first half of the range of the timer's counter, a processor that is not yet in its halt
  loop can go on; one that has come so far has the shared table in that block loaded, and the entry for its id among the
  per-processor data holds the tick rate that it measured, whatever the others have done since.
\<close>

theorem smp_start:
  assumes "smp_boot P brd b s" and "length font = 4096" and "time_passes passes" and "unat bsp < length (procs s)"
  shows "\<exists>s0 x. smp_init P font link kcs a b bsp s = Inr s0 \<and>
    length (procs s0) = length (procs s) \<and> counter (hpet_dev (shared_dev s0)) = counter (hpet_dev (shared_dev s)) \<and>
    boot_memory brd (memory (shared_dev s)) x (hpet_base (hpet_dev (shared_dev s0))) (lapic_addr (lapic_dev (shared_dev s0)))
      (io_addr (ioapic_dev (shared_dev s0))) (memory (shared_dev s0)) \<and>
    (\<forall>s' i. smp_run font link kcs passes s0 s' \<and> i < length (procs s') \<longrightarrow>
      ptr (inner (shared_idt (shared_dev s'))) = \<lparr>idt_ptr.limit = 0xFFF, idt_ptr.base = x + raw_offset P\<rparr> \<and>
      (case phase (procs s' ! i) of
         Running t \<Rightarrow> own_idt (procs s' ! i) = Some (ptr (inner (shared_idt (shared_dev s')))) \<and>
           percpus (shared_dev s') ! id_of (procs s' ! i) = Some \<lparr>lapic_ticks_per_ms = t\<rparr>
       | _ \<Rightarrow> counter (hpet_dev (shared_dev s')) < 2 ^ 63 \<longrightarrow> (\<exists>s''. smp_step font link kcs passes i s' s'')))"
proof -
  obtain s0 x where s0: "smp_init P font link kcs a b bsp s = Inr s0" "length (procs s0) = length (procs s)"
    "counter (hpet_dev (shared_dev s0)) = counter (hpet_dev (shared_dev s))"
    "boot_memory brd (memory (shared_dev s)) x (hpet_base (hpet_dev (shared_dev s0))) (lapic_addr (lapic_dev (shared_dev s0)))
      (io_addr (ioapic_dev (shared_dev s0))) (memory (shared_dev s0))"
    and s0_ok: "smp_ok \<lparr>idt_ptr.limit = 0xFFF, idt_ptr.base = x + raw_offset P\<rparr> s0"
    using smp_init_ok [OF assms(1,2,4)] by blast
  let ?tbl = "\<lparr>idt_ptr.limit = 0xFFF, idt_ptr.base = x + raw_offset P\<rparr>"
  have "ptr (inner (shared_idt (shared_dev s'))) = ?tbl \<and> (case phase (procs s' ! i) of
      Running t \<Rightarrow> own_idt (procs s' ! i) = Some (ptr (inner (shared_idt (shared_dev s')))) \<and>
        percpus (shared_dev s') ! id_of (procs s' ! i) = Some \<lparr>lapic_ticks_per_ms = t\<rparr>
    | _ \<Rightarrow> counter (hpet_dev (shared_dev s')) < 2 ^ 63 \<longrightarrow> (\<exists>s''. smp_step font link kcs passes i s' s''))"
    if run: "smp_run font link kcs passes s0 s'" and i: "i < length (procs s')" for s' i
  proof -
    have ok: "smp_ok ?tbl s'" by (rule smp_run_ok [OF run s0_ok assms(3,2)])
    then have "processor_ok ?tbl (percpus (shared_dev s')) (procs s' ! i)" "ptr (inner (shared_idt (shared_dev s'))) = ?tbl"
      using i by (simp_all add: smp_ok_def shared_ok_def)
    then show ?thesis using smp_progress [OF ok assms(3,2) i] by (auto simp: processor_ok_def split: phase.split)
  qed
  then show ?thesis using s0 by blast
qed

definition example_lapic :: "u32 \<Rightarrow> lapic" where
  "example_lapic n = \<lparr>lapic_addr = 0xffff900000000000, lapic_regs = (\<lambda>r. push_bit 24 n)\<rparr>"

definition example_smp :: smp where
  "example_smp = \<lparr>shared_dev = world example_kernel,
    procs = map (\<lambda>n. \<lparr>cpu_id = n, cpu_arg = 0, goto_address = None, own_lapic = example_lapic n, own_idt = None, own_flags = 2,
      phase = Parked\<rparr>) [0, 1]\<rparr>"

lemma example_smp_boot: "smp_boot example_platform example_board 0 example_smp"
proof -
  have "kernel_ok (kernel_of example_smp 0)"
    by (simp add: kernel_ok_def kernel_of_def example_smp_def example_lapic_def example_kernel_def lapic_ok_def ioapic_ok_def
        example_ioapic_def example_hpet_clock con_good_def example_console_def example_screen_def console_ok_def screen_ok_def
        columns_fit_def MAX_CPU_COUNT_def)
  then show ?thesis
    using example_platform_ok(1-3)
    by (simp add: smp_boot_def example_smp_def example_lapic_def lapic_ok_def id_of_def MAX_CPU_COUNT_def less_Suc_eq nth_Cons')
qed

theorem smp_start_witness:
  "\<exists>s0. smp_init example_platform (replicate 4096 0) (\<lambda>_. 0x1000) 0x28 0x7000 0 0 example_smp = Inr s0 \<and>
    ((\<exists>s1. smp_step (replicate 4096 0) (\<lambda>_. 0x1000) 0x28 example_passes 1 s0 s1) \<or> (\<exists>t. phase (procs s0 ! 1) = Running t))"
proof -
  have n: "length (procs example_smp) = 2" and c: "counter (hpet_dev (shared_dev example_smp)) = 7"
    by (simp_all add: example_smp_def example_kernel_def example_hpet_clock)
  then have id0: "unat (0 :: u32) < length (procs example_smp)" by simp
  obtain s0 x where s0: "smp_init example_platform (replicate 4096 0) (\<lambda>_. 0x1000) 0x28 0x7000 0 0 example_smp = Inr s0"
    "length (procs s0) = length (procs example_smp)"
    "counter (hpet_dev (shared_dev s0)) = counter (hpet_dev (shared_dev example_smp))"
    and run: "\<And>s' i. smp_run (replicate 4096 0) (\<lambda>_. 0x1000) 0x28 example_passes s0 s' \<and> i < length (procs s') \<longrightarrow>
      ptr (inner (shared_idt (shared_dev s'))) = \<lparr>idt_ptr.limit = 0xFFF, idt_ptr.base = x + raw_offset example_platform\<rparr> \<and>
      (case phase (procs s' ! i) of
         Running t \<Rightarrow> own_idt (procs s' ! i) = Some (ptr (inner (shared_idt (shared_dev s')))) \<and>
           percpus (shared_dev s') ! id_of (procs s' ! i) = Some \<lparr>lapic_ticks_per_ms = t\<rparr>
       | _ \<Rightarrow> counter (hpet_dev (shared_dev s')) < 2 ^ 63 \<longrightarrow>
           (\<exists>s''. smp_step (replicate 4096 0) (\<lambda>_. 0x1000) 0x28 example_passes i s' s''))"
    using smp_start [OF example_smp_boot length_replicate example_time_passes id0] by blast
  show ?thesis using run [of s0 1] s0 n c by (intro exI [of _ s0]) (simp split: phase.splits)
qed

end
