(* ===== verification/Spec2Isabelle.thy ===== *)
theory Spec2Isabelle
  imports Memory_System Arch_Regs Test_Build Hexdump Interrupt_Flow Console_Session Smp Boot
begin

text \<open>
  This library models \<open>os_test\<close>, a kernel for x86-64 written in Rust, and proves what its parts promise. Every
  definition follows the source under \<open>src/\<close>; one theory, or a group of theories, models one part.

  \<^bold>\<open>The program.\<close> The boot loader enters \<open>kmain_rs\<close> (\<open>main.rs\<close>), which loads an interrupt table
  (\<open>lib.rs\<close>, \<open>idt.rs\<close>), gives the frame allocator the largest usable area (\<open>memory/\<close>), and starts the
  boot processor (\<open>cpu.rs\<close>), which programs the interrupt controllers and timers (\<open>dev/\<close>) and calibrates the local timer with a
  sleep (\<open>time.rs\<close>). Messages go to a console (\<open>console.rs\<close>) that paints characters on the framebuffer
  (\<open>screen.rs\<close>), and to the debug port of an emulator (\<open>qemu_log.rs\<close>). Exceptions, and everything else that
  goes wrong, end in the panic handler (\<open>panic.rs\<close>), which prints a stack trace (\<open>stack_trace.rs\<close>). The
  file system (\<open>fs/\<close>) lives in memory and stands beside this.

  \<^bold>\<open>Conventions.\<close> Machine integers are words of their width; \<open>usize\<close> is a natural number whose operations check against \<open>2 ^ 64\<close>.
  Arithmetic that the build checks for overflow, assertions, \<open>unwrap\<close> and index errors are values of the type \<open>panic\<close>,
  and a fallible function returns \<open>'a run = panic + 'a\<close> (\<open>Kernel_Prelude\<close>). State is passed explicitly, in records with
  the fields of the source. Loops are recursion over the range they run through. The loops that may run forever, the polling
  sleep and the walk over the stack frames, are partial functions with \<open>None\<close> for not ending, and the properties about them
  state that they end. Sections under a lock are single steps, except for the console, where the lock is modelled. No model has a fuel argument.

  \<^bold>\<open>Memory.\<close> \<open>Phys_Memory\<close>: the bitmap allocator of \<open>physical.rs\<close>, with the contract \<open>frame_allocator\<close> of the trait
  \<open>PhysicalAllocator\<close> as a locale that it interprets. \<open>Paging\<close>: entries, pages, tables in an explicit store, the walk, mapping and
  search of \<open>paging.rs\<close>. \<open>Page_Tree\<close>: the abstract address space that the tables represent, and that the walk and the mapping
  refine it. \<open>Virt_Memory\<close>, \<open>Virt_Correct\<close>, \<open>Kernel_Memory\<close>: the page allocator of \<open>virt.rs\<close>, its correctness against
  the contract and for the kernel's own allocator. The frames to hand out (\<open>usable_frames\<close>) are those below the limit of the allocator; the bitmap
  also describes frames above it, which \<open>map_physical\<close> takes for devices and tables. \<open>Heap_Allocator\<close>: the global allocator (\<open>allocator.rs\<close>) and the
  ACPI mapping handler (\<open>acpi.rs\<close>). \<open>Memory_System\<close>: all sequences of requests and releases of these clients as a step relation,
  interleaved with a processor that caches translations as it likes and drops them only on \<open>invlpg\<close>. In every reachable state live
  allocations share nothing and no cached translation is stale, and when all is released the address space is the initial one.

  \<^bold>\<open>File systems.\<close> \<open>Fs_Path\<close>: paths as strings (\<open>path.rs\<close>). \<open>Ramfs\<close>: folders, files and handles in a store
  (\<open>ramfs.rs\<close>), with an abstract tree that the operations update at one name. \<open>Vfs\<close>: mounts over any file system that
  satisfies the locale of the trait \<open>FileSystem\<close>, interpreted on \<open>Ramfs\<close> (\<open>vfs.rs\<close>).

  \<^bold>\<open>Interrupts.\<close> \<open>Handlers\<close>: the assembly wrappers of \<open>idt.rs\<close> as instructions executed on registers and stack; an interrupt is
  invisible to the interrupted code. \<open>Idt\<close>: gates, their encoding, the table and the 32 exception handlers of \<open>create_init_idt\<close>.
  \<open>Interrupts\<close>: the interrupt flag and the guards of \<open>interrupts.rs\<close>. \<open>Arch_Regs\<close>: the register functions of \<open>arch_x86_64.rs\<close>.
  \<open>Interrupt_Flow\<close>: from a vector through its gate and its wrapper to the body of the handler and back, or on to the panic handler; timer
  interrupts are acknowledged and invisible, and exceptions end in a report with the calls of the code that raised them.

  \<^bold>\<open>Devices and time.\<close> \<open>Acpi\<close>: the entry to the ACPI tables (\<open>tables\<close> of \<open>acpi.rs\<close>); the library that parses them is a parameter,
  which maps and unmaps through the kernel's handler. \<open>Local_Apic\<close>, \<open>Io_Apic\<close>, \<open>Hpet\<close>: the drivers of \<open>dev/\<close>, with the registers as
  memory cells, and the statics that read the tables and map the registers. \<open>Device_Mapping\<close>: these statics in the order of the boot, after which
  the three register pages show the devices and are the only live allocations besides those made before. \<open>Kernel_Time\<close>: deadlines and the polling sleep, where the device at successive polls is a
  parameter. \<open>Port_Io\<close>: ports (\<open>io.rs\<close>), model specific registers (\<open>msr.rs\<close>) and the debug log. \<open>Cpu\<close>: the start of
  the boot processor over all of these, with each static computed at its first use: the shared interrupt table (\<open>interrupts.rs\<close>), which takes a block of
  the heap, and the registers of the devices. \<open>Smp\<close>: with the feature \<open>smp\<close>, the start of all processors in any interleaving.

  \<^bold>\<open>Output and diagnosis.\<close> \<open>Console\<close>: screen, glyphs and cursor; painting is abstracted to partial maps from pixels to colours.
  Console and debug log interpret the contract \<open>text_writer\<close> of an output, by which a formatted line is one write.
  \<open>Format\<close>: the number formatting and parsing of the language that the source uses. \<open>Hexdump\<close>: \<open>hexdump.rs\<close>.
  \<open>Console_Session\<close>: all sequences of console operations, and processors that share a console through the lock of
  \<open>ThreadSafeConsole\<close>, whose texts appear one after the other. \<open>Stack_Trace\<close>: frames and symbols. \<open>Panic_Handler\<close>: the panic handler.
  \<open>Call_Stack\<close>: the entry stubs \<open>kmain\<close> and \<open>cpu_main\<close> and the frames of the calls since, over which the trace of the panic handler ends.

  \<^bold>\<open>Boot.\<close> \<open>Boot\<close> models \<open>kmain_rs\<close> and the globals of \<open>lib.rs\<close>; the properties that span the components, that the kernel
  boots, and what the interrupts of the timer do after it, are in this theory.

  \<^bold>\<open>Tests.\<close> \<open>Test_Runner\<close>: the test harness (\<open>test.rs\<close>), which goes on after a test that panics. \<open>Self_Tests\<close>: the test cases of
  \<open>path.rs\<close>, \<open>ramfs.rs\<close>, \<open>physical.rs\<close>, \<open>paging.rs\<close> and \<open>test.rs\<close> run on the models. \<open>Test_Build\<close>: the entry of the test build and the
  tests of \<open>allocator.rs\<close>, and that the whole run of the tests succeeds, in the order of the compiler and on a heap from which the tests of the file system
  take what they need.

  \<^bold>\<open>Parameters.\<close> The answers of the boot loader, the library that reads the ACPI tables (\<open>acpi_answers\<close>; the board is \<open>board_ok\<close>, with room for
  the shared table \<open>board_room\<close>), what the local controller makes of stores of single bytes (\<open>stores_harmless\<close>), the blocks that the collections of the file system take
  from the heap during the tests (\<open>fs_traffic\<close>), which field the compiler puts first in the structure of the interrupt table, the font, the addresses the linker gives, the memory behind
  the direct map, the frame pointers that the target description demands of the compiler (\<open>enter_fn\<close>, \<open>leave_fn\<close>), the delivery of interrupts by the processor (\<open>delivered\<close>), the calling convention of compiled
  handlers (\<open>sysv_callee\<close>) and the passing of time (\<open>time_passes\<close>) are parameters with named hypotheses.

  \<^bold>\<open>Not modelled.\<close> The declarations of the requests to the boot loader,
  the \<open>Debug\<close> formatting of the types and the lines that the drivers write with it to the debug log, the conversions between the string types of
  paths, the parsing of ACPI tables (a library), and the instruction \<open>hlt\<close>, which changes nothing of the state here.
\<close>

section \<open>Booting\<close>

text \<open>The shared table after the start of the boot processor.\<close>

lemma booted_gates:
  assumes i: "create_init_idt lk cseg at = Inr i"
    and r: "r = (raw i)[32 := irq_gate lk cseg a, 33 := irq_gate lk cseg b, 34 := irq_gate lk cseg c, 35 := irq_gate lk cseg d]"
  shows "v < 36 \<Longrightarrow> gate_present (r ! v) \<and> raw_kernel_cs (r ! v) = cseg \<and> (\<exists>hd. gate_offset (r ! v) = lk hd)"
    and "36 \<le> v \<Longrightarrow> v < 256 \<Longrightarrow> \<not> gate_present (r ! v)"
proof -
  obtain j where j: "create_init_idt lk cseg at = Inr j" "length (raw j) = 256"
    "\<forall>trap v h. (trap, v, h) \<in> set init_gates \<longrightarrow> raw j ! v = to_raw (gate_entry lk cseg (trap, v, h))"
    "\<forall>v < 256. 32 \<le> v \<longrightarrow> raw j ! v = raw_zeroed"
    using init_gates_set by blast
  then have [simp]: "j = i" using i by simp
  have irq: "gate_present (irq_gate lk cseg e)" "raw_kernel_cs (irq_gate lk cseg e) = cseg" "gate_offset (irq_gate lk cseg e) = lk e" for e
    using gate_of_entry [OF irq_gate_def] by simp_all
  show "gate_present (r ! v) \<and> raw_kernel_cs (r ! v) = cseg \<and> (\<exists>hd. gate_offset (r ! v) = lk hd)" if "v < 36"
  proof (cases "v < 32")
    case True
    obtain trap h where "(trap, v, h) \<in> set init_gates" by (rule init_gate_of [OF True])
    then have "raw i ! v = to_raw (entry_new (if trap then Trap (lk h) else Interrupt (lk h)) cseg)"
      using j(3) by (simp add: gate_entry_def)
    note gate = gate_of_entry [OF this]
    show ?thesis using True gate r by (auto split: if_splits)
  next
    case False
    then have "v = 32 \<or> v = 33 \<or> v = 34 \<or> v = 35" using that by linarith
    then show ?thesis using j(2) irq r by auto
  qed
  show "\<not> gate_present (r ! v)" if "36 \<le> v" "v < 256" using that j(4) r by simp
qed

text \<open>The usable area stays the one that was configured.\<close>

definition area_frames :: "memory_map_entry \<Rightarrow> phy_addr set" where
  "area_frames u = (\<lambda>i. PhyAddr (of_nat i * frame_size + memory_map_entry.base u)) ` {i. i < BITMAP_SIZE \<and> (i + 1) * 4096 \<le> unat (len u)}"

lemma booted_area:
  assumes "boot_memory brd (configured u st) x v1 v2 v3 st'" and "vm_ok {} (configured u st)"
  shows "usable_frames (physical_allocator (snd st')) = area_frames u"
proof -
  obtain live where reach: "memory_reachable (configured u st) (st', {}, live)"
    using assms(1) by (auto simp: boot_memory_def)
  obtain fss where "live_inv (configured u st) st' live fss"
    using memory_inv_reachable [OF reach assms(2)] by (auto simp: memory_inv_def)
  from live_invD(6) [OF this] have "usable_frames (physical_allocator (snd st')) =
      usable_frames (physical_allocator (snd (configured u st)))"
    by (simp add: outside_kept_def Let_def)
  then show ?thesis
    by (simp add: usable_frames_def usable_index_def frame_of_def configured_def set_limit_def area_frames_def)
qed

text \<open>
  What a boot needs: the boot loader has answered the requests, the font has 256 glyphs of 16 rows, the registers of the devices can be reached, time passes, the page
  allocator is as the kernel image has it, no static has been used, the devices and ACPI tables of the board lie outside the usable memory, and there is room
  for the shared table, the devices and the reading of the tables.
\<close>

definition bootable ::
  "linked \<Rightarrow> boot \<Rightarrow> 't platform \<Rightarrow> board \<Rightarrow> (devices \<Rightarrow> nat \<Rightarrow> devices) \<Rightarrow> kernel \<Rightarrow> bool" where
  "bootable l b P brd passes h \<longleftrightarrow> boot_ok b \<and> length (font l) = 4096 \<and> devices_ok (world h) \<and> time_passes passes \<and>
    counter (hpet_dev (world h)) < 2 ^ 63 \<and> apic_id (world h) < MAX_CPU_COUNT \<and>
    new_const = Inr (snd (memory (world h))) \<and> lazies (world h) = {} \<and> stores_harmless P \<and>
    (\<forall>u. largest_usable (the (memory_map b)) u \<longrightarrow> board_room 2 (acpi_of P) brd (configured u (memory (world h))))"

lemma boot_reaches:
  assumes "bootable l b P brd passes h"
  shows "\<exists>h' u x t i w. kmain_rs l b P passes h = Some (Inr h') \<and> eflags h' = eflags h \<and> largest_usable (the (memory_map b)) u \<and>
    usable_frames (physical_allocator (snd (memory (world h')))) = area_frames u \<and>
    boot_memory brd (configured u (memory (world h))) x (hpet_base (hpet_dev (world h')))
      (lapic_addr (lapic_dev (world h'))) (io_addr (ioapic_dev (world h'))) (memory (world h')) \<and>
    loaded_idt (world h') = Some \<lparr>idt_ptr.limit = 0xFFF, idt_ptr.base = x + raw_offset P\<rparr> \<and>
    create_init_idt (link l) (kcs l) (x + raw_offset P) = Inr i \<and>
    raw (inner (shared_idt (world h'))) = (raw i)[32 := irq_gate (link l) (kcs l) eoi_handler,
      33 := irq_gate (link l) (kcs l) (irq_panic ''spurious interrupt 33''),
      34 := irq_gate (link l) (kcs l) (irq_panic ''lapic timer''), 35 := irq_gate (link l) (kcs l) (irq_panic ''LAPIC error'')] \<and>
    lapic_read 0x320 (lapic_dev (world h')) = Inr 34 \<and> timer_line (world h') = Some 32 \<and> hpet_started_at (hpet_dev (world h')) \<and>
    percpus (world h') = (percpus (world h))[apic_id (world h) := Some \<lparr>lapic_ticks_per_ms = t\<rparr>] \<and> calibrated_rate passes w t"
proof -
  note hyps = assms [unfolded bootable_def, THEN conjunct1] assms [unfolded bootable_def, THEN conjunct2]
  have font: "length (font l) = 4096" and time: "time_passes passes" and harmless: "stores_harmless P"
    and board: "\<And>u. largest_usable (the (memory_map b)) u \<Longrightarrow> board_room 2 (acpi_of P) brd (configured u (memory (world h)))"
    using hyps(2) by simp_all
  obtain es where es: "memory_map b = Some es" using hyps(1) by (auto simp: boot_ok_def split: option.splits)
  obtain cpus bsp where cr: "cpu_response b = Some (cpus, bsp)" "unat bsp < length cpus"
    using hyps(1) by (auto simp: boot_ok_def split: option.splits)
  obtain u c i0 where u: "largest_usable es u" "con_good c" and
    early: "kmain_early l b h = Inr (h\<lparr>world := (world h)\<lparr>con := c, loaded_idt := Some i0, memory := configured u (memory (world h))\<rparr>\<rparr>)"
    using kmain_early_effect [OF hyps(1) font es] hyps(2) by blast
  define k where "k = h\<lparr>world := (world h)\<lparr>con := c, loaded_idt := Some i0, memory := configured u (memory (world h))\<rparr>\<rparr>"
  have board': "board_room 2 (acpi_of P) brd (memory (world k))" using board u(1) es by (simp add: k_def)
  have "lazies (world k) = {}" "kernel_ok k" "counter (hpet_dev (world k)) < 2 ^ 63" "apic_id (world k) < MAX_CPU_COUNT"
    using hyps(2) u(2) by (simp_all add: k_def kernel_ok_def devices_ok_def apic_id_def)
  from cpu_init_booted [OF board' this(1) harmless this(2) font time this(3,4) cr(2), of "link l" "kcs l"] obtain h' t x i w where
    h': "cpu_init P (font l) (link l) (kcs l) (Some (cpus, bsp)) passes k = Some (Inr h')" "eflags h' = eflags h"
      "loaded_idt (world h') = Some \<lparr>idt_ptr.limit = 0xFFF, idt_ptr.base = x + raw_offset P\<rparr>"
      "create_init_idt (link l) (kcs l) (x + raw_offset P) = Inr i"
    and raw: "raw (inner (shared_idt (world h'))) = (raw i)[32 := irq_gate (link l) (kcs l) eoi_handler,
      33 := irq_gate (link l) (kcs l) (irq_panic ''spurious interrupt 33''),
      34 := irq_gate (link l) (kcs l) (irq_panic ''lapic timer''), 35 := irq_gate (link l) (kcs l) (irq_panic ''LAPIC error'')]"
    and t: "percpus (world h') = (percpus (world h))[apic_id (world h) := Some \<lparr>lapic_ticks_per_ms = t\<rparr>]" "calibrated_rate passes w t"
    and regs: "lapic_read 0x320 (lapic_dev (world h')) = Inr 34" "timer_line (world h') = Some 32" "hpet_started_at (hpet_dev (world h'))"
    and mem: "boot_memory brd (configured u (memory (world h))) x (hpet_base (hpet_dev (world h')))
      (lapic_addr (lapic_dev (world h'))) (io_addr (ioapic_dev (world h'))) (memory (world h'))"
    by (auto simp: k_def apic_id_def timer_line_def)
  have "kmain_rs l b P passes h = Some (Inr h')" using h'(1) by (simp add: kmain_rs_def early cr(1) k_def)
  moreover have "usable_frames (physical_allocator (snd (memory (world h')))) = area_frames u"
    by (rule booted_area [OF mem]) (use board' in \<open>simp add: board_room_def board_ok_def drivers_room_def k_def\<close>)
  ultimately show ?thesis using u(1) h'(2-4) t es mem raw regs by (metis option.sel)
qed

text \<open>
  C6. From its entry the kernel reaches the halt loop of the boot processor, without a panic, when the boot loader has answered its
  requests, the console works on the screen, the devices and ACPI tables lie outside the usable memory, there is room for what the boot allocates, and time passes. Then the frames to hand
  out are those of the largest usable area of the memory map; the memory system is in a state that the page allocator
  can reach, in which the live allocations are exactly the block of the heap that holds the shared interrupt table and the registers of the three devices, which are visible at the addresses the drivers use;
  the shared interrupt table in that block is loaded, with a present gate to a handler of the kernel for each of the first 36 vectors and no other; and
  the measured tick rate of the boot processor is recorded.
\<close>

theorem boot_completes:
  assumes "bootable l b P brd passes h"
  shows "\<exists>h' u x t w. kmain_rs l b P passes h = Some (Inr h') \<and>
    largest_usable (the (memory_map b)) u \<and>
    usable_frames (physical_allocator (snd (memory (world h')))) = area_frames u \<and>
    boot_memory brd (configured u (memory (world h))) x (hpet_base (hpet_dev (world h')))
      (lapic_addr (lapic_dev (world h'))) (io_addr (ioapic_dev (world h'))) (memory (world h')) \<and>
    loaded_idt (world h') = Some \<lparr>idt_ptr.limit = 0xFFF, idt_ptr.base = x + raw_offset P\<rparr> \<and>
    (\<forall>v < 36. gate_present (raw (inner (shared_idt (world h'))) ! v) \<and>
      raw_kernel_cs (raw (inner (shared_idt (world h'))) ! v) = kcs l \<and>
      (\<exists>hd. gate_offset (raw (inner (shared_idt (world h'))) ! v) = link l hd)) \<and>
    (\<forall>v < 256. 36 \<le> v \<longrightarrow> \<not> gate_present (raw (inner (shared_idt (world h'))) ! v)) \<and>
    percpus (world h') = (percpus (world h))[apic_id (world h) := Some \<lparr>lapic_ticks_per_ms = t\<rparr>] \<and> calibrated_rate passes w t"
  using boot_reaches [OF assms] booted_gates [of "link l" "kcs l"] by metis

definition example_linked :: linked where
  "example_linked = \<lparr>font = replicate 4096 0x3C, link = example_link, kcs = 0x28, init_addr = 0x4000\<rparr>"

lemma example_board_configured:
  assumes "largest_usable (the (memory_map example_boot)) u"
  shows "board_room 2 (acpi_of example_platform) example_board (configured u (memory (world example_start)))"
  using example_platform_ok(1) by (simp add: example_configured [OF assms] example_kernel_def)

lemma example_bootable: "bootable example_linked example_boot example_platform example_board example_passes example_start"
proof -
  have "devices_ok (world example_start)"
    by (simp add: devices_ok_def example_start_def example_kernel_def lapic_ok_def ioapic_ok_def example_ioapic_def example_hpet_clock MAX_CPU_COUNT_def)
  moreover have "length (font example_linked) = 4096" by (simp add: example_linked_def)
  moreover have "counter (hpet_dev (world example_start)) < 2 ^ 63" "apic_id (world example_start) < MAX_CPU_COUNT"
    by (simp_all add: example_start_def example_kernel_def example_hpet_clock apic_id_def MAX_CPU_COUNT_def)
  moreover have "new_const = Inr (snd (memory (world example_start)))" "lazies (world example_start) = {}"
    using example_platform_ok(2) by (simp_all add: example_start_def new_const_def page_new_def assert_that_def MAX_eq canonical_num_eq Let_def)
  ultimately show ?thesis
    using example_boot_ok example_time_passes example_platform_ok(3) example_board_configured by (simp add: bootable_def)
qed

theorem boot_completes_witness:
  "\<exists>h'. kmain_rs example_linked example_boot example_platform example_passes example_start = Some (Inr h') \<and>
    gate_present (raw (inner (shared_idt (world h'))) ! 32) \<and>
    translate (fst (memory (world h'))) (lapic_addr (lapic_dev (world h')) + 0x20) = Some 0xfee00020"
proof -
  obtain h' u x where h': "kmain_rs example_linked example_boot example_platform example_passes example_start = Some (Inr h')"
    "\<forall>v < 36. gate_present (raw (inner (shared_idt (world h'))) ! v)"
    "boot_memory example_board (configured u (memory (world example_start))) x (hpet_base (hpet_dev (world h')))
      (lapic_addr (lapic_dev (world h'))) (io_addr (ioapic_dev (world h'))) (memory (world h'))"
    using boot_completes [OF example_bootable] by blast
  have "\<forall>d < 4096. translate (fst (memory (world h'))) (lapic_addr (lapic_dev (world h')) + of_nat d) =
      Some (lapic_phys_addr example_board + of_nat d)"
    using h'(3) unfolding boot_memory_def by blast
  from this [rule_format, of "0x20"] show ?thesis
    using h'(1,2) by (simp add: lapic_phys_addr_def example_board_def example_madt_def)
qed

section \<open>Interrupts after the boot\<close>

lemma booted_interrupts:
  assumes "create_init_idt (link l) (kcs l) a = Inr i"
    and "raw (inner (shared_idt w)) = (raw i)[32 := irq_gate (link l) (kcs l) eoi_handler, 33 := g1, 34 := g2, 35 := g3]"
    and "lapic_read 0x320 (lapic_dev w) = Inr x" and "timer_line w = Some 32"
  shows "interrupts_ready (link l) (kcs l) w"
proof -
  obtain j where j: "create_init_idt (link l) (kcs l) a = Inr j" "length (raw j) = 256"
    "\<forall>trap v h. (trap, v, h) \<in> set init_gates \<longrightarrow> raw j ! v = to_raw (gate_entry (link l) (kcs l) (trap, v, h))"
    using init_gates_set by blast
  then have [simp]: "j = i" using assms(1) by simp
  have "raw (inner (shared_idt w)) ! fst (snd g) = to_raw (gate_entry (link l) (kcs l) g)" if "g \<in> set init_gates" for g
  proof -
    have "fst (snd g) < 32" using that init_gates_vectors by fastforce
    then show ?thesis using j(3) that by (cases g) (auto simp: assms(2))
  qed
  moreover have "unat (lapic_addr (lapic_dev w)) + 0xB0 < 2 ^ 64"
    using assms(3) by (auto simp: lapic_read_def chk_add_def split: if_splits)
  ultimately show ?thesis using j(2) assms(2,4) by (simp add: interrupts_ready_def Let_def)
qed

text \<open>
  C7. What the boot leaves for the timer, and that its interrupts are harmless. The boot ends with the flags of its entry, and its timer would raise vector 32, provided that
  the local controller is enabled, which the kernel leaves to the firmware. So the code that goes on from there is interrupted by the timer only when interrupts were
  enabled at the entry; with interrupts disabled, as the boot loader hands over, no timer interrupt comes.
  Whenever interrupts are enabled and timer interrupts do come, any number of them: the code they interrupt, whatever it is, goes on with the
  registers, the flags and the stack pointer it had, and the only thing they leave in the world is the acknowledgement in the
  local controller. In every state so reached the handling of the next interrupt finds its gate, does not panic and leaves the interrupt acknowledged.
\<close>

theorem timer_interrupts_served:
  assumes "bootable l b P brd passes h" and "inj_on (link l) (set kernel_handlers)"
  shows "\<exists>h'. kmain_rs l b P passes h = Some (Inr h') \<and> eflags h' = eflags h \<and> interrupts_ready (link l) (kcs l) (world h') \<and>
    timer_vector (world h') = (if lapic_enabled (world h') then Some 32 else None) \<and>
    (\<forall>p s. rflags p = eflags h' \<and> timer_tick (link l) (p, world h') s \<longrightarrow> irqs_on h \<and> lapic_enabled (world h')) \<and>
    (\<forall>p q w. (timer_tick (link l))\<^sup>*\<^sup>* (p, world h') (q, w) \<longrightarrow>
      resumed p q \<and> w \<in> {world h', acknowledged (world h')} \<and> timer_vector w = timer_vector (world h') \<and>
      (\<forall>ra f addr e. delivered q None e \<and> sysv_callee f \<longrightarrow>
        (\<exists>q' w'. handle_vector (link l) ra f 32 addr e w = Some (Inr (q', w')) \<and> resumed q q' \<and>
          lapic_read 0xB0 (lapic_dev w') = Inr 0)))"
proof -
  obtain h' where h': "kmain_rs l b P passes h = Some (Inr h')" "eflags h' = eflags h"
    and started: "hpet_started_at (hpet_dev (world h'))" and ready: "interrupts_ready (link l) (kcs l) (world h')"
    using boot_reaches [OF assms(1)] booted_interrupts by metis
  have vec: "timer_vector (world h') = (if lapic_enabled (world h') then Some 32 else None)"
    using started ready by (simp add: timer_vector_def interrupts_ready_def)
  have "irqs_on h \<and> lapic_enabled (world h')" if "rflags p = eflags h'" "timer_tick (link l) (p, world h') s" for p s
    using that(2)
  proof (cases rule: timer_tick.cases)
    case (tick v)
    then show ?thesis using that(1) h'(2) vec by (auto simp: irqs_on_def split: if_splits)
  qed
  moreover have "resumed p q \<and> w \<in> {world h', acknowledged (world h')} \<and> timer_vector w = timer_vector (world h') \<and>
      (\<forall>ra f addr e. delivered q None e \<and> sysv_callee f \<longrightarrow>
        (\<exists>q' w'. handle_vector (link l) ra f 32 addr e w = Some (Inr (q', w')) \<and> resumed q q' \<and>
          lapic_read 0xB0 (lapic_dev w') = Inr 0))"
    if "(timer_tick (link l))\<^sup>*\<^sup>* (p, world h') (q, w)" for p q w
  proof -
    have w: "resumed p q" "w \<in> {world h', acknowledged (world h')}" "interrupts_ready (link l) (kcs l) w"
      using timer_ticks_effect [OF that ready assms(2)] by simp_all
    have "lapic_read 0xB0 (lapic_dev (acknowledged w)) = Inr 0"
      using w(3) by (simp add: interrupts_ready_def lapic_read_def acknowledged_def chk_add_def)
    then show ?thesis
      using w timer_handled [OF w(3) assms(2)] interrupt_wrapper_resumes [of q]
      by (auto simp: resumed_def Let_def)
  qed
  ultimately show ?thesis using h' ready vec by blast
qed

theorem timer_interrupts_served_witness:
  "\<exists>h' w. kmain_rs example_linked example_boot example_platform example_passes example_start = Some (Inr h') \<and>
    (\<nexists>p s. rflags p = eflags h' \<and> timer_tick example_link (p, world h') s) \<and>
    handle_vector example_link 0x2000 clobber 32 0 (deliver cpu0 None) (world h') =
      Some (Inr (exec 0x2000 clobber interrupt_handler_fn (deliver cpu0 None), w)) \<and>
    resumed cpu0 (exec 0x2000 clobber interrupt_handler_fn (deliver cpu0 None))"
proof -
  have lk: "link example_linked = example_link" by (simp add: example_linked_def)
  note served = timer_interrupts_served [OF example_bootable, unfolded lk, OF example_link_inj]
  then obtain h' where h': "kmain_rs example_linked example_boot example_platform example_passes example_start = Some (Inr h')"
    and ready: "interrupts_ready example_link (kcs example_linked) (world h')"
    and off: "\<And>p s. rflags p = eflags h' \<Longrightarrow> timer_tick example_link (p, world h') s \<Longrightarrow> irqs_on example_start"
    and ticks: "\<And>p q w ra f x e. (timer_tick example_link)\<^sup>*\<^sup>* (p, world h') (q, w) \<Longrightarrow> delivered q None e \<Longrightarrow> sysv_callee f \<Longrightarrow>
      \<exists>q' w'. handle_vector example_link ra f 32 x e w = Some (Inr (q', w')) \<and> resumed q q'"
    by metis
  have "\<not> irqs_on example_start" by (simp add: irqs_on_def example_start_def example_kernel_def IF_FLAG_def)
  then show ?thesis using ticks [OF rtranclp.rtrancl_refl delivered_deliver sysv_clobber, of "0x2000" 0]
      h' off timer_handled [OF ready example_link_inj] by auto
qed

end
